(* ===== verification/Prelude.thy ===== *)
theory Prelude
  imports Main "HOL-Library.Word"
begin

unbundle bit_operations_syntax

text \<open>
  Shared vocabulary of the development.

  \<^item> the machine types of the C++ sources: \<open>u8\<close> to \<open>u64\<close> are the fixed-width integers
    (\<open>int8_t\<close> to \<open>int64_t\<close> use the same bit patterns, read by \<open>sint\<close>), \<open>bytes\<close> is the
    value of a \<open>std::string\<close> or of a byte buffer;
  \<^item> \<open>fault\<close> and \<open>res\<close>: what the code does where C++ throws, asserts or has undefined
    behaviour is a value \<open>Inl f\<close>; \<open>bindE\<close> sequences such computations;
  \<^item> \<open>sz_sub\<close>: subtraction on \<open>size_t\<close>, which wraps below zero;
  \<^item> little-endian byte strings of numbers (\<open>le_bytes\<close>, \<open>from_le\<close>) and the list lemmas
    on overwriting a segment (\<open>overwrite\<close>) that the buffer proofs share.
\<close>

section \<open>Machine types, faults and sequencing\<close>

type_synonym u8 = "8 word"
type_synonym u16 = "16 word"
type_synonym u32 = "32 word"
type_synonym u64 = "64 word"
type_synonym bytes = "u8 list"

datatype fault =
    NullDeref        \<comment> \<open>a null pointer is dereferenced\<close>
  | OutOfRange       \<comment> \<open>\<open>std::out_of_range\<close> is thrown\<close>
  | LengthError      \<comment> \<open>\<open>std::length_error\<close> is thrown\<close>
  | LogicError       \<comment> \<open>\<open>std::logic_error\<close> is thrown\<close>
  | OutOfBounds      \<comment> \<open>an array or vector is indexed outside its storage\<close>
  | InvalidIterator  \<comment> \<open>an end or stale iterator is erased or dereferenced\<close>
  | AssertFail       \<comment> \<open>\<open>RPC_ASSERT\<close> stops the process\<close>
  | DivByZero        \<comment> \<open>an integer is divided by zero\<close>
  | BadShift         \<comment> \<open>a shift by the width of the type or more\<close>
  | WildPointer      \<comment> \<open>a pointer that leads to no object is dereferenced\<close>

type_synonym 'a res = "fault + 'a"

fun bindE :: "'e + 'a \<Rightarrow> ('a \<Rightarrow> 'e + 'b) \<Rightarrow> 'e + 'b" where
  "bindE (Inl e) f = Inl e"
| "bindE (Inr x) f = f x"

lemma bindE_eq_Inr [simp]: "bindE m f = Inr y \<longleftrightarrow> (\<exists>x. m = Inr x \<and> f x = Inr y)"
  by (cases m) auto

lemma bindE_assoc: "bindE (bindE m f) g = bindE m (\<lambda>x. bindE (f x) g)"
  by (cases m) auto

lemma bindE_cong [fundef_cong]:
  "m = m' \<Longrightarrow> (\<And>x. m' = Inr x \<Longrightarrow> f x = g x) \<Longrightarrow> bindE m f = bindE m' g"
  by (cases m') auto

text \<open>\<open>size_t\<close> subtraction: exact when the result is not negative, wrapping otherwise.\<close>

definition sz_sub :: "nat \<Rightarrow> nat \<Rightarrow> nat" where
  "sz_sub a b = (if b \<le> a then a - b else 2 ^ 64 - (b - a))"

lemma sz_sub_le [simp]: "b \<le> a \<Longrightarrow> sz_sub a b = a - b"
  by (simp add: sz_sub_def)

text \<open>Conversion of an \<open>int\<close> to \<open>size_t\<close>.\<close>

definition to_size :: "int \<Rightarrow> nat" where
  "to_size i = nat (i mod 2 ^ 64)"

text \<open>The bytes of a string literal of the sources.\<close>

definition lit :: "string \<Rightarrow> bytes" where
  "lit s = map of_char s"

lemma length_lit [simp]: "length (lit s) = length s"
  by (simp add: lit_def)

text \<open>Decimal and lower-case hexadecimal digits, as a stream prints an unsigned number.\<close>

fun dec :: "nat \<Rightarrow> bytes" where
  "dec n = (if n < 10 then [of_nat (48 + n)] else dec (n div 10) @ [of_nat (48 + n mod 10)])"

definition hex_digit :: "nat \<Rightarrow> u8" where
  "hex_digit d = of_nat (if d < 10 then 48 + d else 87 + d)"

fun hex :: "nat \<Rightarrow> bytes" where
  "hex n = (if n < 16 then [hex_digit n] else hex (n div 16) @ [hex_digit (n mod 16)])"

declare dec.simps [simp del] hex.simps [simp del]

text \<open>Every byte of a decimal number is a digit.\<close>

lemma dec_digits: "set (dec n) \<subseteq> {48..57}"
proof (induction n rule: dec.induct)
  case (1 n)
  have "(of_nat (48 + d) :: u8) \<in> {48..57}" if "d < 10" for d
    using that by (auto simp: word_le_nat_alt unat_of_nat simp del: of_nat_add)
  then show ?case using 1 by (subst dec.simps) auto
qed

lemma dec_nonempty [simp]: "dec n \<noteq> []"
  by (subst dec.simps) simp

lemma length_dec: "n < 10 ^ Suc k \<Longrightarrow> length (dec n) \<le> Suc k"
proof (induction k arbitrary: n)
  case 0
  then show ?case by (subst dec.simps) simp
next
  case (Suc k)
  then have "n div 10 < 10 ^ Suc k" by (simp add: less_mult_imp_div_less mult.commute)
  then show ?case using Suc.IH by (subst dec.simps) simp
qed

section \<open>Overwriting a segment of a list\<close>

definition overwrite :: "nat \<Rightarrow> 'a list \<Rightarrow> 'a list \<Rightarrow> 'a list" where
  "overwrite p xs ys = take p ys @ xs @ drop (p + length xs) ys"

lemma length_overwrite [simp]:
  "p + length xs \<le> length ys \<Longrightarrow> length (overwrite p xs ys) = length ys"
  by (simp add: overwrite_def)

lemma overwrite_Nil [simp]: "overwrite p [] ys = ys"
  by (simp add: overwrite_def)

lemma take_overwrite:
  "p \<le> length ys \<Longrightarrow> take (p + length xs) (overwrite p xs ys) = take p ys @ xs"
  by (simp add: overwrite_def)

lemma drop_overwrite:
  "p \<le> length ys \<Longrightarrow> drop (p + length xs) (overwrite p xs ys) = drop (p + length xs) ys"
  by (simp add: overwrite_def)

lemma overwrite_overwrite:
  assumes "p + length xs + length zs \<le> length ys"
  shows "overwrite (p + length xs) zs (overwrite p xs ys) = overwrite p (xs @ zs) ys"
  using assms by (simp add: overwrite_def add.commute add.left_commute)

lemma overwrite_prefix:
  "length us \<le> p \<Longrightarrow> overwrite p xs (us @ ys) = us @ overwrite (p - length us) xs ys"
  by (simp add: overwrite_def)

lemma overwrite_suffix:
  "p + length xs \<le> length ys \<Longrightarrow> overwrite p xs (ys @ us) = overwrite p xs ys @ us"
  by (simp add: overwrite_def)

section \<open>Lists of blocks of equal length\<close>

lemma length_concat_blocks:
  "\<forall>b \<in> set bs. length b = n \<Longrightarrow> length (concat bs) = length bs * n"
  by (induction bs) auto

lemma take_concat_blocks:
  "\<forall>b \<in> set bs. length b = n \<Longrightarrow> take (i * n) (concat bs) = concat (take i bs)"
proof (induction bs arbitrary: i)
  case Nil
  then show ?case by simp
next
  case (Cons b bs)
  then show ?case by (cases i) auto
qed

lemma drop_concat_blocks:
  "\<forall>b \<in> set bs. length b = n \<Longrightarrow> drop (i * n) (concat bs) = concat (drop i bs)"
proof (induction bs arbitrary: i)
  case Nil
  then show ?case by simp
next
  case (Cons b bs)
  then show ?case by (cases i) auto
qed

text \<open>The block at index \<open>i\<close>, read from offset \<open>k\<close>, starts what follows \<open>i * n + k\<close>.\<close>

lemma drop_concat_nth:
  assumes "\<forall>b \<in> set bs. length b = n" "i < length bs" "k \<le> n"
  shows "drop (i * n + k) (concat bs) = drop k (bs ! i) @ concat (drop (Suc i) bs)"
proof -
  have "drop (i * n + k) (concat bs) = drop k (concat (drop i bs))"
    using drop_concat_blocks [OF assms(1), of i] by (metis add.commute drop_drop)
  also have "concat (drop i bs) = bs ! i @ concat (drop (Suc i) bs)"
    using assms(2) by (metis Cons_nth_drop_Suc concat.simps(2))
  also have "drop k \<dots> = drop k (bs ! i) @ concat (drop (Suc i) bs)"
    using assms by (simp add: nth_mem)
  finally show ?thesis .
qed

lemma concat_update_block:
  assumes "\<forall>b \<in> set bs. length b = n" "i < length bs" "k + length xs \<le> n"
  shows "concat (bs[i := overwrite k xs (bs ! i)]) = overwrite (i * n + k) xs (concat bs)"
proof -
  have split: "bs = take i bs @ bs ! i # drop (Suc i) bs"
    using assms(2) by (rule id_take_nth_drop)
  have len: "length (concat (take i bs)) = i * n"
    using assms(1,2) length_concat_blocks [of "take i bs" n] by (auto dest: in_set_takeD)
  have bi: "length (bs ! i) = n"
    using assms(1,2) by (simp add: nth_mem)
  have "overwrite (i * n + k) xs (concat bs)
      = overwrite (i * n + k) xs (concat (take i bs) @ bs ! i @ concat (drop (Suc i) bs))"
    by (subst split) simp
  also have "\<dots> = concat (take i bs) @ overwrite k xs (bs ! i @ concat (drop (Suc i) bs))"
    by (subst overwrite_prefix) (simp_all add: len)
  also have "\<dots> = concat (take i bs) @ overwrite k xs (bs ! i) @ concat (drop (Suc i) bs)"
    using assms(3) bi by (simp add: overwrite_suffix)
  also have "\<dots> = concat (bs[i := overwrite k xs (bs ! i)])"
    using assms(2) by (simp add: upd_conv_take_nth_drop)
  finally show ?thesis by simp
qed

section \<open>Little-endian byte strings of numbers\<close>

fun le_bytes :: "nat \<Rightarrow> nat \<Rightarrow> bytes" where
  "le_bytes 0 x = []"
| "le_bytes (Suc n) x = of_nat (x mod 256) # le_bytes n (x div 256)"

fun from_le :: "bytes \<Rightarrow> nat" where
  "from_le [] = 0"
| "from_le (b # bs) = unat b + 256 * from_le bs"

lemma length_le_bytes [simp]: "length (le_bytes n x) = n"
  by (induction n arbitrary: x) auto

lemma le_bytes_4: "le_bytes 4 x =
    [of_nat (x mod 256), of_nat (x div 256 mod 256), of_nat (x div 256 div 256 mod 256),
     of_nat (x div 256 div 256 div 256 mod 256)]"
proof -
  have "4 = Suc (Suc (Suc (Suc 0)))" by simp
  then show ?thesis by (simp only: le_bytes.simps)
qed

lemma unat_u8_of_nat [simp]: "unat (of_nat x :: u8) = x mod 256"
  by (simp add: unat_of_nat)

lemma unat_u8_less [simp]: "unat (b :: u8) < 256"
  using unsigned_less [of b, where ?'a = nat] by simp

lemma from_le_le_bytes: "from_le (le_bytes n x) = x mod 256 ^ n"
proof (induction n arbitrary: x)
  case 0
  then show ?case by simp
next
  case (Suc n)
  have "x mod (256 * 256 ^ n) = 256 * (x div 256 mod 256 ^ n) + x mod 256"
    by (rule mod_mult2_eq)
  then show ?case by (simp add: Suc.IH)
qed

lemma from_le_less: "from_le bs < 256 ^ length bs"
proof (induction bs)
  case Nil
  then show ?case by simp
next
  case (Cons b bs)
  have "from_le bs + 1 \<le> 256 ^ length bs"
    using Cons.IH by simp
  then have "256 * from_le bs + 256 \<le> 256 * 256 ^ length bs"
    by (metis add_mult_distrib2 mult_le_mono2 mult.right_neutral)
  then show ?case
    using unat_u8_less [of b] by (simp del: unat_u8_less)
qed

lemma le_bytes_from_le: "le_bytes (length bs) (from_le bs) = bs"
proof (induction bs)
  case Nil
  then show ?case by simp
next
  case (Cons b bs)
  have "(unat b + 256 * from_le bs) div 256 = from_le bs"
    using unat_u8_less [of b] by (simp del: unat_u8_less)
  moreover have "(unat b + 256 * from_le bs) mod 256 = unat b"
    using unat_u8_less [of b] by (simp del: unat_u8_less)
  ultimately show ?case
    using Cons.IH by simp
qed

section \<open>Words\<close>

lemma unat_drop_bit: "unat (drop_bit n v) = unat v div 2 ^ n"
  unfolding unat_drop_bit_eq by (simp add: drop_bit_eq_div)

lemma unat_take_bit: "unat (take_bit n v) = unat v mod 2 ^ n"
  unfolding unsigned_take_bit_eq by (simp add: take_bit_eq_mod)

text \<open>Adding bits above the used ones is addition.\<close>

lemma unat_or_push_bit:
  fixes a b :: "'a::len word"
  assumes "unat a < 2 ^ i" "unat b * 2 ^ i + unat a < 2 ^ LENGTH('a)"
  shows "unat (a OR push_bit i b) = unat a + unat b * 2 ^ i"
proof -
  have "take_bit i a = a"
    using assms(1) by (intro word_unat_eq_iff [THEN iffD2]) (simp add: unat_take_bit)
  then have "n < i" if "bit a n" for n
    using that by (metis bit_take_bit_iff)
  then have "a AND push_bit i b = 0"
    by (intro bit_word_eqI) (auto simp: bit_and_iff bit_push_bit_iff not_less [symmetric])
  then have "a OR push_bit i b = a + push_bit i b"
    by (simp add: disjunctive_add_eq_or)
  moreover have "unat (push_bit i b) = unat b * 2 ^ i"
    unfolding unsigned_push_bit_eq using assms(2) by (simp add: push_bit_eq_mult take_bit_eq_mod)
  ultimately show ?thesis
    using assms(2) by (simp add: unat_word_ariths)
qed

text \<open>A conversion to a wider unsigned type keeps the value.\<close>

lemma unat_ucast_wider:
  fixes w :: "'a::len word"
  assumes "LENGTH('a) \<le> LENGTH('b::len)"
  shows "unat (ucast w :: 'b word) = unat w"
proof -
  have "unat w < 2 ^ LENGTH('b)"
    using unsigned_less [of w, where ?'a = nat] assms
    by (meson less_le_trans one_le_numeral power_increasing)
  then show ?thesis
    by (simp add: unsigned_ucast_eq take_bit_nat_eq_self)
qed

lemma word_eq_of_nat: "unat w = n \<Longrightarrow> w = of_nat n"
  by auto

end
