(* ===== verification/Byte_Order.thy ===== *)
theory Byte_Order
  imports Prelude
begin

text \<open>
  Byte order (\<open>include/utils.h\<close>, \<open>include/address.h\<close>): the constants of the two byte orders,
  \<open>ByteSwap\<close> at its three widths, and \<open>EndianCast\<close>, which \<open>HostToNetwork\<close> and
  \<open>NetworkToHost\<close> call. The host is little-endian (the project targets x86-64 Linux), so
  \<open>RPC_BYTE_ORDER\<close> is \<open>RPC_LITTLE_ENDIAN\<close> and the object representation of an integer, which
  \<open>memcpy\<close> copies, is its little-endian byte string.
\<close>

definition RPC_LITTLE_ENDIAN :: nat where
  "RPC_LITTLE_ENDIAN = 1"

definition RPC_BIG_ENDIAN :: nat where
  "RPC_BIG_ENDIAN = 2"

definition RPC_BYTE_ORDER :: nat where
  "RPC_BYTE_ORDER = RPC_LITTLE_ENDIAN"

text \<open>Object representation of an integer of \<open>n\<close> bytes, and back.\<close>

definition obj_bytes :: "nat \<Rightarrow> 'a::len word \<Rightarrow> bytes" where
  "obj_bytes n w = le_bytes n (unat w)"

definition obj_word :: "bytes \<Rightarrow> 'a::len word" where
  "obj_word bs = of_nat (from_le bs)"

definition ByteSwap :: "nat \<Rightarrow> 'a::len word \<Rightarrow> 'a word" where
  "ByteSwap n w = obj_word (rev (obj_bytes n w))"

definition EndianCast :: "nat \<Rightarrow> 'a::len word \<Rightarrow> 'a word" where
  "EndianCast n w =
     (if n = 1 \<or> RPC_BYTE_ORDER = RPC_BIG_ENDIAN then w else ByteSwap n w)"

definition NetworkToHost :: "nat \<Rightarrow> 'a::len word \<Rightarrow> 'a word" where
  "NetworkToHost n w = EndianCast n w"

definition HostToNetwork :: "nat \<Rightarrow> 'a::len word \<Rightarrow> 'a word" where
  "HostToNetwork n w = EndianCast n w"

lemma length_obj_bytes [simp]: "length (obj_bytes n w) = n"
  by (simp add: obj_bytes_def)

lemma power_256: "(256::nat) ^ n = 2 ^ (8 * n)"
  by (simp add: power_mult)

lemma obj_word_obj_bytes [simp]:
  fixes w :: "'a::len word"
  assumes "LENGTH('a) = 8 * n"
  shows "obj_word (obj_bytes n w) = w"
proof -
  have "unat w < 256 ^ n"
    using unsigned_less [of w, where ?'a = nat] assms by (simp add: power_256)
  then show ?thesis
    by (simp add: obj_word_def obj_bytes_def from_le_le_bytes)
qed

lemma obj_bytes_obj_word:
  assumes "LENGTH('a::len) = 8 * length bs"
  shows "obj_bytes (length bs) (obj_word bs :: 'a word) = bs"
proof -
  have "from_le bs < 2 ^ LENGTH('a)"
    using from_le_less [of bs] assms by (simp add: power_256)
  then show ?thesis
    by (simp add: obj_bytes_def obj_word_def unat_of_nat le_bytes_from_le)
qed

lemma ByteSwap_involution:
  fixes w :: "'a::len word"
  assumes "LENGTH('a) = 8 * n"
  shows "ByteSwap n (ByteSwap n w) = w"
  using assms obj_bytes_obj_word [of "rev (obj_bytes n w)", where ?'a = 'a]
  by (simp add: ByteSwap_def)

lemma NetworkToHost_HostToNetwork [simp]:
  fixes w :: "'a::len word"
  assumes "LENGTH('a) = 8 * n"
  shows "NetworkToHost n (HostToNetwork n w) = w"
  using assms by (simp add: NetworkToHost_def HostToNetwork_def EndianCast_def ByteSwap_involution)

text \<open>The object representation of a network-order integer is its big-endian byte string.\<close>

lemma obj_bytes_HostToNetwork:
  fixes w :: "'a::len word"
  assumes "LENGTH('a) = 8 * n" "n \<noteq> 1"
  shows "obj_bytes n (HostToNetwork n w) = rev (obj_bytes n w)"
  using assms obj_bytes_obj_word [of "rev (obj_bytes n w)", where ?'a = 'a]
  by (simp add: HostToNetwork_def EndianCast_def ByteSwap_def RPC_BYTE_ORDER_def
      RPC_LITTLE_ENDIAN_def RPC_BIG_ENDIAN_def)

section \<open>Bits of byte strings\<close>

lemma bit_from_le: "bit (from_le bs) n \<longleftrightarrow> n div 8 < length bs \<and> bit (bs ! (n div 8)) (n mod 8)"
proof (induction bs arbitrary: n)
  case Nil
  then show ?case by simp
next
  case (Cons b bs)
  have "take_bit 8 (unat b) = unat b" by (simp add: take_bit_nat_eq_self)
  then have low: "\<not> bit (unat b) m" if "8 \<le> m" for m
    using that by (metis bit_take_bit_iff not_less)
  then have "unat b AND push_bit 8 (from_le bs) = 0"
    by (intro bit_eqI) (auto simp: bit_and_iff bit_push_bit_iff)
  then have "from_le (b # bs) = unat b OR push_bit 8 (from_le bs)"
    by (simp add: disjunctive_add_eq_or [symmetric] push_bit_eq_mult)
  then have "bit (from_le (b # bs)) n \<longleftrightarrow> bit (unat b) n \<or> 8 \<le> n \<and> bit (from_le bs) (n - 8)"
    by (simp only: bit_or_iff bit_push_bit_iff) auto
  moreover have "bit (unat b) n = bit b n" by (simp add: bit_unsigned_iff)
  ultimately show ?case
    using Cons.IH [of "n - 8"] low [of n]
    by (cases "n < 8") (auto simp: le_div_geq le_mod_geq)
qed

lemma bit_le_bytes: "i < n \<Longrightarrow> bit (le_bytes n x ! i) j \<longleftrightarrow> j < 8 \<and> bit x (8 * i + j)"
proof (induction n arbitrary: i x)
  case 0
  then show ?case by simp
next
  case (Suc n)
  show ?case
  proof (cases i)
    case 0
    have "x mod 256 = take_bit 8 x" by (simp add: take_bit_eq_mod)
    then show ?thesis using 0 by (auto simp: bit_of_nat_iff bit_take_bit_iff)
  next
    case (Suc k)
    have "x div 256 = drop_bit 8 x" by (simp add: drop_bit_eq_div)
    then show ?thesis using Suc.IH [of k "x div 256"] Suc.prems Suc by (simp add: bit_drop_bit_eq ac_simps)
  qed
qed

lemma bit_ByteSwap:
  fixes w :: "'a::len word"
  assumes "LENGTH('a) = 8 * n" "k < LENGTH('a)"
  shows "bit (ByteSwap n w) k \<longleftrightarrow> bit w (8 * (n - 1 - k div 8) + k mod 8)"
proof -
  have k: "k div 8 < n" using assms by auto
  have "bit (ByteSwap n w) k \<longleftrightarrow> bit (from_le (rev (le_bytes n (unat w)))) k"
    using assms(2) by (simp add: ByteSwap_def obj_word_def obj_bytes_def bit_of_nat_iff)
  also have "\<dots> \<longleftrightarrow> bit (le_bytes n (unat w) ! (n - 1 - k div 8)) (k mod 8)"
    using k by (simp add: bit_from_le rev_nth)
  also have "\<dots> \<longleftrightarrow> bit (unat w) (8 * (n - 1 - k div 8) + k mod 8)"
    using k by (subst bit_le_bytes) auto
  finally show ?thesis by (simp add: bit_unsigned_iff)
qed

text \<open>Swapping bytes commutes with the bitwise operations.\<close>

lemma ByteSwap_bitwise:
  fixes v w :: "'a::len word"
  assumes "LENGTH('a) = 8 * n"
  shows "ByteSwap n (v AND w) = ByteSwap n v AND ByteSwap n w"
    "ByteSwap n (v OR w) = ByteSwap n v OR ByteSwap n w"
    "ByteSwap n (NOT v) = NOT (ByteSwap n v)"
proof -
  have in_range: "8 * (n - 1 - k div 8) + k mod 8 < LENGTH('a)" if "k < LENGTH('a)" for k
  proof -
    have "k div 8 < n" using that assms by auto
    then have "8 * (n - 1 - k div 8) \<le> 8 * (n - 1)" "0 < n" by auto
    then show ?thesis using mod_less_divisor [of 8 k] assms by linarith
  qed
  show "ByteSwap n (v AND w) = ByteSwap n v AND ByteSwap n w"
    "ByteSwap n (v OR w) = ByteSwap n v OR ByteSwap n w"
    "ByteSwap n (NOT v) = NOT (ByteSwap n v)"
    using assms in_range
    by (intro bit_word_eqI; simp add: bit_ByteSwap bit_and_iff bit_or_iff bit_not_iff)+
qed

end
