(* ===== verification/Byte_Array.thy ===== *)
theory Byte_Array
  imports Byte_Order
begin

text \<open>
  The byte buffer \<open>ByteArray\<close> (\<open>include/byte_array.h\<close>, \<open>src/byte_array.cc\<close>): its state, the
  block list and its growth, the core \<open>read\<close> and \<open>write\<close>, positioning and \<open>toString\<close>.

  The linked list of blocks that starts at \<open>head_\<close> is the list \<open>ba_nodes\<close> of block contents;
  \<open>curr_\<close> is the index \<open>ba_curr\<close> of its block, and the index one past the last block stands for
  the null pointer. \<open>ba_fill j k\<close> is the byte that the uninitialised memory of the \<open>j\<close>th block
  holds at offset \<open>k\<close>: C++ leaves it unspecified, so every statement holds for every filling.

  A loop that walks the block list dereferences \<open>curr_\<close> once per round; a null pointer there is
  the fault \<open>NullDeref\<close>. The two views \<open>behind\<close> (the bytes before the position) and \<open>ahead\<close> (the
  readable bytes, from the position to the end of the data) are the abstraction: the invariant
  \<open>ba_inv\<close> makes every operation a simple operation on them.
\<close>

section \<open>State\<close>

record bytearray =
  ba_nodes :: "bytes list"
  ba_curr :: nat
  ba_base :: nat
  ba_pos :: nat
  ba_cap :: nat
  ba_size :: nat
  ba_endian :: nat
  ba_fill :: "nat \<Rightarrow> nat \<Rightarrow> u8"

definition new_Node :: "(nat \<Rightarrow> nat \<Rightarrow> u8) \<Rightarrow> nat \<Rightarrow> nat \<Rightarrow> bytes" where
  "new_Node fill j s = map (fill j) [0..<s]"

definition new_ByteArray :: "(nat \<Rightarrow> nat \<Rightarrow> u8) \<Rightarrow> nat \<Rightarrow> bytearray" where
  "new_ByteArray fill s =
     \<lparr>ba_nodes = [new_Node fill 0 s], ba_curr = 0, ba_base = s, ba_pos = 0, ba_cap = s,
      ba_size = 0, ba_endian = RPC_LITTLE_ENDIAN, ba_fill = fill\<rparr>"

definition default_base :: nat where
  "default_base = 4096"

definition getReadableSize :: "bytearray \<Rightarrow> nat" where
  "getReadableSize ba = sz_sub (ba_size ba) (ba_pos ba)"

definition getCapacity :: "bytearray \<Rightarrow> nat" where
  "getCapacity ba = sz_sub (ba_cap ba) (ba_pos ba)"

section \<open>Growth\<close>

fun add_nodes :: "nat \<Rightarrow> bytearray \<Rightarrow> bytearray" where
  "add_nodes 0 ba = ba"
| "add_nodes (Suc n) ba =
     add_nodes n
       (ba\<lparr>ba_nodes := ba_nodes ba @ [new_Node (ba_fill ba) (length (ba_nodes ba)) (ba_base ba)],
           ba_cap := ba_cap ba + ba_base ba\<rparr>)"

text \<open>
  \<open>ceil(1.0 * size / base_size_)\<close> is the integer ceiling (exact in \<open>double\<close> below \<open>2 ^ 53\<close>).
\<close>

definition addCapacity :: "bytearray \<Rightarrow> nat \<Rightarrow> bytearray" where
  "addCapacity ba sz =
     (if sz = 0 then ba
      else let old_capacity = getCapacity ba in
        if sz \<le> old_capacity then ba
        else let sz' = sz - old_capacity;
                 count = (sz' + ba_base ba - 1) div ba_base ba;
                 ba' = add_nodes count ba
             in if old_capacity = 0 then ba'\<lparr>ba_curr := length (ba_nodes ba)\<rparr> else ba')"

section \<open>Core reads and writes\<close>

function (sequential) write_loop :: "bytearray \<Rightarrow> nat \<Rightarrow> bytes \<Rightarrow> bytearray res" where
  "write_loop ba npos bs =
     (if bs = [] then Inr ba
      else if length (ba_nodes ba) \<le> ba_curr ba then Inl NullDeref
      else let nd = ba_nodes ba ! ba_curr ba; ncap = length nd - npos in
        if length bs \<le> ncap
        then Inr (ba\<lparr>ba_nodes := (ba_nodes ba)[ba_curr ba := overwrite npos bs nd],
                     ba_curr := (if length nd = length bs + npos
                                 then Suc (ba_curr ba) else ba_curr ba),
                     ba_pos := ba_pos ba + length bs\<rparr>)
        else write_loop
               (ba\<lparr>ba_nodes := (ba_nodes ba)[ba_curr ba := overwrite npos (take ncap bs) nd],
                   ba_curr := Suc (ba_curr ba),
                   ba_pos := ba_pos ba + ncap\<rparr>)
               0 (drop ncap bs))"
  by pat_completeness auto
termination
  by (relation "measure (\<lambda>(ba, npos, bs). length (ba_nodes ba) - ba_curr ba)") auto

declare write_loop.simps [simp del]

definition ByteArray_write :: "bytearray \<Rightarrow> bytes \<Rightarrow> bytearray res" where
  "ByteArray_write ba buf =
     (if length buf = 0 then Inr ba
      else let ba1 = addCapacity ba (length buf) in
        bindE (write_loop ba1 (ba_pos ba1 mod ba_base ba1) buf)
          (\<lambda>ba2. Inr (if ba_size ba2 < ba_pos ba2 then ba2\<lparr>ba_size := ba_pos ba2\<rparr> else ba2)))"

function (sequential) read_loop :: "bytearray \<Rightarrow> nat \<Rightarrow> nat \<Rightarrow> (bytes \<times> bytearray) res" where
  "read_loop ba npos sz =
     (if sz = 0 then Inr ([], ba)
      else if length (ba_nodes ba) \<le> ba_curr ba then Inl NullDeref
      else let nd = ba_nodes ba ! ba_curr ba; ncap = length nd - npos in
        if sz \<le> ncap
        then Inr (take sz (drop npos nd),
                  ba\<lparr>ba_curr := (if length nd = npos + sz then Suc (ba_curr ba) else ba_curr ba),
                     ba_pos := ba_pos ba + sz\<rparr>)
        else bindE (read_loop (ba\<lparr>ba_curr := Suc (ba_curr ba), ba_pos := ba_pos ba + ncap\<rparr>)
                      0 (sz - ncap))
               (\<lambda>(bs, ba'). Inr (drop npos nd @ bs, ba')))"
  by pat_completeness auto
termination
  by (relation "measure (\<lambda>(ba, npos, sz). length (ba_nodes ba) - ba_curr ba)") auto

declare read_loop.simps [simp del]

definition ByteArray_read :: "bytearray \<Rightarrow> nat \<Rightarrow> (bytes \<times> bytearray) res" where
  "ByteArray_read ba sz =
     (if sz = 0 then Inr ([], ba) else read_loop ba (ba_pos ba mod ba_base ba) sz)"

text \<open>
  The private \<open>read(buf, size, position) const\<close>: \<open>None\<close> is the early return that leaves the
  buffer untouched. It walks from the block of \<open>curr_\<close>, whatever the position argument is.
\<close>

definition ByteArray_read_at :: "bytearray \<Rightarrow> nat \<Rightarrow> nat \<Rightarrow> bytes option res" where
  "ByteArray_read_at ba sz position =
     (if sz_sub (ba_size ba) position < sz then Inr None
      else if length (ba_nodes ba) \<le> ba_curr ba then Inl NullDeref
      else bindE (read_loop (ba\<lparr>ba_pos := position\<rparr>) (position mod ba_base ba) sz)
             (\<lambda>(bs, ba'). Inr (Some bs)))"

section \<open>Positioning, clearing, extracting\<close>

function (sequential) seek_loop :: "bytes list \<Rightarrow> nat \<Rightarrow> nat \<Rightarrow> nat res" where
  "seek_loop ns i v =
     (if length ns \<le> i then Inl NullDeref
      else if length (ns ! i) < v then seek_loop ns (Suc i) (v - length (ns ! i))
      else if v = length (ns ! i) then Inr (Suc i) else Inr i)"
  by pat_completeness auto
termination
  by (relation "measure (\<lambda>(ns, i, v). length ns - i)") auto

declare seek_loop.simps [simp del]

definition ByteArray_setPosition :: "bytearray \<Rightarrow> nat \<Rightarrow> bytearray res" where
  "ByteArray_setPosition ba v =
     (if ba_cap ba < v then Inl OutOfRange
      else bindE (seek_loop (ba_nodes ba) 0 v)
        (\<lambda>i. Inr (ba\<lparr>ba_pos := v, ba_size := (if ba_size ba < v then v else ba_size ba),
                     ba_curr := i\<rparr>)))"

definition ByteArray_clear :: "bytearray \<Rightarrow> bytearray" where
  "ByteArray_clear ba =
     ba\<lparr>ba_pos := 0, ba_size := 0, ba_cap := ba_base ba, ba_nodes := take 1 (ba_nodes ba),
        ba_curr := 0\<rparr>"

definition string_max_size :: nat where
  "string_max_size = 2 ^ 63 - 1"

text \<open>\<open>str.resize(n)\<close> throws above the largest string size and fills with zero bytes.\<close>

definition ByteArray_toString :: "bytearray \<Rightarrow> bytes res" where
  "ByteArray_toString ba =
     (let n = getReadableSize ba in
      if string_max_size < n then Inl LengthError
      else if n = 0 then Inr []
      else bindE (ByteArray_read_at ba n (ba_pos ba))
        (\<lambda>r. Inr (case r of None \<Rightarrow> replicate n 0 | Some bs \<Rightarrow> bs)))"

section \<open>Invariant and views\<close>

definition ba_mem :: "bytearray \<Rightarrow> bytes" where
  "ba_mem ba = concat (ba_nodes ba)"

definition behind :: "bytearray \<Rightarrow> bytes" where
  "behind ba = take (ba_pos ba) (ba_mem ba)"

definition ahead :: "bytearray \<Rightarrow> bytes" where
  "ahead ba = take (ba_size ba - ba_pos ba) (drop (ba_pos ba) (ba_mem ba))"

text \<open>The shape of the block list, which even a read past the data keeps.\<close>

definition ba_shape :: "bytearray \<Rightarrow> bool" where
  "ba_shape ba \<longleftrightarrow>
     0 < ba_base ba \<and> ba_nodes ba \<noteq> [] \<and> (\<forall>nd \<in> set (ba_nodes ba). length nd = ba_base ba) \<and>
     ba_cap ba = length (ba_nodes ba) * ba_base ba \<and> ba_curr ba = ba_pos ba div ba_base ba \<and>
     ba_pos ba \<le> ba_cap ba \<and> ba_size ba \<le> ba_cap ba \<and> ba_endian ba = RPC_LITTLE_ENDIAN"

definition ba_inv :: "bytearray \<Rightarrow> bool" where
  "ba_inv ba \<longleftrightarrow> ba_shape ba \<and> ba_pos ba \<le> ba_size ba"

text \<open>
  What a sequence of writes, and a sequence of reads inside the data, does to the two views.
\<close>

definition wrote :: "bytearray \<Rightarrow> bytes \<Rightarrow> bytearray \<Rightarrow> bool" where
  "wrote ba bs ba' \<longleftrightarrow>
     ba_inv ba' \<and> behind ba' = behind ba @ bs \<and> ahead ba' = drop (length bs) (ahead ba)"

definition consumed :: "bytearray \<Rightarrow> bytes \<Rightarrow> bytearray \<Rightarrow> bool" where
  "consumed ba bs ba' \<longleftrightarrow>
     ba_inv ba' \<and> behind ba' = behind ba @ bs \<and> ahead ba = bs @ ahead ba' \<and> ba_mem ba' = ba_mem ba"

section \<open>The invariant is established and kept\<close>

lemmas ba_inv_defs = ba_inv_def ba_shape_def
lemmas ba_views = behind_def ahead_def ba_mem_def

lemma length_new_Node [simp]: "length (new_Node fill j s) = s"
  by (simp add: new_Node_def)

lemma ba_inv_new_ByteArray: "0 < s \<Longrightarrow> ba_inv (new_ByteArray fill s)"
  by (simp add: ba_inv_defs new_ByteArray_def)

lemma views_new_ByteArray [simp]:
  "behind (new_ByteArray fill s) = []" "ahead (new_ByteArray fill s) = []"
  by (simp_all add: ba_views new_ByteArray_def)

lemma ba_pos_new_ByteArray [simp]: "ba_pos (new_ByteArray fill s) = 0"
  by (simp add: new_ByteArray_def)

lemma ba_inv_shape: "ba_inv ba \<Longrightarrow> ba_shape ba"
  by (simp add: ba_inv_def)

lemma length_ba_mem: "ba_shape ba \<Longrightarrow> length (ba_mem ba) = ba_cap ba"
  by (simp add: ba_shape_def ba_mem_def length_concat_blocks)

lemma length_behind [simp]: "ba_inv ba \<Longrightarrow> length (behind ba) = ba_pos ba"
  by (simp add: behind_def length_ba_mem ba_inv_shape) (simp add: ba_inv_defs)

lemma length_ahead [simp]: "ba_inv ba \<Longrightarrow> length (ahead ba) = ba_size ba - ba_pos ba"
  by (auto simp: ahead_def length_ba_mem ba_inv_shape min_def) (auto simp: ba_inv_def ba_shape_def)

lemma getReadableSize_ahead: "ba_inv ba \<Longrightarrow> getReadableSize ba = length (ahead ba)"
  by (simp add: getReadableSize_def ba_inv_def)

lemma add_nodes_fields [simp]:
  "ba_curr (add_nodes n ba) = ba_curr ba" "ba_base (add_nodes n ba) = ba_base ba"
  "ba_pos (add_nodes n ba) = ba_pos ba" "ba_size (add_nodes n ba) = ba_size ba"
  "ba_endian (add_nodes n ba) = ba_endian ba" "ba_fill (add_nodes n ba) = ba_fill ba"
  "ba_cap (add_nodes n ba) = ba_cap ba + n * ba_base ba"
  by (induction n arbitrary: ba) auto

lemma add_nodes_nodes:
  "\<exists>new. ba_nodes (add_nodes n ba) = ba_nodes ba @ new \<and> length new = n \<and>
     (\<forall>nd \<in> set new. length nd = ba_base ba)"
proof (induction n arbitrary: ba)
  case 0
  then show ?case by simp
next
  case (Suc n)
  obtain new where
    "ba_nodes (add_nodes (Suc n) ba)
       = (ba_nodes ba @ [new_Node (ba_fill ba) (length (ba_nodes ba)) (ba_base ba)]) @ new"
    "length new = n" "\<forall>nd \<in> set new. length nd = ba_base ba"
    using Suc.IH [of "ba\<lparr>ba_nodes := ba_nodes ba @
        [new_Node (ba_fill ba) (length (ba_nodes ba)) (ba_base ba)],
        ba_cap := ba_cap ba + ba_base ba\<rparr>"] by auto
  then show ?case
    by (intro exI [of _ "new_Node (ba_fill ba) (length (ba_nodes ba)) (ba_base ba) # new"]) auto
qed

lemma ceil_div_bounds:
  assumes "0 < (b::nat)" "0 < n"
  shows "n \<le> (n + b - 1) div b * b" "0 < (n + b - 1) div b"
proof -
  have "n + b - 1 = (n + b - 1) div b * b + (n + b - 1) mod b"
    by simp
  moreover have "(n + b - 1) mod b \<le> b - 1"
    using assms(1) by (simp add: less_Suc_eq_le [symmetric])
  ultimately show "n \<le> (n + b - 1) div b * b"
    using assms by linarith
  show "0 < (n + b - 1) div b"
    using assms by (simp add: div_greater_zero_iff)
qed

lemma addCapacity_fields [simp]:
  "ba_base (addCapacity ba n) = ba_base ba" "ba_pos (addCapacity ba n) = ba_pos ba"
  "ba_size (addCapacity ba n) = ba_size ba" "ba_endian (addCapacity ba n) = ba_endian ba"
  "ba_fill (addCapacity ba n) = ba_fill ba"
  by (simp_all add: addCapacity_def Let_def)

text \<open>\<open>addCapacity(n)\<close> leaves room for \<open>n\<close> bytes behind the position and moves no data.\<close>

lemma addCapacity_spec:
  assumes "ba_shape ba"
  shows "ba_shape (addCapacity ba n)" "ba_pos ba + n \<le> ba_cap (addCapacity ba n)"
    "\<exists>junk. ba_mem (addCapacity ba n) = ba_mem ba @ junk"
proof -
  define old where "old = ba_cap ba - ba_pos ba"
  define count where "count = (n - old + ba_base ba - 1) div ba_base ba"
  have old: "getCapacity ba = old"
    using assms by (simp add: getCapacity_def ba_shape_def old_def)
  have "ba_shape (addCapacity ba n) \<and> ba_pos ba + n \<le> ba_cap (addCapacity ba n) \<and>
    (\<exists>junk. ba_mem (addCapacity ba n) = ba_mem ba @ junk)"
  proof (cases "n \<le> old")
    case True
    then show ?thesis
      using assms old by (auto simp: addCapacity_def ba_shape_def old_def)
  next
    case False
    obtain new where new: "ba_nodes (add_nodes count ba) = ba_nodes ba @ new"
      "length new = count" "\<forall>nd \<in> set new. length nd = ba_base ba"
      using add_nodes_nodes [of count ba] by auto
    have grow: "n - old \<le> count * ba_base ba"
      using assms False ceil_div_bounds(1) [of "ba_base ba" "n - old"]
      by (simp add: ba_shape_def count_def)
    have eq: "addCapacity ba n = (if old = 0
        then (add_nodes count ba)\<lparr>ba_curr := length (ba_nodes ba)\<rparr> else add_nodes count ba)"
      using False old by (simp add: addCapacity_def Let_def count_def)
    have curr: "ba_curr (addCapacity ba n) = ba_pos ba div ba_base ba"
    proof (cases "old = 0")
      case True
      then have "ba_pos ba = length (ba_nodes ba) * ba_base ba"
        using assms by (simp add: ba_shape_def old_def)
      then have "ba_pos ba div ba_base ba = length (ba_nodes ba)"
        using assms by (metis ba_shape_def div_mult_self_is_m)
      then show ?thesis using True by (simp only: eq) simp
    next
      case False
      then show ?thesis using assms by (simp only: eq) (simp add: ba_shape_def)
    qed
    have nodes: "ba_nodes (addCapacity ba n) = ba_nodes ba @ new"
      "ba_cap (addCapacity ba n) = ba_cap ba + count * ba_base ba"
      using new(1) by (simp_all add: eq)
    have "ba_shape (addCapacity ba n)"
      unfolding ba_shape_def [of "addCapacity ba n"] nodes curr
      using assms new(2,3) by (auto simp: ba_shape_def algebra_simps)
    moreover have "ba_pos ba + n \<le> ba_cap (addCapacity ba n)"
      using grow assms False nodes by (auto simp: ba_shape_def old_def)
    moreover have "ba_mem (addCapacity ba n) = ba_mem ba @ concat new"
      using nodes by (simp add: ba_mem_def)
    ultimately show ?thesis by blast
  qed
  then show "ba_shape (addCapacity ba n)" "ba_pos ba + n \<le> ba_cap (addCapacity ba n)"
    "\<exists>junk. ba_mem (addCapacity ba n) = ba_mem ba @ junk" by blast+
qed

section \<open>The loops are flat operations on the memory\<close>

lemma block_index_end:
  assumes "0 < (b::nat)" "k + n \<le> b"
  shows "(i * b + k + n) div b = (if b = n + k then Suc i else i)"
proof (cases "b = n + k")
  case True
  then have "i * b + k + n = Suc i * b" by simp
  then have "(i * b + k + n) div b = Suc i"
    using assms(1) by (metis div_mult_self_is_m)
  then show ?thesis using True by simp
next
  case False
  then have "k + n < b" using assms(2) by linarith
  then have "(i * b + (k + n)) div b = i" by simp
  then show ?thesis using False by (simp add: add.assoc)
qed

lemma block_index_less:
  assumes "i * b + k + n \<le> m * b" "0 < n"
  shows "i < (m::nat)"
proof (rule ccontr)
  assume "\<not> ?thesis"
  then have "m * b \<le> i * b" by (intro mult_le_mono1) simp
  then show False using assms by linarith
qed

lemma blocks_store:
  assumes "\<forall>nd \<in> set ns. length nd = b" "i < length ns" "k + length xs \<le> b"
  shows "\<forall>nd \<in> set (ns[i := overwrite k xs (ns ! i)]). length nd = b"
    "concat (ns[i := overwrite k xs (ns ! i)]) = overwrite (i * b + k) xs (concat ns)"
  using assms concat_update_block [OF assms]
  by (auto dest!: set_update_subset_insert [THEN subsetD] simp: nth_mem)

text \<open>
  The write loop overwrites the flat memory from the position on and ends in the block of the new
  position, whatever blocks the data spans.
\<close>

lemma write_loop_spec:
  assumes "0 < b" "\<forall>nd \<in> set (ba_nodes ba). length nd = b" "npos < b"
    "ba_pos ba = ba_curr ba * b + npos" "ba_pos ba + length bs \<le> length (ba_nodes ba) * b"
  shows "\<exists>ns. write_loop ba npos bs =
      Inr (ba\<lparr>ba_nodes := ns, ba_curr := (ba_pos ba + length bs) div b,
              ba_pos := ba_pos ba + length bs\<rparr>) \<and>
    concat ns = overwrite (ba_pos ba) bs (ba_mem ba) \<and>
    length ns = length (ba_nodes ba) \<and> (\<forall>nd \<in> set ns. length nd = b)"
  using assms
proof (induction ba npos bs rule: write_loop.induct)
  case (1 ba npos bs)
  note b = 1(2) and nodes = 1(3) and npos = 1(4) and pos = 1(5) and room = 1(6)
  let ?nd = "ba_nodes ba ! ba_curr ba" and ?ncap = "b - npos"
  have less: "0 < length bs \<Longrightarrow> ba_curr ba < length (ba_nodes ba)"
    using room unfolding pos by (rule block_index_less)
  consider "bs = []" | "bs \<noteq> []" "length bs \<le> ?ncap" | "bs \<noteq> []" "?ncap < length bs"
    by linarith
  then show ?case
  proof cases
    case 1
    then show ?thesis
      using nodes npos by (intro exI [of _ "ba_nodes ba"])
        (simp add: write_loop.simps [of ba] ba_mem_def pos)
  next
    case 2
    have cur: "ba_curr ba < length (ba_nodes ba)" using less 2(1) by simp
    have nd: "length ?nd = b" using nodes cur by simp
    have "(ba_pos ba + length bs) div b
        = (if b = length bs + npos then Suc (ba_curr ba) else ba_curr ba)"
      using block_index_end [of b npos "length bs"] b 2 npos by (simp add: pos)
    then have "write_loop ba npos bs =
        Inr (ba\<lparr>ba_nodes := (ba_nodes ba)[ba_curr ba := overwrite npos bs ?nd],
                ba_curr := (ba_pos ba + length bs) div b, ba_pos := ba_pos ba + length bs\<rparr>)"
      using 2 cur nd by (simp add: write_loop.simps [of ba npos bs] Let_def)
    moreover have "npos + length bs \<le> b" using 2(2) npos by linarith
    ultimately show ?thesis
      using blocks_store [OF nodes cur, of npos bs]
      by (intro exI [of _ "(ba_nodes ba)[ba_curr ba := overwrite npos bs ?nd]"])
        (simp add: ba_mem_def pos)
  next
    case 3
    let ?w = "take ?ncap bs" and ?r = "drop ?ncap bs"
    let ?ba = "ba\<lparr>ba_nodes := (ba_nodes ba)[ba_curr ba := overwrite npos ?w ?nd],
                 ba_curr := Suc (ba_curr ba), ba_pos := ba_pos ba + ?ncap\<rparr>"
    have cur: "ba_curr ba < length (ba_nodes ba)" using less 3(1) by simp
    have nd: "length ?nd = b" using nodes cur by simp
    have w: "length ?w = ?ncap" "npos + length ?w \<le> b" using 3 npos by auto
    note store = blocks_store [OF nodes cur w(2)]
    have step: "write_loop ba npos bs = write_loop ?ba 0 ?r"
      using 3 cur nd by (simp add: write_loop.simps [of ba npos bs] Let_def)
    have "\<exists>ns. write_loop ?ba 0 ?r =
        Inr (?ba\<lparr>ba_nodes := ns, ba_curr := (ba_pos ?ba + length ?r) div b,
                 ba_pos := ba_pos ?ba + length ?r\<rparr>) \<and>
      concat ns = overwrite (ba_pos ?ba) ?r (ba_mem ?ba) \<and>
      length ns = length (ba_nodes ?ba) \<and> (\<forall>nd \<in> set ns. length nd = b)"
      by (rule "1.IH" [of ?nd ?ncap]) (use 3 cur nd b store(1) room npos pos in simp_all)
    then obtain ns where ns: "write_loop ?ba 0 ?r =
        Inr (?ba\<lparr>ba_nodes := ns, ba_curr := (ba_pos ?ba + length ?r) div b,
                 ba_pos := ba_pos ?ba + length ?r\<rparr>)"
      "concat ns = overwrite (ba_pos ?ba) ?r (ba_mem ?ba)"
      "length ns = length (ba_nodes ?ba)" "\<forall>nd \<in> set ns. length nd = b"
      by blast
    have "ba_mem ?ba = overwrite (ba_pos ba) ?w (ba_mem ba)"
      using store(2) pos by (simp add: ba_mem_def)
    moreover have "ba_pos ba + length ?w + length ?r \<le> length (ba_mem ba)"
      using room 3 length_concat_blocks [OF nodes] by (simp add: ba_mem_def)
    ultimately have "concat ns = overwrite (ba_pos ba) bs (ba_mem ba)"
      using ns(2) overwrite_overwrite [of "ba_pos ba" ?w ?r] w(1) by simp
    then show ?thesis
      using ns 3 by (auto simp: step)
  qed
qed

lemma read_loop_spec:
  assumes "0 < b" "\<forall>nd \<in> set (ba_nodes ba). length nd = b" "npos < b"
    "ba_pos ba = ba_curr ba * b + npos" "ba_pos ba + n \<le> length (ba_nodes ba) * b"
  shows "read_loop ba npos n =
    Inr (take n (drop (ba_pos ba) (ba_mem ba)),
         ba\<lparr>ba_curr := (ba_pos ba + n) div b, ba_pos := ba_pos ba + n\<rparr>)"
  using assms
proof (induction ba npos n rule: read_loop.induct)
  case (1 ba npos n)
  note b = 1(2) and nodes = 1(3) and npos = 1(4) and pos = 1(5) and room = 1(6)
  let ?nd = "ba_nodes ba ! ba_curr ba" and ?ncap = "b - npos"
  let ?ba = "ba\<lparr>ba_curr := Suc (ba_curr ba), ba_pos := ba_pos ba + ?ncap\<rparr>"
  show ?case
  proof (cases "n = 0")
    case True
    then show ?thesis using npos by (simp add: read_loop.simps [of ba] pos)
  next
    case False
    have cur: "ba_curr ba < length (ba_nodes ba)"
      using block_index_less [of "ba_curr ba" b npos n] room False by (simp add: pos)
    have nd: "length ?nd = b" using nodes cur by simp
    have rest: "drop (ba_pos ba) (ba_mem ba) = drop npos ?nd @ concat (drop (Suc (ba_curr ba)) (ba_nodes ba))"
      unfolding pos ba_mem_def using nodes cur npos by (intro drop_concat_nth) auto
    show ?thesis
    proof (cases "n \<le> ?ncap")
      case True
      have "(ba_pos ba + n) div b = (if b = n + npos then Suc (ba_curr ba) else ba_curr ba)"
        using block_index_end [of b npos n] b True npos by (simp add: pos)
      then show ?thesis
        using False True cur nd rest by (simp add: read_loop.simps [of ba npos n] Let_def add.commute)
    next
      case more: False
      have "ba_pos ?ba = ba_curr ?ba * b + 0" using npos by (simp add: pos)
      then have IH: "read_loop ?ba 0 (n - ?ncap) = Inr (take (n - ?ncap) (drop (ba_pos ?ba) (ba_mem ?ba)),
          ?ba\<lparr>ba_curr := (ba_pos ?ba + (n - ?ncap)) div b, ba_pos := ba_pos ?ba + (n - ?ncap)\<rparr>)"
        by (intro "1.IH" [of ?nd ?ncap]) (use False cur nd more b nodes npos room in simp_all)
      have "drop (ba_pos ?ba) (ba_mem ?ba) = drop ?ncap (drop (ba_pos ba) (ba_mem ba))"
        by (simp add: ba_mem_def add.commute)
      also have "\<dots> = concat (drop (Suc (ba_curr ba)) (ba_nodes ba))"
        using rest nd by simp
      finally show ?thesis
        using IH False cur nd more rest by (simp add: read_loop.simps [of ba npos n] Let_def)
    qed
  qed
qed

section \<open>The operations on the two views\<close>

lemma wrote_refl: "ba_inv ba \<Longrightarrow> wrote ba [] ba"
  by (simp add: wrote_def)

lemma wrote_trans: "wrote ba xs ba' \<Longrightarrow> wrote ba' ys ba'' \<Longrightarrow> wrote ba (xs @ ys) ba''"
  by (simp add: wrote_def add.commute)

lemma consumed_refl: "ba_inv ba \<Longrightarrow> consumed ba [] ba"
  by (simp add: consumed_def)

lemma consumed_trans:
  "consumed ba xs ba' \<Longrightarrow> consumed ba' ys ba'' \<Longrightarrow> consumed ba (xs @ ys) ba''"
  by (simp add: consumed_def)

lemma wrote_inv: "wrote ba bs ba' \<Longrightarrow> ba_inv ba'"
  and consumed_inv: "consumed ba bs ba' \<Longrightarrow> ba_inv ba'"
  by (simp_all add: wrote_def consumed_def)

lemma consumed_ahead: "consumed ba bs ba' \<Longrightarrow> ahead ba = bs @ rest \<Longrightarrow> ahead ba' = rest"
  by (simp add: consumed_def)

text \<open>Storing at the position and moving it behind the stored bytes.\<close>

lemma wrote_overwrite:
  assumes "ba_inv ba" "ba_inv ba'" "ba_mem ba' = overwrite (ba_pos ba) bs (ba_mem ba @ junk)"
    "ba_pos ba' = ba_pos ba + length bs" "ba_size ba' = max (ba_size ba) (ba_pos ba + length bs)"
  shows "wrote ba bs ba'"
proof -
  have size: "ba_pos ba \<le> ba_size ba" and cap: "length (ba_mem ba) = ba_cap ba" "ba_size ba \<le> ba_cap ba"
    using assms(1) length_ba_mem by (auto simp: ba_inv_def ba_shape_def)
  have "behind ba' = behind ba @ bs"
    using size cap take_overwrite [of "ba_pos ba" "ba_mem ba @ junk" bs]
    by (simp add: behind_def assms(3-5))
  moreover have "ahead ba' = drop (length bs) (ahead ba)"
    using size cap drop_overwrite [of "ba_pos ba" "ba_mem ba @ junk" bs]
    by (auto simp: ahead_def assms(3-5) drop_take add.commute max_def)
  ultimately show ?thesis using assms(2) by (simp add: wrote_def)
qed

lemma ByteArray_write_mem:
  assumes "ba_inv ba"
  shows "\<exists>ba' junk. ByteArray_write ba bs = Inr ba' \<and> wrote ba bs ba' \<and>
    ba_mem ba' = overwrite (ba_pos ba) bs (ba_mem ba @ junk)"
proof (cases "bs = []")
  case True
  then show ?thesis using assms by (simp add: ByteArray_write_def wrote_refl exI [of _ "[]"])
next
  case False
  define ba1 where "ba1 = addCapacity ba (length bs)"
  define b where "b = ba_base ba"
  have sh: "ba_shape ba" and size: "ba_pos ba \<le> ba_size ba"
    using assms by (auto simp: ba_inv_def)
  note sh1 = addCapacity_spec(1) [OF sh, of "length bs", folded ba1_def]
  obtain junk where mem1: "ba_mem ba1 = ba_mem ba @ junk"
    using addCapacity_spec(3) [OF sh, of "length bs"] by (auto simp: ba1_def)
  have f1: "ba_base ba1 = b" "ba_pos ba1 = ba_pos ba" "ba_size ba1 = ba_size ba"
    "ba_endian ba1 = ba_endian ba" "ba_pos ba + length bs \<le> ba_cap ba1"
    using addCapacity_spec(2) [OF sh, of "length bs"] by (simp_all add: ba1_def b_def)
  have b0: "0 < b" using sh by (simp add: b_def ba_shape_def)
  obtain ns where loop: "write_loop ba1 (ba_pos ba1 mod b) bs =
      Inr (ba1\<lparr>ba_nodes := ns, ba_curr := (ba_pos ba + length bs) div b,
               ba_pos := ba_pos ba + length bs\<rparr>)"
    and ns: "concat ns = overwrite (ba_pos ba) bs (ba_mem ba @ junk)"
      "length ns = length (ba_nodes ba1)" "\<forall>nd \<in> set ns. length nd = b"
    using write_loop_spec [of b ba1 "ba_pos ba1 mod b" bs] b0 sh1 f1 mem1
    by (auto simp: ba_shape_def)
  define ba' where "ba' = ba1\<lparr>ba_nodes := ns, ba_curr := (ba_pos ba + length bs) div b,
    ba_pos := ba_pos ba + length bs, ba_size := max (ba_size ba) (ba_pos ba + length bs)\<rparr>"
  have eq: "ByteArray_write ba bs = Inr ba'"
    using False loop f1 by (auto simp: ByteArray_write_def Let_def ba1_def [symmetric] ba'_def max_def)
  have inv: "ba_inv ba'"
    using sh1 f1 ns sh by (auto simp: ba_inv_def ba_shape_def ba'_def b_def)
  have mem: "ba_mem ba' = overwrite (ba_pos ba) bs (ba_mem ba @ junk)"
    by (simp add: ba'_def ba_mem_def [of ba'] ns(1) [symmetric]) (simp add: ba_mem_def)
  then have "wrote ba bs ba'"
    using assms inv by (intro wrote_overwrite) (simp_all add: ba'_def)
  then show ?thesis using eq mem by blast
qed

lemma ByteArray_write_wrote:
  "ba_inv ba \<Longrightarrow> \<exists>ba'. ByteArray_write ba bs = Inr ba' \<and> wrote ba bs ba'"
  using ByteArray_write_mem by blast

lemma ByteArray_read_consumed:
  assumes "ba_inv ba" "n \<le> length (ahead ba)"
  shows "\<exists>ba'. ByteArray_read ba n = Inr (take n (ahead ba), ba') \<and>
    consumed ba (take n (ahead ba)) ba'"
proof -
  let ?ba = "ba\<lparr>ba_curr := (ba_pos ba + n) div ba_base ba, ba_pos := ba_pos ba + n\<rparr>"
  have sh: "ba_shape ba" and n: "ba_pos ba + n \<le> ba_size ba"
    using assms by (auto simp: ba_inv_def)
  have "ByteArray_read ba n = Inr (take n (drop (ba_pos ba) (ba_mem ba)), ?ba)"
  proof (cases "n = 0")
    case True
    then show ?thesis using sh by (simp add: ByteArray_read_def ba_shape_def)
  next
    case False
    then show ?thesis
      using sh n read_loop_spec [of "ba_base ba" ba "ba_pos ba mod ba_base ba" n]
      by (auto simp: ByteArray_read_def ba_shape_def)
  qed
  moreover have "take n (drop (ba_pos ba) (ba_mem ba)) = take n (ahead ba)"
    using n by (simp add: ahead_def min_def)
  moreover have "ba_inv ?ba"
    using sh n by (simp add: ba_inv_def ba_shape_def)
  moreover have "behind ?ba = behind ba @ take n (ahead ba)"
    using n by (simp add: behind_def ahead_def ba_mem_def take_add min_def)
  moreover have "ahead ?ba = drop n (ahead ba)"
    by (simp add: ahead_def ba_mem_def drop_take add.commute)
  moreover have "ba_mem ?ba = ba_mem ba" by (simp add: ba_mem_def)
  ultimately show ?thesis
    by (auto simp: consumed_def)
qed

lemma seek_loop_spec:
  assumes "0 < b" "\<forall>nd \<in> set ns. length nd = b" "i < length ns" "v \<le> (length ns - i) * b"
  shows "seek_loop ns i v = Inr (i + v div b)"
  using assms
proof (induction ns i v rule: seek_loop.induct)
  case (1 ns i v)
  have nd: "length (ns ! i) = b" using 1 by simp
  show ?case
  proof (cases "b < v")
    case True
    have "1 < length ns - i"
    proof (rule ccontr)
      assume "\<not> 1 < length ns - i"
      then have "(length ns - i) * b \<le> 1 * b" by (intro mult_le_mono1) simp
      then show False using 1(5) True by linarith
    qed
    moreover have "length ns - i = Suc (length ns - Suc i)" using 1(4) by simp
    then have "v \<le> b + (length ns - Suc i) * b" using 1(5) by (metis mult_Suc)
    ultimately have le: "Suc i < length ns" "v - b \<le> (length ns - Suc i) * b" by auto
    have "v div b = Suc ((v - b) div b)"
      using True 1(2) by (simp add: le_div_geq)
    then show ?thesis
      using "1.IH" le 1 True nd by (simp add: seek_loop.simps [of ns i v])
  next
    case False
    then have "v div b = (if v = b then 1 else 0)" using 1(2) by simp
    then show ?thesis using False 1(4) nd by (simp add: seek_loop.simps [of ns i v])
  qed
qed

definition ba_content :: "bytearray \<Rightarrow> bytes" where
  "ba_content ba = behind ba @ ahead ba"

lemma ba_content_take: "ba_inv ba \<Longrightarrow> ba_content ba = take (ba_size ba) (ba_mem ba)"
  by (simp add: ba_content_def behind_def ahead_def ba_inv_def flip: take_add)

lemma length_ba_content [simp]: "ba_inv ba \<Longrightarrow> length (ba_content ba) = ba_size ba"
  by (simp add: ba_content_def) (simp add: ba_inv_def)

lemma ByteArray_setPosition_eq:
  assumes "ba_shape ba" "v \<le> ba_cap ba"
  shows "ByteArray_setPosition ba v =
    Inr (ba\<lparr>ba_pos := v, ba_size := max (ba_size ba) v, ba_curr := v div ba_base ba\<rparr>)"
proof -
  have "seek_loop (ba_nodes ba) 0 v = Inr (0 + v div ba_base ba)"
    using assms by (intro seek_loop_spec) (auto simp: ba_shape_def)
  then show ?thesis
    using assms(2) by (simp add: ByteArray_setPosition_def max_def)
qed

text \<open>Seeking inside the data re-splits the content at the new position.\<close>

lemma ByteArray_setPosition_view:
  assumes "ba_inv ba" "v \<le> length (ba_content ba)"
  shows "\<exists>ba'. ByteArray_setPosition ba v = Inr ba' \<and> ba_inv ba' \<and>
    behind ba' = take v (ba_content ba) \<and> ahead ba' = drop v (ba_content ba)"
proof -
  let ?ba = "ba\<lparr>ba_pos := v, ba_size := max (ba_size ba) v, ba_curr := v div ba_base ba\<rparr>"
  have v: "v \<le> ba_size ba" "ba_size ba \<le> ba_cap ba"
    using assms by (auto simp: ba_inv_def ba_shape_def)
  then have "ByteArray_setPosition ba v = Inr ?ba"
    using assms by (intro ByteArray_setPosition_eq) (auto simp: ba_inv_def)
  moreover have "ba_inv ?ba"
    using assms(1) v by (auto simp: ba_inv_def ba_shape_def max_def)
  moreover have "behind ?ba = take v (ba_content ba)" "ahead ?ba = drop v (ba_content ba)"
    using assms(1) v
    by (simp_all add: ba_content_take behind_def ahead_def ba_mem_def max_def drop_take)
  ultimately show ?thesis by auto
qed

lemma ByteArray_toString_ahead:
  assumes "ba_inv ba" "length (ahead ba) \<le> string_max_size"
  shows "ByteArray_toString ba = Inr (ahead ba)"
proof (cases "ahead ba = []")
  case True
  then show ?thesis
    using assms by (simp add: ByteArray_toString_def getReadableSize_ahead)
next
  case False
  let ?n = "length (ahead ba)"
  have sh: "ba_shape ba" and n: "ba_pos ba + ?n = ba_size ba"
    using assms by (auto simp: ba_inv_def)
  have size: "ba_size ba \<le> length (ba_nodes ba) * ba_base ba" "0 < ?n"
    using sh False by (auto simp: ba_shape_def simp del: length_ahead)
  have pos: "ba_pos ba = ba_curr ba * ba_base ba + ba_pos ba mod ba_base ba"
    using sh by (simp add: ba_shape_def)
  have cur: "ba_curr ba < length (ba_nodes ba)"
    using size n pos block_index_less [of "ba_curr ba" "ba_base ba" "ba_pos ba mod ba_base ba" ?n
        "length (ba_nodes ba)"] by linarith
  have "read_loop (ba\<lparr>ba_pos := ba_pos ba\<rparr>) (ba_pos ba mod ba_base ba) ?n =
      Inr (take ?n (drop (ba_pos ba) (ba_mem ba)),
           ba\<lparr>ba_curr := (ba_pos ba + ?n) div ba_base ba, ba_pos := ba_pos ba + ?n\<rparr>)"
    using read_loop_spec [of "ba_base ba" ba "ba_pos ba mod ba_base ba" ?n] sh pos size n
    by (simp add: ba_shape_def)
  then show ?thesis
    using assms cur size n
    by (simp add: ByteArray_toString_def Let_def ByteArray_read_at_def getReadableSize_ahead
        ahead_def min_def del: length_ahead)
qed

lemma ByteArray_clear_view:
  assumes "ba_inv ba"
  shows "ba_inv (ByteArray_clear ba)" "behind (ByteArray_clear ba) = []"
    "ahead (ByteArray_clear ba) = []"
  using assms
  by (cases "ba_nodes ba"; simp add: ba_inv_def ba_shape_def ByteArray_clear_def ba_views)+

text \<open>A small buffer of three blocks in mid-use.\<close>

definition sample_buffer :: bytearray where
  "sample_buffer = \<lparr>ba_nodes = [[1, 2], [3, 4], [5, 6]], ba_curr = 0, ba_base = 2, ba_pos = 1,
     ba_cap = 6, ba_size = 5, ba_endian = RPC_LITTLE_ENDIAN, ba_fill = (\<lambda>_ _. 7)\<rparr>"

lemma sample_buffer_view [simp]:
  "ba_inv sample_buffer" "behind sample_buffer = [1]" "ahead sample_buffer = [2, 3, 4, 5]"
  by (simp_all add: sample_buffer_def ba_inv_defs ba_views)

end
