(* ===== verification/Byte_Cursor.thy ===== *)
theory Byte_Cursor
  imports Byte_Array
begin

text \<open>
  The contract of the byte buffer and its refinement. A \<open>byte_cursor\<close> is a store with a cursor:
  the bytes behind it and the bytes ahead of it. Its laws say what writing, reading inside the
  data and seeking inside the data do to the two; everything a client needs follows from them,
  for any sequence of operations. \<open>ByteArray\<close> is shown to be one, so the block list, its growth
  and the position of \<open>curr_\<close> never show. What the contract leaves out (reads past the data, which
  the code does not check) is stated separately.
\<close>

section \<open>The abstract cursor and runs of operations\<close>

datatype cursor_op = Put bytes | Get nat | Seek nat

text \<open>The specification: \<open>None\<close> where an operation leaves the data.\<close>

fun spec_run :: "cursor_op list \<Rightarrow> bytes \<Rightarrow> bytes \<Rightarrow> (bytes list \<times> bytes \<times> bytes) option" where
  "spec_run [] d t = Some ([], d, t)"
| "spec_run (Put bs # ops) d t = spec_run ops (d @ bs) (drop (length bs) t)"
| "spec_run (Get n # ops) d t =
     (if n \<le> length t
      then map_option (\<lambda>(outs, r). (take n t # outs, r)) (spec_run ops (d @ take n t) (drop n t))
      else None)"
| "spec_run (Seek v # ops) d t =
     (if v \<le> length (d @ t) then spec_run ops (take v (d @ t)) (drop v (d @ t)) else None)"

text \<open>The same operations on a store.\<close>

fun store_run :: "('s \<Rightarrow> bytes \<Rightarrow> 's res) \<Rightarrow> ('s \<Rightarrow> nat \<Rightarrow> (bytes \<times> 's) res) \<Rightarrow>
    ('s \<Rightarrow> nat \<Rightarrow> 's res) \<Rightarrow> cursor_op list \<Rightarrow> 's \<Rightarrow> (bytes list \<times> 's) res" where
  "store_run wr rd seek [] s = Inr ([], s)"
| "store_run wr rd seek (Put bs # ops) s = bindE (wr s bs) (store_run wr rd seek ops)"
| "store_run wr rd seek (Get n # ops) s =
     bindE (rd s n) (\<lambda>(bs, s'). bindE (store_run wr rd seek ops s')
       (\<lambda>(outs, s''). Inr (bs # outs, s'')))"
| "store_run wr rd seek (Seek v # ops) s = bindE (seek s v) (store_run wr rd seek ops)"

section \<open>The contract\<close>

locale byte_cursor =
  fixes inv :: "'s \<Rightarrow> bool"
    and dn :: "'s \<Rightarrow> bytes"
    and todo :: "'s \<Rightarrow> bytes"
    and wr :: "'s \<Rightarrow> bytes \<Rightarrow> 's res"
    and rd :: "'s \<Rightarrow> nat \<Rightarrow> (bytes \<times> 's) res"
    and seek :: "'s \<Rightarrow> nat \<Rightarrow> 's res"
  assumes wr_law: "inv s \<Longrightarrow>
      \<exists>s'. wr s bs = Inr s' \<and> inv s' \<and> dn s' = dn s @ bs \<and> todo s' = drop (length bs) (todo s)"
    and rd_law: "inv s \<Longrightarrow> n \<le> length (todo s) \<Longrightarrow>
      \<exists>s'. rd s n = Inr (take n (todo s), s') \<and> inv s' \<and> dn s' = dn s @ take n (todo s) \<and>
        todo s' = drop n (todo s)"
    and seek_law: "inv s \<Longrightarrow> v \<le> length (dn s @ todo s) \<Longrightarrow>
      \<exists>s'. seek s v = Inr s' \<and> inv s' \<and> dn s' = take v (dn s @ todo s) \<and>
        todo s' = drop v (dn s @ todo s)"
begin

text \<open>Any run the specification allows gives its outputs and ends in its views.\<close>

lemma run_refines:
  assumes "inv s" "spec_run ops (dn s) (todo s) = Some (outs, d, t)"
  shows "\<exists>s'. store_run wr rd seek ops s = Inr (outs, s') \<and> inv s' \<and> dn s' = d \<and> todo s' = t"
  using assms
proof (induction ops arbitrary: s outs)
  case Nil
  then show ?case by simp
next
  case (Cons op ops)
  show ?case
  proof (cases op)
    case (Put bs)
    obtain s' where "wr s bs = Inr s'" "inv s'" "dn s' = dn s @ bs" "todo s' = drop (length bs) (todo s)"
      using wr_law [OF Cons.prems(1)] by blast
    then show ?thesis using Cons.prems(2) Cons.IH [of s' outs] by (simp add: Put)
  next
    case (Get n)
    then have n: "n \<le> length (todo s)"
      and r: "map_option (\<lambda>(outs, r). (take n (todo s) # outs, r))
        (spec_run ops (dn s @ take n (todo s)) (drop n (todo s))) = Some (outs, d, t)"
      using Cons.prems(2) by (auto split: if_splits)
    obtain s' where s': "rd s n = Inr (take n (todo s), s')" "inv s'"
      "dn s' = dn s @ take n (todo s)" "todo s' = drop n (todo s)"
      using rd_law [OF Cons.prems(1) n] by blast
    obtain outs' where "spec_run ops (dn s') (todo s') = Some (outs', d, t)"
      "outs = take n (todo s) # outs'"
      using r s' by auto
    then show ?thesis using Cons.IH [OF s'(2)] s'(1) by (auto simp: Get)
  next
    case (Seek v)
    then have v: "v \<le> length (dn s @ todo s)"
      using Cons.prems(2) by (auto split: if_splits)
    obtain s' where "seek s v = Inr s'" "inv s'" "dn s' = take v (dn s @ todo s)"
      "todo s' = drop v (dn s @ todo s)"
      using seek_law [OF Cons.prems(1) v] by blast
    then show ?thesis using Cons.prems(2) v Cons.IH [of s' outs] by (simp add: Seek)
  qed
qed

end

section \<open>ByteArray keeps the contract\<close>

interpretation ba: byte_cursor ba_inv behind ahead ByteArray_write ByteArray_read
    ByteArray_setPosition
proof
  fix ba bs
  assume "ba_inv ba"
  then show "\<exists>ba'. ByteArray_write ba bs = Inr ba' \<and> ba_inv ba' \<and> behind ba' = behind ba @ bs \<and>
      ahead ba' = drop (length bs) (ahead ba)"
    using ByteArray_write_wrote [of ba bs] by (auto simp: wrote_def)
next
  fix ba n
  assume inv: "ba_inv ba" and n: "n \<le> length (ahead ba)"
  obtain ba' where ba': "ByteArray_read ba n = Inr (take n (ahead ba), ba')"
    "consumed ba (take n (ahead ba)) ba'"
    using ByteArray_read_consumed [OF inv n] by blast
  moreover have "ahead ba' = drop n (ahead ba)"
    using consumed_ahead [OF ba'(2), of "drop n (ahead ba)"] by simp
  ultimately show "\<exists>ba'. ByteArray_read ba n = Inr (take n (ahead ba), ba') \<and> ba_inv ba' \<and>
      behind ba' = behind ba @ take n (ahead ba) \<and> ahead ba' = drop n (ahead ba)"
    by (auto simp: consumed_def)
next
  fix ba v
  assume "ba_inv ba" "v \<le> length (behind ba @ ahead ba)"
  then show "\<exists>ba'. ByteArray_setPosition ba v = Inr ba' \<and> ba_inv ba' \<and>
      behind ba' = take v (behind ba @ ahead ba) \<and> ahead ba' = drop v (behind ba @ ahead ba)"
    using ByteArray_setPosition_view [of ba v] by (auto simp: ba_content_def)
qed

section \<open>Outside the contract\<close>

lemma read_loop_fails:
  assumes "0 < b" "\<forall>nd \<in> set (ba_nodes ba). length nd = b" "npos < b"
    "ba_pos ba = ba_curr ba * b + npos" "length (ba_nodes ba) * b < ba_pos ba + n" "0 < n"
  shows "read_loop ba npos n = Inl NullDeref"
  using assms
proof (induction ba npos n rule: read_loop.induct)
  case (1 ba npos n)
  note b = 1(2) and nodes = 1(3) and npos = 1(4) and pos = 1(5) and room = 1(6)
  show ?case
  proof (cases "length (ba_nodes ba) \<le> ba_curr ba")
    case True
    then show ?thesis using 1(7) by (simp add: read_loop.simps [of ba npos n])
  next
    case False
    let ?nd = "ba_nodes ba ! ba_curr ba" and ?ncap = "b - npos"
    let ?ba = "ba\<lparr>ba_curr := Suc (ba_curr ba), ba_pos := ba_pos ba + ?ncap\<rparr>"
    have nd: "length ?nd = b" using nodes False by simp
    have "Suc (ba_curr ba) * b \<le> length (ba_nodes ba) * b"
      using False by (intro mult_le_mono1) simp
    then have more: "?ncap < n" using room npos by (simp add: pos)
    have "read_loop ?ba 0 (n - ?ncap) = Inl NullDeref"
      by (rule "1.IH" [of ?nd ?ncap]) (use 1(7) False nd more b nodes npos room pos in simp_all)
    then show ?thesis
      using 1(7) False nd more by (simp add: read_loop.simps [of ba npos n] Let_def)
  qed
qed

lemma ByteArray_read_eq:
  assumes "ba_shape ba" "0 < n"
  shows "ByteArray_read ba n =
    (if ba_pos ba + n \<le> ba_cap ba
     then Inr (take n (drop (ba_pos ba) (ba_mem ba)),
               ba\<lparr>ba_curr := (ba_pos ba + n) div ba_base ba, ba_pos := ba_pos ba + n\<rparr>)
     else Inl NullDeref)"
  using assms read_loop_spec [of "ba_base ba" ba "ba_pos ba mod ba_base ba" n]
    read_loop_fails [of "ba_base ba" ba "ba_pos ba mod ba_base ba" n]
  by (simp add: ByteArray_read_def ba_shape_def)

section \<open>Properties\<close>

text \<open>
  C3. A fresh \<open>ByteArray\<close> of any block size and any content of its uninitialised memory behaves,
  for every sequence of writes, reads inside the data and seeks inside the data, as the flat
  cursor over a byte string: the same bytes are read and the same bytes end up before and after
  the position. Block boundaries, growth and the handling of \<open>curr_\<close> are invisible.
\<close>

theorem ByteArray_refines_cursor:
  assumes "0 < s" "spec_run ops [] [] = Some (outs, d, t)"
  shows "\<exists>ba. store_run ByteArray_write ByteArray_read ByteArray_setPosition ops
      (new_ByteArray fill s) = Inr (outs, ba) \<and> ba_inv ba \<and> behind ba = d \<and> ahead ba = t"
  using ba.run_refines [OF ba_inv_new_ByteArray [OF assms(1)]] assms(2) by simp

theorem ByteArray_refines_cursor_witness:
  "\<exists>ba. store_run ByteArray_write ByteArray_read ByteArray_setPosition
      [Put [1, 2, 3, 4, 5], Seek 1, Get 3] (new_ByteArray (\<lambda>_ _. 7) 2) = Inr ([[2, 3, 4]], ba) \<and>
    ba_inv ba \<and> behind ba = [1, 2, 3, 4] \<and> ahead ba = [5]"
  using ByteArray_refines_cursor [of 2 "[Put [1, 2, 3, 4, 5], Seek 1, Get 3]" "[[2, 3, 4]]"
      "[1, 2, 3, 4]" "[5]" "\<lambda>_ _. 7"] by simp

text \<open>
  C30. Reads are not checked against the data. A read that goes past the data but stays inside the
  allocated blocks succeeds and returns memory that was never written, and leaves the position
  past the size, so that the unsigned readable size wraps and \<open>toString\<close> throws
  \<open>std::length_error\<close>. A read that goes past the blocks dereferences a null pointer.
\<close>

theorem ByteArray_read_past_data:
  assumes "ba_inv ba" "length (ahead ba) < n" "ba_cap ba \<le> 2 ^ 62"
  shows "if ba_pos ba + n \<le> ba_cap ba
    then \<exists>ba'. ByteArray_read ba n = Inr (take n (drop (ba_pos ba) (ba_mem ba)), ba') \<and>
           ba_size ba' < ba_pos ba' \<and> ByteArray_toString ba' = Inl LengthError
    else ByteArray_read ba n = Inl NullDeref"
proof -
  have sh: "ba_shape ba" "0 < n" "ba_size ba < ba_pos ba + n"
    using assms by (auto simp: ba_inv_def)
  show ?thesis
  proof (cases "ba_pos ba + n \<le> ba_cap ba")
    case True
    let ?ba = "ba\<lparr>ba_curr := (ba_pos ba + n) div ba_base ba, ba_pos := ba_pos ba + n\<rparr>"
    have "string_max_size < getReadableSize ?ba"
      using True sh assms(3) by (simp add: getReadableSize_def sz_sub_def string_max_size_def)
    then have "ByteArray_toString ?ba = Inl LengthError" by (simp add: ByteArray_toString_def)
    then show ?thesis using True sh by (simp add: ByteArray_read_eq)
  next
    case False
    then show ?thesis using sh by (simp add: ByteArray_read_eq)
  qed
qed

theorem ByteArray_read_past_data_witness:
  "(\<exists>ba'. ByteArray_read (new_ByteArray (\<lambda>_ k. of_nat k) 4) 3 = Inr ([0, 1, 2], ba') \<and>
      ba_size ba' < ba_pos ba' \<and> ByteArray_toString ba' = Inl LengthError) \<and>
   ByteArray_read (new_ByteArray (\<lambda>_ k. of_nat k) 4) 5 = Inl NullDeref"
proof -
  let ?ba = "new_ByteArray (\<lambda>_ k. of_nat k) 4"
  have "ba_mem ?ba = [0, 1, 2, 3]" "ba_cap ?ba = 4"
    by (simp_all add: new_ByteArray_def ba_mem_def new_Node_def upt_rec)
  then show ?thesis
    using ByteArray_read_past_data [of ?ba 3] ByteArray_read_past_data [of ?ba 5]
    by (simp add: ba_inv_new_ByteArray)
qed

end
