(* ===== verification/Varint.thy ===== *)
theory Varint
  imports Prelude
begin

text \<open>
  The integer encodings of \<open>src/byte_array.cc\<close> as functions on values: the zig-zag maps
  (\<open>EncodeZigzag32\<close> to \<open>DecodeZigzag64\<close>) and the bytes the loops of \<open>writeUint32\<close> and
  \<open>writeUint64\<close> produce. A reference encoding on natural numbers, \<open>varint_nat\<close>, is the
  specification both widths are shown equal to.
\<close>

section \<open>Zig-zag\<close>

definition EncodeZigzag32 :: "u32 \<Rightarrow> u32" where
  "EncodeZigzag32 v = push_bit 1 v XOR signed_drop_bit 31 v"

definition EncodeZigzag64 :: "u64 \<Rightarrow> u64" where
  "EncodeZigzag64 v = push_bit 1 v XOR signed_drop_bit 63 v"

definition DecodeZigzag32 :: "u32 \<Rightarrow> u32" where
  "DecodeZigzag32 v = drop_bit 1 v XOR - (v AND 1)"

definition DecodeZigzag64 :: "u64 \<Rightarrow> u64" where
  "DecodeZigzag64 v = drop_bit 1 v XOR - (v AND 1)"

section \<open>Variable-length bytes\<close>

function varint_bytes32 :: "u32 \<Rightarrow> bytes" where
  "varint_bytes32 v =
     (if 0x80 \<le> v
      then ucast ((v AND 0x7F) OR 0x80) # varint_bytes32 (drop_bit 7 v)
      else [ucast v])"
  by pat_completeness auto
termination
proof (relation "measure unat")
  fix v :: u32
  assume "0x80 \<le> v"
  then have "0x80 \<le> unat v" by (simp add: word_le_nat_alt)
  then show "(drop_bit 7 v, v) \<in> measure unat"
    by (simp only: in_measure unat_drop_bit) simp
qed simp

function varint_bytes64 :: "u64 \<Rightarrow> bytes" where
  "varint_bytes64 v =
     (if 0x80 \<le> v
      then ucast ((v AND 0x7F) OR 0x80) # varint_bytes64 (drop_bit 7 v)
      else [ucast v])"
  by pat_completeness auto
termination
proof (relation "measure unat")
  fix v :: u64
  assume "0x80 \<le> v"
  then have "0x80 \<le> unat v" by (simp add: word_le_nat_alt)
  then show "(drop_bit 7 v, v) \<in> measure unat"
    by (simp only: in_measure unat_drop_bit) simp
qed simp

declare varint_bytes32.simps [simp del] varint_bytes64.simps [simp del]

text \<open>The reference: seven bits per byte, least significant group first.\<close>

fun varint_nat :: "nat \<Rightarrow> bytes" where
  "varint_nat n =
     (if 128 \<le> n then of_nat (n mod 128 + 128) # varint_nat (n div 128) else [of_nat n])"

declare varint_nat.simps [simp del]

section \<open>Zig-zag lemmas\<close>

lemma zigzag_roundtrip:
  fixes v :: "'a::len word"
  shows "drop_bit 1 (push_bit 1 v XOR signed_drop_bit (LENGTH('a) - 1) v)
      XOR - ((push_bit 1 v XOR signed_drop_bit (LENGTH('a) - 1) v) AND 1) = v"
proof -
  define p where "p = push_bit 1 v"
  have p: "bit p n \<longleftrightarrow> 1 \<le> n \<and> n < LENGTH('a) \<and> bit v (n - 1)" for n
    unfolding p_def bit_push_bit_iff by auto
  have ev: "even p" using p [of 0] by (simp add: bit_0)
  have sgn: "signed_drop_bit (LENGTH('a) - 1) v = (if bit v (LENGTH('a) - 1) then - 1 else 0)"
    by (intro bit_word_eqI) (auto simp: bit_simps not_le)
  have last: "n = LENGTH('a) - 1" if "n < LENGTH('a)" "\<not> Suc n < LENGTH('a)" for n
    using that by linarith
  have neg: "drop_bit 1 (p XOR - 1) XOR - ((p XOR - 1) AND 1) = v" if "bit v (LENGTH('a) - 1)"
  proof -
    have "(p XOR - 1) AND 1 = 1" using ev by (simp add: and_one_eq mod_2_eq_odd even_xor_iff)
    then show ?thesis
      using that by (intro bit_word_eqI) (auto simp: bit_simps p dest: last)
  qed
  have pos: "drop_bit 1 p XOR - (p AND 1) = v" if "\<not> bit v (LENGTH('a) - 1)"
  proof -
    have "p AND 1 = 0" using ev by (simp add: and_one_eq mod_2_eq_odd)
    then show ?thesis
      using that by (intro bit_word_eqI) (auto simp: bit_simps p dest: last)
  qed
  show ?thesis
  proof (cases "bit v (LENGTH('a) - 1)")
    case True
    then show ?thesis using neg by (simp only: sgn p_def if_True)
  next
    case False
    from pos [OF this] False show ?thesis by (simp only: sgn p_def if_False xor.right_neutral)
  qed
qed

lemma DecodeZigzag32_Encode [simp]: "DecodeZigzag32 (EncodeZigzag32 v) = v"
  using zigzag_roundtrip [of v] by (simp add: DecodeZigzag32_def EncodeZigzag32_def)

lemma DecodeZigzag64_Encode [simp]: "DecodeZigzag64 (EncodeZigzag64 v) = v"
  using zigzag_roundtrip [of v] by (simp add: DecodeZigzag64_def EncodeZigzag64_def)

section \<open>The loops produce the reference encoding\<close>

lemma varint_head:
  fixes v :: "'a::len word"
  assumes "7 < LENGTH('a)"
  shows "(ucast ((v AND 0x7F) OR 0x80) :: u8) = of_nat (unat v mod 128 + 128)"
proof -
  have "(v AND 0x7F) = take_bit 7 v"
    by (simp add: take_bit_eq_mask mask_eq_exp_minus_1)
  moreover have "(0x80 :: 'a word) = push_bit 7 1"
    by (simp add: push_bit_eq_mult)
  moreover have "unat (take_bit 7 v OR push_bit 7 (1 :: 'a word)) = unat v mod 128 + 128"
  proof -
    have "(2::nat) ^ 8 \<le> 2 ^ LENGTH('a)"
      using assms by (intro power_increasing) auto
    then show ?thesis
      using unat_or_push_bit [of "take_bit 7 v" 7 1] by (simp add: unat_take_bit)
  qed
  ultimately have "unat ((v AND 0x7F) OR 0x80) = unat v mod 128 + 128"
    by simp
  then show ?thesis
    by (metis of_nat_unat ucast_id unsigned_ucast_eq)
qed

lemma varint_bytes32_eq: "varint_bytes32 v = varint_nat (unat v)"
proof (induction v rule: varint_bytes32.induct)
  case (1 v)
  have "unat (drop_bit 7 v) = unat v div 128"
    by (simp only: unat_drop_bit) simp
  then show ?case
    using 1 by (subst varint_bytes32.simps, subst varint_nat.simps)
      (simp add: varint_head word_le_nat_alt)
qed

lemma varint_bytes64_eq: "varint_bytes64 v = varint_nat (unat v)"
proof (induction v rule: varint_bytes64.induct)
  case (1 v)
  have "unat (drop_bit 7 v) = unat v div 128"
    by (simp only: unat_drop_bit) simp
  then show ?case
    using 1 by (subst varint_bytes64.simps, subst varint_nat.simps)
      (simp add: varint_head word_le_nat_alt)
qed

text \<open>A value below \<open>2 ^ (7 * k)\<close> takes at most \<open>k\<close> bytes, and never none.\<close>

lemma length_varint_nat: "n < 128 ^ k \<Longrightarrow> 0 < k \<Longrightarrow> length (varint_nat n) \<le> k"
proof (induction n arbitrary: k rule: varint_nat.induct)
  case (1 n)
  show ?case
  proof (cases "128 \<le> n")
    case True
    obtain k' where k: "k = Suc k'" using 1(3) by (cases k) auto
    moreover have "k' \<noteq> 0" using 1(2) True k by (intro notI) simp
    ultimately have k: "k = Suc k'" "0 < k'" by auto
    then have "n div 128 < 128 ^ k'"
      using 1(2) by (simp add: less_mult_imp_div_less mult.commute)
    then show ?thesis
      using 1(1) [OF True] k True by (simp add: varint_nat.simps [of n])
  next
    case False
    then show ?thesis using 1(3) by (simp add: varint_nat.simps [of n])
  qed
qed

lemma varint_nat_nonempty: "varint_nat n \<noteq> []"
  by (subst varint_nat.simps) simp

lemma length_varint32: "length (varint_bytes32 v) \<le> 5"
  using length_varint_nat [of "unat v" 5] unsigned_less [of v, where ?'a = nat]
  by (simp add: varint_bytes32_eq)

lemma length_varint64: "length (varint_bytes64 v) \<le> 10"
  using length_varint_nat [of "unat v" 10] unsigned_less [of v, where ?'a = nat]
  by (simp add: varint_bytes64_eq)

end
