(* ===== verification/Byte_Codec.thy ===== *)
theory Byte_Codec
  imports Byte_Cursor Varint
begin

text \<open>
  The typed reads and writes of \<open>src/byte_array.cc\<close>: fixed-width integers, variable-length
  integers, floats and doubles (as their bit patterns, which is what \<open>memcpy\<close> moves) and strings
  with a length prefix. Each writer/reader pair is shown to be a \<open>codec\<close>: the writer appends a
  known byte string and the reader gets the value back from it and stops right behind it. A signed
  integer is the word with its two's-complement bits.
\<close>

section \<open>Fixed-width integers\<close>

definition writeFint8 :: "bytearray \<Rightarrow> u8 \<Rightarrow> bytearray res" where
  "writeFint8 ba v = ByteArray_write ba (obj_bytes 1 v)"

definition writeFint16 :: "bytearray \<Rightarrow> u16 \<Rightarrow> bytearray res" where
  "writeFint16 ba v = ByteArray_write ba (obj_bytes 2 v)"

definition writeFint32 :: "bytearray \<Rightarrow> u32 \<Rightarrow> bytearray res" where
  "writeFint32 ba v = ByteArray_write ba (obj_bytes 4 v)"

definition writeFint64 :: "bytearray \<Rightarrow> u64 \<Rightarrow> bytearray res" where
  "writeFint64 ba v = ByteArray_write ba (obj_bytes 8 v)"

definition writeFuint8 :: "bytearray \<Rightarrow> u8 \<Rightarrow> bytearray res" where
  "writeFuint8 ba v = ByteArray_write ba (obj_bytes 1 v)"

definition writeFuint16 :: "bytearray \<Rightarrow> u16 \<Rightarrow> bytearray res" where
  "writeFuint16 ba v = ByteArray_write ba (obj_bytes 2 v)"

definition writeFuint32 :: "bytearray \<Rightarrow> u32 \<Rightarrow> bytearray res" where
  "writeFuint32 ba v = ByteArray_write ba (obj_bytes 4 v)"

definition writeFuint64 :: "bytearray \<Rightarrow> u64 \<Rightarrow> bytearray res" where
  "writeFuint64 ba v = ByteArray_write ba (obj_bytes 8 v)"

definition readFint8 :: "bytearray \<Rightarrow> (u8 \<times> bytearray) res" where
  "readFint8 ba = bindE (ByteArray_read ba 1) (\<lambda>(bs, ba'). Inr (obj_word bs, ba'))"

definition readFuint8 :: "bytearray \<Rightarrow> (u8 \<times> bytearray) res" where
  "readFuint8 ba = bindE (ByteArray_read ba 1) (\<lambda>(bs, ba'). Inr (obj_word bs, ba'))"

text \<open>The macro \<open>XX(type)\<close>: a read of the object representation, swapped for a foreign order.\<close>

definition XX :: "nat \<Rightarrow> bytearray \<Rightarrow> ('a::len word \<times> bytearray) res" where
  "XX n ba = bindE (ByteArray_read ba n)
     (\<lambda>(bs, ba'). let v = obj_word bs in
        Inr (if ba_endian ba = RPC_BYTE_ORDER then v else ByteSwap n v, ba'))"

definition readFint16 :: "bytearray \<Rightarrow> (u16 \<times> bytearray) res" where
  "readFint16 ba = XX 2 ba"

definition readFint32 :: "bytearray \<Rightarrow> (u32 \<times> bytearray) res" where
  "readFint32 ba = XX 4 ba"

definition readFint64 :: "bytearray \<Rightarrow> (u64 \<times> bytearray) res" where
  "readFint64 ba = XX 8 ba"

definition readFuint16 :: "bytearray \<Rightarrow> (u16 \<times> bytearray) res" where
  "readFuint16 ba = XX 2 ba"

definition readFuint32 :: "bytearray \<Rightarrow> (u32 \<times> bytearray) res" where
  "readFuint32 ba = XX 4 ba"

definition readFuint64 :: "bytearray \<Rightarrow> (u64 \<times> bytearray) res" where
  "readFuint64 ba = XX 8 ba"

section \<open>Variable-length integers\<close>

definition writeUint32 :: "bytearray \<Rightarrow> u32 \<Rightarrow> bytearray res" where
  "writeUint32 ba v = ByteArray_write ba (varint_bytes32 v)"

definition writeInt32 :: "bytearray \<Rightarrow> u32 \<Rightarrow> bytearray res" where
  "writeInt32 ba v = writeUint32 ba (EncodeZigzag32 v)"

definition writeUint64 :: "bytearray \<Rightarrow> u64 \<Rightarrow> bytearray res" where
  "writeUint64 ba v = ByteArray_write ba (varint_bytes64 v)"

definition writeInt64 :: "bytearray \<Rightarrow> u64 \<Rightarrow> bytearray res" where
  "writeInt64 ba v = writeUint64 ba (EncodeZigzag64 v)"

function readUint32_loop :: "nat \<Rightarrow> u32 \<Rightarrow> bytearray \<Rightarrow> (u32 \<times> bytearray) res" where
  "readUint32_loop i v ba =
     (if i < 32
      then bindE (readFuint8 ba)
        (\<lambda>(temp, ba'). if temp < 0x80 then Inr (v OR push_bit i (ucast temp), ba')
           else readUint32_loop (i + 7) (v OR push_bit i (ucast (temp AND 0x7F))) ba')
      else Inr (v, ba))"
  by pat_completeness auto
termination
  by (relation "measure (\<lambda>(i, v, ba). 32 - i)") auto

function readUint64_loop :: "nat \<Rightarrow> u64 \<Rightarrow> bytearray \<Rightarrow> (u64 \<times> bytearray) res" where
  "readUint64_loop i v ba =
     (if i < 64
      then bindE (readFuint8 ba)
        (\<lambda>(temp, ba'). if temp < 0x80 then Inr (v OR push_bit i (ucast temp), ba')
           else readUint64_loop (i + 7) (v OR push_bit i (ucast (temp AND 0x7F))) ba')
      else Inr (v, ba))"
  by pat_completeness auto
termination
  by (relation "measure (\<lambda>(i, v, ba). 64 - i)") auto

declare readUint32_loop.simps [simp del] readUint64_loop.simps [simp del]

definition readUint32 :: "bytearray \<Rightarrow> (u32 \<times> bytearray) res" where
  "readUint32 ba = readUint32_loop 0 0 ba"

definition readInt32 :: "bytearray \<Rightarrow> (u32 \<times> bytearray) res" where
  "readInt32 ba = bindE (readUint32 ba) (\<lambda>(v, ba'). Inr (DecodeZigzag32 v, ba'))"

definition readUint64 :: "bytearray \<Rightarrow> (u64 \<times> bytearray) res" where
  "readUint64 ba = readUint64_loop 0 0 ba"

definition readInt64 :: "bytearray \<Rightarrow> (u64 \<times> bytearray) res" where
  "readInt64 ba = bindE (readUint64 ba) (\<lambda>(v, ba'). Inr (DecodeZigzag64 v, ba'))"

section \<open>Floating point and strings\<close>

definition writeFloat :: "bytearray \<Rightarrow> u32 \<Rightarrow> bytearray res" where
  "writeFloat ba v = writeFuint32 ba v"

definition writeDouble :: "bytearray \<Rightarrow> u64 \<Rightarrow> bytearray res" where
  "writeDouble ba v = writeFuint64 ba v"

definition readFloat :: "bytearray \<Rightarrow> (u32 \<times> bytearray) res" where
  "readFloat ba = readFuint32 ba"

definition readDouble :: "bytearray \<Rightarrow> (u64 \<times> bytearray) res" where
  "readDouble ba = readFuint64 ba"

definition writeStringF16 :: "bytearray \<Rightarrow> bytes \<Rightarrow> bytearray res" where
  "writeStringF16 ba s =
     bindE (writeFuint16 ba (of_nat (length s))) (\<lambda>ba. ByteArray_write ba s)"

definition writeStringF32 :: "bytearray \<Rightarrow> bytes \<Rightarrow> bytearray res" where
  "writeStringF32 ba s =
     bindE (writeFuint32 ba (of_nat (length s))) (\<lambda>ba. ByteArray_write ba s)"

definition writeStringF64 :: "bytearray \<Rightarrow> bytes \<Rightarrow> bytearray res" where
  "writeStringF64 ba s =
     bindE (writeFuint64 ba (of_nat (length s))) (\<lambda>ba. ByteArray_write ba s)"

definition writeStringVint :: "bytearray \<Rightarrow> bytes \<Rightarrow> bytearray res" where
  "writeStringVint ba s =
     bindE (writeUint64 ba (of_nat (length s))) (\<lambda>ba. ByteArray_write ba s)"

definition writeStringWithoutLength :: "bytearray \<Rightarrow> bytes \<Rightarrow> bytearray res" where
  "writeStringWithoutLength ba s = ByteArray_write ba s"

text \<open>\<open>value.resize(len)\<close> throws above the largest string size, then the bytes are read. That memory runs out below is not modelled.\<close>

definition read_resized :: "nat \<Rightarrow> bytearray \<Rightarrow> (bytes \<times> bytearray) res" where
  "read_resized len ba =
     (if string_max_size < len then Inl LengthError else ByteArray_read ba len)"

definition readStringF16 :: "bytearray \<Rightarrow> (bytes \<times> bytearray) res" where
  "readStringF16 ba = bindE (readFuint16 ba) (\<lambda>(len, ba). read_resized (unat len) ba)"

definition readStringF32 :: "bytearray \<Rightarrow> (bytes \<times> bytearray) res" where
  "readStringF32 ba = bindE (readFuint32 ba) (\<lambda>(len, ba). read_resized (unat len) ba)"

definition readStringF64 :: "bytearray \<Rightarrow> (bytes \<times> bytearray) res" where
  "readStringF64 ba = bindE (readFuint64 ba) (\<lambda>(len, ba). read_resized (unat len) ba)"

definition readStringVint :: "bytearray \<Rightarrow> (bytes \<times> bytearray) res" where
  "readStringVint ba = bindE (readUint64 ba) (\<lambda>(len, ba). read_resized (unat len) ba)"

section \<open>The contract of a writer and its reader\<close>

text \<open>Going back to where a write began puts its bytes ahead of the cursor.\<close>

lemma rewind:
  assumes "ba_inv ba" "wrote ba bs ba1"
  shows "\<exists>ba2. ByteArray_setPosition ba1 (ba_pos ba) = Inr ba2 \<and> ba_inv ba2 \<and>
    behind ba2 = behind ba \<and> ahead ba2 = bs @ ahead ba1"
proof -
  have "ba_inv ba1" "ba_content ba1 = behind ba @ bs @ ahead ba1"
    using assms(2) by (auto simp: wrote_def ba_content_def)
  then show ?thesis
    using ByteArray_setPosition_view [of ba1 "ba_pos ba"] assms(1)
    by (metis append_eq_conv_conj le_add1 length_append length_behind)
qed

text \<open>What was written to a fresh buffer lies ahead once it is rewound to its start.\<close>

lemma rewind_new:
  assumes "wrote (new_ByteArray fill s) bs ba"
  shows "\<exists>ba'. ByteArray_setPosition ba 0 = Inr ba' \<and> ba_inv ba' \<and> behind ba' = [] \<and> ahead ba' = bs"
  using ByteArray_setPosition_view [of ba 0] assms by (auto simp: wrote_def ba_content_def)

text \<open>
  \<open>enc\<close> is the byte string of a value, \<open>ok\<close> the values the pair can carry. Writing appends the
  bytes; reading, wherever these bytes lie ahead, gives the value and stops behind them.
\<close>

locale codec =
  fixes put :: "bytearray \<Rightarrow> 'a \<Rightarrow> bytearray res"
    and get :: "bytearray \<Rightarrow> ('a \<times> bytearray) res"
    and enc :: "'a \<Rightarrow> bytes"
    and ok :: "'a \<Rightarrow> bool"
  assumes put_law: "ba_inv ba \<Longrightarrow> ok x \<Longrightarrow> \<exists>ba'. put ba x = Inr ba' \<and> wrote ba (enc x) ba'"
    and get_law: "ba_inv ba \<Longrightarrow> ok x \<Longrightarrow> ahead ba = enc x @ rest \<Longrightarrow>
      \<exists>ba'. get ba = Inr (x, ba') \<and> consumed ba (enc x) ba'"
begin

text \<open>Sequencing, one operation at a time.\<close>

lemma put_next:
  assumes "wrote ba0 bs ba" "ok x" "\<And>ba'. wrote ba0 (bs @ enc x) ba' \<Longrightarrow> \<exists>r. k ba' = Inr r \<and> Q r"
  shows "\<exists>r. bindE (put ba x) k = Inr r \<and> Q r"
proof -
  obtain ba' where "put ba x = Inr ba'" "wrote ba (enc x) ba'"
    using put_law [OF wrote_inv [OF assms(1)] assms(2)] by blast
  then show ?thesis using assms(3) [OF wrote_trans [OF assms(1)]] by simp
qed

lemma get_next:
  assumes "ba_inv ba" "ahead ba = enc x @ rest" "ok x"
    "\<And>ba'. ba_inv ba' \<Longrightarrow> ahead ba' = rest \<Longrightarrow> \<exists>r. k (x, ba') = Inr r \<and> Q r"
  shows "\<exists>r. bindE (get ba) k = Inr r \<and> Q r"
proof -
  obtain ba' where ba': "get ba = Inr (x, ba')" "consumed ba (enc x) ba'"
    using get_law [OF assms(1,3,2)] by blast
  then show ?thesis
    using assms(4) [OF consumed_inv consumed_ahead [OF _ assms(2)]] by simp
qed

text \<open>Written, rewound to where the write began, and read: the value, and the cursor behind it.\<close>

lemma put_seek_get:
  assumes "ba_inv ba" "ok x"
  shows "\<exists>ba1 ba2 ba3. put ba x = Inr ba1 \<and> ByteArray_setPosition ba1 (ba_pos ba) = Inr ba2 \<and>
    get ba2 = Inr (x, ba3) \<and> behind ba3 = behind ba @ enc x \<and>
    ahead ba3 = drop (length (enc x)) (ahead ba)"
proof -
  obtain ba1 where ba1: "put ba x = Inr ba1" "wrote ba (enc x) ba1"
    using put_law [OF assms] by blast
  obtain ba2 where ba2: "ByteArray_setPosition ba1 (ba_pos ba) = Inr ba2" "ba_inv ba2"
    "behind ba2 = behind ba" "ahead ba2 = enc x @ ahead ba1"
    using rewind [OF assms(1) ba1(2)] by blast
  obtain ba3 where "get ba2 = Inr (x, ba3)" "consumed ba2 (enc x) ba3"
    using get_law [OF ba2(2) assms(2) ba2(4)] by blast
  then show ?thesis
    using ba1 ba2 by (auto simp: consumed_def wrote_def)
qed

end

text \<open>Two codecs one behind the other.\<close>

locale pair_codec = c1: codec put1 get1 enc1 ok1 + c2: codec put2 get2 enc2 ok2
  for put1 :: "bytearray \<Rightarrow> 'a \<Rightarrow> bytearray res" and get1 enc1 ok1
    and put2 :: "bytearray \<Rightarrow> 'b \<Rightarrow> bytearray res" and get2 enc2 ok2
begin

definition put_pair :: "bytearray \<Rightarrow> 'a \<times> 'b \<Rightarrow> bytearray res" where
  "put_pair ba p = bindE (put1 ba (fst p)) (\<lambda>ba. put2 ba (snd p))"

definition get_pair :: "bytearray \<Rightarrow> (('a \<times> 'b) \<times> bytearray) res" where
  "get_pair ba = bindE (get1 ba) (\<lambda>(x, ba). bindE (get2 ba) (\<lambda>(y, ba). Inr ((x, y), ba)))"

definition enc_pair :: "'a \<times> 'b \<Rightarrow> bytes" where
  "enc_pair p = enc1 (fst p) @ enc2 (snd p)"

definition ok_pair :: "'a \<times> 'b \<Rightarrow> bool" where
  "ok_pair p \<longleftrightarrow> ok1 (fst p) \<and> ok2 (snd p)"

lemma put_pair_law:
  assumes "ba_inv ba" "ok_pair p"
  shows "\<exists>ba'. put_pair ba p = Inr ba' \<and> wrote ba (enc_pair p) ba'"
proof -
  obtain ba1 where ba1: "put1 ba (fst p) = Inr ba1" "wrote ba (enc1 (fst p)) ba1"
    using c1.put_law assms by (auto simp: ok_pair_def)
  obtain ba2 where "put2 ba1 (snd p) = Inr ba2" "wrote ba1 (enc2 (snd p)) ba2"
    using c2.put_law [OF wrote_inv [OF ba1(2)]] assms by (auto simp: ok_pair_def)
  then show ?thesis
    using ba1 wrote_trans [OF ba1(2)] by (simp add: put_pair_def enc_pair_def)
qed

lemma get_pair_law:
  assumes "ba_inv ba" "ok_pair p" "ahead ba = enc_pair p @ rest"
  shows "\<exists>ba'. get_pair ba = Inr (p, ba') \<and> consumed ba (enc_pair p) ba'"
proof -
  have ok: "ok1 (fst p)" "ok2 (snd p)" using assms(2) by (auto simp: ok_pair_def)
  have ah: "ahead ba = enc1 (fst p) @ enc2 (snd p) @ rest"
    using assms(3) by (simp add: enc_pair_def)
  obtain ba1 where ba1: "get1 ba = Inr (fst p, ba1)" "consumed ba (enc1 (fst p)) ba1"
    using c1.get_law [OF assms(1) ok(1) ah] by blast
  obtain ba2 where ba2: "get2 ba1 = Inr (snd p, ba2)" "consumed ba1 (enc2 (snd p)) ba2"
    using c2.get_law [OF consumed_inv [OF ba1(2)] ok(2) consumed_ahead [OF ba1(2) ah]] by blast
  then show ?thesis
    using ba1 consumed_trans [OF ba1(2) ba2(2)] by (simp add: get_pair_def enc_pair_def)
qed

end

sublocale pair_codec \<subseteq> pair: codec put_pair get_pair enc_pair ok_pair
proof
  show "\<exists>ba'. put_pair ba x = Inr ba' \<and> wrote ba (enc_pair x) ba'" if "ba_inv ba" "ok_pair x" for ba x
    using that by (rule put_pair_law)
  show "\<exists>ba'. get_pair ba = Inr (x, ba') \<and> consumed ba (enc_pair x) ba'"
    if "ba_inv ba" "ok_pair x" "ahead ba = enc_pair x @ rest" for ba x rest
    using that by (rule get_pair_law)
qed

lemma codecI_bytes:
  assumes put: "\<And>ba x. put ba x = ByteArray_write ba (enc x)"
    and get: "\<And>ba x rest. ba_inv ba \<Longrightarrow> ok x \<Longrightarrow> ahead ba = enc x @ rest \<Longrightarrow>
      \<exists>ba'. get ba = Inr (x, ba') \<and> consumed ba (enc x) ba'"
  shows "codec put get enc ok"
  by unfold_locales (use ByteArray_write_wrote get in \<open>auto simp: put\<close>)

lemma read_prefix:
  assumes "ba_inv ba" "ahead ba = bs @ rest"
  shows "\<exists>ba'. ByteArray_read ba (length bs) = Inr (bs, ba') \<and> consumed ba bs ba'"
  using ByteArray_read_consumed [OF assms(1), of "length bs"] assms(2) by simp

lemma XX_consumed:
  fixes v :: "'a::len word"
  assumes "ba_inv ba" "LENGTH('a) = 8 * n" "ahead ba = obj_bytes n v @ rest"
  shows "\<exists>ba'. XX n ba = Inr (v, ba') \<and> consumed ba (obj_bytes n v) ba'"
  using read_prefix [OF assms(1,3)] assms
  by (auto simp: XX_def ba_inv_defs RPC_BYTE_ORDER_def Let_def)

section \<open>Reading a variable-length integer\<close>

lemma readFuint8_consumed:
  assumes "ba_inv ba" "ahead ba = b # rest"
  shows "\<exists>ba'. readFuint8 ba = Inr (b, ba') \<and> consumed ba [b] ba'"
  using read_prefix [of ba "[b]" rest] assms
  by (auto simp: readFuint8_def obj_word_def)

text \<open>Both widths run the same loop; the lemma is about any function with its equation.\<close>

lemma varint_loop:
  fixes loop :: "nat \<Rightarrow> 'a::len word \<Rightarrow> bytearray \<Rightarrow> ('a word \<times> bytearray) res"
  assumes loop: "\<And>i v ba. loop i v ba =
     (if i < LENGTH('a)
      then bindE (readFuint8 ba)
        (\<lambda>(temp, ba'). if temp < 0x80 then Inr (v OR push_bit i (ucast temp), ba')
           else loop (i + 7) (v OR push_bit i (ucast (temp AND 0x7F))) ba')
      else Inr (v, ba))"
    and width: "8 < LENGTH('a)"
    and "ba_inv ba" "ahead ba = varint_nat n @ rest"
    and "i < LENGTH('a)" "unat v < 2 ^ i" "unat v + n * 2 ^ i < 2 ^ LENGTH('a)"
  shows "\<exists>w ba'. loop i v ba = Inr (w, ba') \<and> unat w = unat v + n * 2 ^ i \<and>
    consumed ba (varint_nat n) ba'"
  using assms(3-)
proof (induction n arbitrary: i v ba rule: varint_nat.induct)
  case (1 n)
  note inv = 1(2) and ah = 1(3) and i = 1(4) and v = 1(5) and fits = 1(6)
  have big: "(256::nat) \<le> 2 ^ LENGTH('a)"
    using width power_increasing [of 8 "LENGTH('a)" "2::nat"] by simp
  have push: "unat (v OR push_bit i (ucast w)) = unat v + unat w * 2 ^ i"
    if "unat v + unat w * 2 ^ i < 2 ^ LENGTH('a)" for w :: u8
    using unat_or_push_bit [of v i "ucast w"] v that width
    by (simp add: unat_ucast_wider add.commute)
  show ?case
  proof (cases "128 \<le> n")
    case False
    then have n: "varint_nat n = [of_nat n]" "unat (of_nat n :: u8) = n"
      by (simp_all add: varint_nat.simps [of n])
    obtain ba' where ba': "readFuint8 ba = Inr (of_nat n, ba')" "consumed ba [of_nat n] ba'"
      using readFuint8_consumed [OF inv] ah n by auto
    have "(of_nat n :: u8) < 0x80"
      using False by (simp add: word_less_nat_alt)
    then show ?thesis using ba' i n push [of "of_nat n"] fits by (simp add: loop [of i])
  next
    case True
    define b where "b = (of_nat (n mod 128 + 128) :: u8)"
    define v' where "v' = v OR push_bit i (ucast (b AND 0x7F))"
    have n: "varint_nat n = b # varint_nat (n div 128)"
      using True by (simp add: varint_nat.simps [of n] b_def)
    obtain ba1 where ba1: "readFuint8 ba = Inr (b, ba1)" "consumed ba [b] ba1"
      using readFuint8_consumed [OF inv] ah n by auto
    have b: "unat b = n mod 128 + 128"
      by (simp only: unat_u8_of_nat b_def) simp
    have low: "unat (b AND 0x7F) = n mod 128"
    proof -
      have "b AND 0x7F = take_bit 7 b" by (simp add: take_bit_eq_mask mask_eq_exp_minus_1)
      then show ?thesis by (simp only: unat_take_bit b) simp
    qed
    have split: "n * 2 ^ i = n mod 128 * 2 ^ i + n div 128 * 2 ^ (i + 7)"
    proof -
      have "n * 2 ^ i = (n div 128 * 128 + n mod 128) * 2 ^ i" by simp
      then show ?thesis by (simp only: add_mult_distrib power_add) simp
    qed
    have uv: "unat v' = unat v + n mod 128 * 2 ^ i"
      using push [of "b AND 0x7F"] low fits split by (simp add: v'_def)
    have "(2::nat) ^ (i + 7) \<le> n * 2 ^ i"
      using mult_le_mono1 [OF True, of "2 ^ i"] by (simp add: power_add mult.commute)
    then have "(2::nat) ^ (i + 7) < 2 ^ LENGTH('a)" using fits by linarith
    then have i': "i + 7 < LENGTH('a)" by (rule power_less_imp_less_exp [rotated]) simp
    have "n mod 128 \<le> 127" using pos_mod_bound by simp
    then have "n mod 128 * 2 ^ i \<le> 127 * 2 ^ i" by (rule mult_le_mono1)
    moreover have "(2::nat) ^ (i + 7) = 127 * 2 ^ i + 2 ^ i" by (simp add: power_add)
    ultimately have "unat v' < 2 ^ (i + 7)" using v uv by linarith
    then obtain w ba' where ba': "loop (i + 7) v' ba1 = Inr (w, ba')"
      "unat w = unat v' + n div 128 * 2 ^ (i + 7)" "consumed ba1 (varint_nat (n div 128)) ba'"
      using 1(1) [OF True, of ba1 "i + 7" v'] consumed_inv [OF ba1(2)] i' fits split uv
        consumed_ahead [OF ba1(2)] ah n by auto
    have "\<not> b < 0x80" using b by (simp add: word_less_nat_alt)
    then have "loop i v ba = Inr (w, ba')"
      using ba1(1) ba'(1) i by (simp add: loop [of i] v'_def)
    then show ?thesis
      using consumed_trans [OF ba1(2) ba'(3)] n ba'(2) uv split by simp
  qed
qed

lemma readUint32_consumed:
  assumes "ba_inv ba" "ahead ba = varint_bytes32 v @ rest"
  shows "\<exists>ba'. readUint32 ba = Inr (v, ba') \<and> consumed ba (varint_bytes32 v) ba'"
  using varint_loop [where loop = readUint32_loop and i = 0 and v = 0 and n = "unat v", of ba rest]
    assms unsigned_less [of v, where ?'a = nat]
  by (auto simp: readUint32_loop.simps [symmetric] readUint32_def varint_bytes32_eq
      word_unat_eq_iff)

lemma readUint64_consumed:
  assumes "ba_inv ba" "ahead ba = varint_bytes64 v @ rest"
  shows "\<exists>ba'. readUint64 ba = Inr (v, ba') \<and> consumed ba (varint_bytes64 v) ba'"
  using varint_loop [where loop = readUint64_loop and i = 0 and v = 0 and n = "unat v", of ba rest]
    assms unsigned_less [of v, where ?'a = nat]
  by (auto simp: readUint64_loop.simps [symmetric] readUint64_def varint_bytes64_eq
      word_unat_eq_iff)

section \<open>Every pair of the code keeps the contract\<close>

lemma obj_bytes_1 [simp]: "obj_bytes (Suc 0) (b :: u8) = [b]"
  by (simp add: obj_bytes_def)

interpretation fint8: codec writeFint8 readFint8 "obj_bytes 1" "\<lambda>_. True"
  by (rule codecI_bytes) (use readFuint8_consumed in \<open>auto simp: writeFint8_def readFint8_def
      readFuint8_def\<close>)

interpretation fint16: codec writeFint16 readFint16 "obj_bytes 2" "\<lambda>_. True"
  by (rule codecI_bytes) (simp_all add: writeFint16_def readFint16_def XX_consumed)

interpretation fint32: codec writeFint32 readFint32 "obj_bytes 4" "\<lambda>_. True"
  by (rule codecI_bytes) (simp_all add: writeFint32_def readFint32_def XX_consumed)

interpretation fint64: codec writeFint64 readFint64 "obj_bytes 8" "\<lambda>_. True"
  by (rule codecI_bytes) (simp_all add: writeFint64_def readFint64_def XX_consumed)

interpretation fuint8: codec writeFuint8 readFuint8 "obj_bytes 1" "\<lambda>_. True"
  by (rule codecI_bytes) (use readFuint8_consumed in \<open>auto simp: writeFuint8_def\<close>)

interpretation fuint16: codec writeFuint16 readFuint16 "obj_bytes 2" "\<lambda>_. True"
  by (rule codecI_bytes) (simp_all add: writeFuint16_def readFuint16_def XX_consumed)

interpretation fuint32: codec writeFuint32 readFuint32 "obj_bytes 4" "\<lambda>_. True"
  by (rule codecI_bytes) (simp_all add: writeFuint32_def readFuint32_def XX_consumed)

interpretation fuint64: codec writeFuint64 readFuint64 "obj_bytes 8" "\<lambda>_. True"
  by (rule codecI_bytes) (simp_all add: writeFuint64_def readFuint64_def XX_consumed)

interpretation float: codec writeFloat readFloat "obj_bytes 4" "\<lambda>_. True"
  by (rule codecI_bytes) (simp_all add: writeFloat_def readFloat_def writeFuint32_def
      readFuint32_def XX_consumed)

interpretation double: codec writeDouble readDouble "obj_bytes 8" "\<lambda>_. True"
  by (rule codecI_bytes) (simp_all add: writeDouble_def readDouble_def writeFuint64_def
      readFuint64_def XX_consumed)

interpretation uint32: codec writeUint32 readUint32 varint_bytes32 "\<lambda>_. True"
  by (rule codecI_bytes) (simp_all add: writeUint32_def readUint32_consumed)

interpretation uint64: codec writeUint64 readUint64 varint_bytes64 "\<lambda>_. True"
  by (rule codecI_bytes) (simp_all add: writeUint64_def readUint64_consumed)

interpretation int32: codec writeInt32 readInt32 "\<lambda>v. varint_bytes32 (EncodeZigzag32 v)" "\<lambda>_. True"
  by (rule codecI_bytes) (use readUint32_consumed in \<open>fastforce simp: writeInt32_def
      writeUint32_def readInt32_def\<close>)+

interpretation int64: codec writeInt64 readInt64 "\<lambda>v. varint_bytes64 (EncodeZigzag64 v)" "\<lambda>_. True"
  by (rule codecI_bytes) (use readUint64_consumed in \<open>fastforce simp: writeInt64_def
      writeUint64_def readInt64_def\<close>)+

section \<open>Strings behind a length\<close>

text \<open>
  A length codec gives a string codec: the length, converted to the integer type, then the bytes.
  It carries the strings whose length the integer type holds.
\<close>

locale length_codec = len: codec putn getn encn "\<lambda>_. True"
  for putn :: "bytearray \<Rightarrow> 'w::len word \<Rightarrow> bytearray res"
    and getn :: "bytearray \<Rightarrow> ('w word \<times> bytearray) res"
    and encn :: "'w word \<Rightarrow> bytes"
begin

definition put_string :: "bytearray \<Rightarrow> bytes \<Rightarrow> bytearray res" where
  "put_string ba s = bindE (putn ba (of_nat (length s))) (\<lambda>ba. ByteArray_write ba s)"

definition get_string :: "bytearray \<Rightarrow> (bytes \<times> bytearray) res" where
  "get_string ba = bindE (getn ba) (\<lambda>(len, ba). read_resized (unat len) ba)"

definition enc_string :: "bytes \<Rightarrow> bytes" where
  "enc_string s = encn (of_nat (length s)) @ s"

definition fits :: "bytes \<Rightarrow> bool" where
  "fits s \<longleftrightarrow> length s < 2 ^ LENGTH('w) \<and> length s \<le> string_max_size"

lemma put_string_law: "ba_inv ba \<Longrightarrow> \<exists>ba'. put_string ba s = Inr ba' \<and> wrote ba (enc_string s) ba'"
proof -
  assume "ba_inv ba"
  then obtain ba1 where ba1: "putn ba (of_nat (length s)) = Inr ba1"
    "wrote ba (encn (of_nat (length s))) ba1"
    using len.put_law by blast
  obtain ba2 where "ByteArray_write ba1 s = Inr ba2" "wrote ba1 s ba2"
    using ByteArray_write_wrote [OF wrote_inv [OF ba1(2)]] by blast
  then show ?thesis
    using ba1 wrote_trans [OF ba1(2)] by (simp add: put_string_def enc_string_def)
qed

lemma get_string_law:
  assumes "ba_inv ba" "fits s" "ahead ba = enc_string s @ rest"
  shows "\<exists>ba'. get_string ba = Inr (s, ba') \<and> consumed ba (enc_string s) ba'"
proof -
  obtain ba1 where ba1: "getn ba = Inr (of_nat (length s), ba1)"
    "consumed ba (encn (of_nat (length s))) ba1"
    using len.get_law [OF assms(1) TrueI, of "of_nat (length s)" "s @ rest"] assms(3)
    unfolding enc_string_def append_assoc by blast
  have "ahead ba1 = s @ rest"
    using consumed_ahead [OF ba1(2)] assms(3) by (simp add: enc_string_def)
  from read_prefix [OF consumed_inv [OF ba1(2)] this]
  obtain ba2 where "ByteArray_read ba1 (length s) = Inr (s, ba2)" "consumed ba1 s ba2" by blast
  moreover have "unat (of_nat (length s) :: 'w word) = length s"
    using assms(2) by (simp add: fits_def unat_of_nat)
  ultimately have "get_string ba = Inr (s, ba2)" "consumed ba (enc_string s) ba2"
    using ba1(1) assms(2) consumed_trans [OF ba1(2)]
    by (simp_all add: get_string_def read_resized_def fits_def enc_string_def)
  then show ?thesis by blast
qed

end

sublocale length_codec \<subseteq> str: codec put_string get_string enc_string fits
proof
  show "\<exists>ba'. put_string ba x = Inr ba' \<and> wrote ba (enc_string x) ba'" if "ba_inv ba" for ba x
    using that by (rule put_string_law)
  show "\<exists>ba'. get_string ba = Inr (x, ba') \<and> consumed ba (enc_string x) ba'"
    if "ba_inv ba" "fits x" "ahead ba = enc_string x @ rest" for ba x rest
    using that by (rule get_string_law)
qed

interpretation f16: length_codec writeFuint16 readFuint16 "obj_bytes 2"
  by unfold_locales

interpretation f32: length_codec writeFuint32 readFuint32 "obj_bytes 4"
  by unfold_locales

interpretation f64: length_codec writeFuint64 readFuint64 "obj_bytes 8"
  by unfold_locales

interpretation vint: length_codec writeUint64 readUint64 varint_bytes64
  by unfold_locales

lemmas string_codec_defs =
  f16.put_string_def f16.get_string_def f16.enc_string_def f16.fits_def
  f32.put_string_def f32.get_string_def f32.enc_string_def f32.fits_def
  f64.put_string_def f64.get_string_def f64.enc_string_def f64.fits_def
  vint.put_string_def vint.get_string_def vint.enc_string_def vint.fits_def

lemma string_codecs:
  "f16.put_string = writeStringF16" "f16.get_string = readStringF16"
  "f32.put_string = writeStringF32" "f32.get_string = readStringF32"
  "f64.put_string = writeStringF64" "f64.get_string = readStringF64"
  "vint.put_string = writeStringVint" "vint.get_string = readStringVint"
  by (simp_all add: fun_eq_iff string_codec_defs writeStringF16_def readStringF16_def
      writeStringF32_def readStringF32_def writeStringF64_def readStringF64_def
      writeStringVint_def readStringVint_def)

interpretation strF16: codec writeStringF16 readStringF16 f16.enc_string f16.fits
  using f16.str.codec_axioms by (simp add: string_codecs)

interpretation strF32: codec writeStringF32 readStringF32 f32.enc_string f32.fits
  using f32.str.codec_axioms by (simp add: string_codecs)

interpretation strF64: codec writeStringF64 readStringF64 f64.enc_string f64.fits
  using f64.str.codec_axioms by (simp add: string_codecs)

interpretation strVint: codec writeStringVint readStringVint vint.enc_string vint.fits
  using vint.str.codec_axioms by (simp add: string_codecs)

interpretation signed: pair_codec writeInt32 readInt32 "\<lambda>v. varint_bytes32 (EncodeZigzag32 v)"
    "\<lambda>_. True" writeInt64 readInt64 "\<lambda>v. varint_bytes64 (EncodeZigzag64 v)" "\<lambda>_. True"
  by unfold_locales

section \<open>Properties\<close>

text \<open>
  C28. The loops of \<open>writeUint32\<close> and \<open>writeUint64\<close> produce the reference variable-length encoding
  of the number, and never write past the stack buffers \<open>temp[5]\<close> and \<open>temp[10]\<close>.
\<close>

theorem varint_buffers:
  "varint_bytes32 v = varint_nat (unat v) \<and> length (varint_bytes32 v) \<le> 5 \<and>
   varint_bytes64 w = varint_nat (unat w) \<and> length (varint_bytes64 w) \<le> 10"
  by (simp add: length_varint32 length_varint64) (simp add: varint_bytes32_eq varint_bytes64_eq)

text \<open>
  Signed integers survive the wire: a value written by \<open>writeInt32\<close> and one written by
  \<open>writeInt64\<close> behind it (zig-zag, then variable length) are read back, in order, by \<open>readInt32\<close>
  and \<open>readInt64\<close> from where the writing began, on any well-formed buffer and for any block size,
  and the cursor ends where it was after the writing.
\<close>

theorem signed_varint_roundtrip:
  assumes "ba_inv ba"
  shows "\<exists>ba1 ba2 ba3 ba4 ba5. writeInt32 ba v = Inr ba1 \<and> writeInt64 ba1 w = Inr ba2 \<and>
    ByteArray_setPosition ba2 (ba_pos ba) = Inr ba3 \<and>
    readInt32 ba3 = Inr (v, ba4) \<and> readInt64 ba4 = Inr (w, ba5) \<and>
    behind ba5 = behind ba @ varint_nat (unat (EncodeZigzag32 v)) @ varint_nat (unat (EncodeZigzag64 w))"
  using signed.pair.put_seek_get [OF assms, of "(v, w)"]
  by (auto simp: signed.put_pair_def signed.get_pair_def signed.ok_pair_def signed.enc_pair_def
      simp flip: varint_bytes32_eq varint_bytes64_eq)

theorem signed_varint_roundtrip_witness:
  "\<exists>ba1 ba2 ba3 ba4 ba5. writeInt32 (new_ByteArray (\<lambda>_ _. 7) 3) (- 1) = Inr ba1 \<and>
    writeInt64 ba1 300 = Inr ba2 \<and> ByteArray_setPosition ba2 0 = Inr ba3 \<and>
    readInt32 ba3 = Inr (- 1, ba4) \<and> readInt64 ba4 = Inr (300, ba5)"
  using signed_varint_roundtrip [of "new_ByteArray (\<lambda>_ _. 7) 3" "- 1" 300]
  by (auto simp: ba_inv_new_ByteArray)

text \<open>
  Every string whose length fits 64 bits minus the sign (the largest \<open>std::string\<close>) survives
  \<open>writeStringVint\<close> and \<open>readStringVint\<close>, at any position of a well-formed buffer: the reader
  returns it and stops right behind it.
\<close>

theorem stringVint_roundtrip:
  assumes "ba_inv ba" "length s \<le> string_max_size"
  shows "\<exists>ba1 ba2 ba3. writeStringVint ba s = Inr ba1 \<and>
    ByteArray_setPosition ba1 (ba_pos ba) = Inr ba2 \<and> readStringVint ba2 = Inr (s, ba3) \<and>
    behind ba3 = behind ba @ varint_nat (length s) @ s"
proof -
  have fits: "vint.fits s" using assms(2) by (simp add: vint.fits_def string_max_size_def)
  then have "unat (of_nat (length s) :: u64) = length s" by (simp add: vint.fits_def unat_of_nat)
  then show ?thesis
    using strVint.put_seek_get [OF assms(1) fits]
    by (auto simp: vint.enc_string_def varint_bytes64_eq)
qed

theorem stringVint_roundtrip_witness:
  "\<exists>ba1 ba2 ba3. writeStringVint (new_ByteArray (\<lambda>_ _. 7) 2) [1, 2, 3] = Inr ba1 \<and>
    ByteArray_setPosition ba1 0 = Inr ba2 \<and> readStringVint ba2 = Inr ([1, 2, 3], ba3) \<and>
    behind ba3 = varint_nat 3 @ [1, 2, 3]"
  using stringVint_roundtrip [of "new_ByteArray (\<lambda>_ _. 7) 2" "[1, 2, 3]"]
  by (auto simp: ba_inv_new_ByteArray string_max_size_def numeral_3_eq_3)

text \<open>
  \<open>writeStringF16\<close> keeps only the low 16 bits of the length: a string of \<open>2 ^ 16 + k\<close> bytes
  comes back as its first \<open>k\<close> bytes, and the other \<open>2 ^ 16\<close> stay ahead of the cursor, where the
  next reader takes them for its own data.
\<close>

theorem stringF16_truncates:
  assumes "ba_inv ba" "ahead ba = []" "length s = 2 ^ 16 + k" "k < 2 ^ 16"
  shows "\<exists>ba1 ba2 ba3. writeStringF16 ba s = Inr ba1 \<and>
    ByteArray_setPosition ba1 (ba_pos ba) = Inr ba2 \<and> readStringF16 ba2 = Inr (take k s, ba3) \<and>
    ahead ba3 = drop k s"
proof -
  obtain ba1 where ba1: "writeStringF16 ba s = Inr ba1" "wrote ba (f16.enc_string s) ba1"
    using f16.put_string_law [OF assms(1)] by (auto simp: string_codecs)
  obtain ba2 where ba2: "ByteArray_setPosition ba1 (ba_pos ba) = Inr ba2" "ba_inv ba2"
    "ahead ba2 = f16.enc_string s"
    using rewind [OF assms(1) ba1(2)] ba1(2) assms(2) by (auto simp: wrote_def)
  have k: "unat (of_nat (length s) :: u16) = k"
    using assms(3,4) by (simp only: unat_of_nat) simp
  obtain ba3 where ba3: "readFuint16 ba2 = Inr (of_nat (length s), ba3)"
    "ba_inv ba3" "ahead ba3 = s"
    using fuint16.get_law [OF ba2(2) TrueI, of "of_nat (length s)" s] ba2(3)
    by (auto simp: f16.enc_string_def consumed_def)
  moreover have "\<not> string_max_size < k" using assms(4) by (simp add: string_max_size_def)
  moreover obtain ba4 where "ByteArray_read ba3 k = Inr (take k s, ba4)" "ahead ba4 = drop k s"
    using ba.rd_law [OF ba3(2), of k] ba3(3) assms(3) by auto
  ultimately show ?thesis
    using ba1(1) ba2(1) k by (auto simp: readStringF16_def read_resized_def)
qed

theorem stringF16_truncates_witness:
  "\<exists>ba1 ba2 ba3. writeStringF16 (new_ByteArray (\<lambda>_ _. 7) 4096) (replicate (2 ^ 16 + 1) 9) = Inr ba1 \<and>
    ByteArray_setPosition ba1 0 = Inr ba2 \<and> readStringF16 ba2 = Inr ([9], ba3) \<and>
    ahead ba3 = replicate (2 ^ 16) 9"
  using stringF16_truncates [of "new_ByteArray (\<lambda>_ _. 7) 4096" "replicate (2 ^ 16 + 1) 9" 1]
  by (simp add: ba_inv_new_ByteArray)

end
