(* ===== verification/Serializer.thy ===== *)
theory Serializer
  imports Byte_Codec "HOL-Library.Multiset"
begin

text \<open>
  The serializer of \<open>include/rpc/serializer.h\<close>, a thin layer of templates over \<open>ByteArray\<close>.

  \<^item> The \<open>if constexpr\<close> chains of \<open>Serializer::read\<close> and \<open>Serializer::write\<close> are dispatches on
    the static type: \<open>sval\<close> is a value tagged with its type, \<open>sty\<close> a type. A type outside the
    chain, such as an enumeration, matches no branch: nothing is written or read.
  \<^item> The container overloads are functions of the element's writer or reader. All readers
    run the loop \<open>get_range\<close> (a \<open>size_t\<close> count, then so many elements, each emplaced into the
    container given); all writers run \<open>put_range\<close> over the iteration order. The ordered
    containers are the lists of their iteration order; the unordered ones, whose order is
    unspecified, are sets, multisets and maps, and their writers take the order in which the
    elements come.
  \<^item> A tuple is the list of its components.
\<close>

section \<open>Construction and positioning\<close>

definition new_Serializer :: "(nat \<Rightarrow> nat \<Rightarrow> u8) \<Rightarrow> bytearray" where
  "new_Serializer fill = new_ByteArray fill default_base"

definition ser_writeRowData :: "bytearray \<Rightarrow> bytes \<Rightarrow> bytearray res" where
  "ser_writeRowData ba buf = ByteArray_write ba buf"

definition ser_reset :: "bytearray \<Rightarrow> bytearray res" where
  "ser_reset ba = ByteArray_setPosition ba 0"

definition Serializer_content :: "(nat \<Rightarrow> nat \<Rightarrow> u8) \<Rightarrow> bytes \<Rightarrow> bytearray res" where
  "Serializer_content fill content =
     bindE (ser_writeRowData (new_ByteArray fill default_base) content) ser_reset"

text \<open>\<open>old + off\<close> converts the \<open>int\<close> to \<open>size_t\<close> and wraps.\<close>

definition ser_offset :: "bytearray \<Rightarrow> int \<Rightarrow> bytearray res" where
  "ser_offset ba off = ByteArray_setPosition ba (to_size (int (ba_pos ba) + off))"

definition ser_toString :: "bytearray \<Rightarrow> bytes res" where
  "ser_toString ba = ByteArray_toString ba"

definition ser_clear :: "bytearray \<Rightarrow> bytearray" where
  "ser_clear ba = ByteArray_clear ba"

definition ser_getSize :: "bytearray \<Rightarrow> nat" where
  "ser_getSize ba = ba_size ba"

section \<open>Scalars\<close>

datatype sval =
    VBool bool | VFloat u32 | VDouble u64 | VInt8 u8 | VUint8 u8 | VInt16 u16 | VUint16 u16
  | VInt32 u32 | VUint32 u32 | VInt64 u64 | VUint64 u64 | VString bytes
  | VCharPtr bytes      \<comment> \<open>\<open>char *\<close> and \<open>const char *\<close>: the characters before the terminator\<close>
  | VOther nat          \<comment> \<open>a value of a type outside the chain\<close>

datatype sty =
    TBool | TFloat | TDouble | TInt8 | TUint8 | TInt16 | TUint16 | TInt32 | TUint32
  | TInt64 | TUint64 | TString | TOther

fun ser_write :: "bytearray \<Rightarrow> sval \<Rightarrow> bytearray res" where
  "ser_write ba (VBool b) = writeFint8 ba (if b then 1 else 0)"
| "ser_write ba (VFloat v) = writeFloat ba v"
| "ser_write ba (VDouble v) = writeDouble ba v"
| "ser_write ba (VInt8 v) = writeFint8 ba v"
| "ser_write ba (VUint8 v) = writeFuint8 ba v"
| "ser_write ba (VInt16 v) = writeFint16 ba v"
| "ser_write ba (VUint16 v) = writeFuint16 ba v"
| "ser_write ba (VInt32 v) = writeInt32 ba v"
| "ser_write ba (VUint32 v) = writeUint32 ba v"
| "ser_write ba (VInt64 v) = writeInt64 ba v"
| "ser_write ba (VUint64 v) = writeUint64 ba v"
| "ser_write ba (VString s) = writeStringVint ba s"
| "ser_write ba (VCharPtr s) = writeStringVint ba s"
| "ser_write ba (VOther n) = Inr ba"

definition retag :: "('a \<Rightarrow> sval) \<Rightarrow> ('a \<times> bytearray) res \<Rightarrow> (sval \<times> bytearray) res" where
  "retag f r = bindE r (\<lambda>(v, ba). Inr (f v, ba))"

text \<open>\<open>t\<close> is the variable read into, which a type outside the chain leaves as it was.\<close>

fun ser_read :: "bytearray \<Rightarrow> sty \<Rightarrow> sval \<Rightarrow> (sval \<times> bytearray) res" where
  "ser_read ba TBool t = retag (\<lambda>v. VBool (v \<noteq> 0)) (readFint8 ba)"
| "ser_read ba TFloat t = retag VFloat (readFloat ba)"
| "ser_read ba TDouble t = retag VDouble (readDouble ba)"
| "ser_read ba TInt8 t = retag VInt8 (readFint8 ba)"
| "ser_read ba TUint8 t = retag VUint8 (readFuint8 ba)"
| "ser_read ba TInt16 t = retag VInt16 (readFint16 ba)"
| "ser_read ba TUint16 t = retag VUint16 (readFuint16 ba)"
| "ser_read ba TInt32 t = retag VInt32 (readInt32 ba)"
| "ser_read ba TUint32 t = retag VUint32 (readUint32 ba)"
| "ser_read ba TInt64 t = retag VInt64 (readInt64 ba)"
| "ser_read ba TUint64 t = retag VUint64 (readUint64 ba)"
| "ser_read ba TString t = retag VString (readStringVint ba)"
| "ser_read ba TOther t = Inr (t, ba)"

section \<open>Containers\<close>

fun put_each :: "(bytearray \<Rightarrow> 'a \<Rightarrow> bytearray res) \<Rightarrow> bytearray \<Rightarrow> 'a list \<Rightarrow> bytearray res" where
  "put_each put ba [] = Inr ba"
| "put_each put ba (t # ts) = bindE (put ba t) (\<lambda>ba. put_each put ba ts)"

definition put_range :: "(bytearray \<Rightarrow> 'a \<Rightarrow> bytearray res) \<Rightarrow> bytearray \<Rightarrow> 'a list \<Rightarrow> bytearray res" where
  "put_range put ba ts =
     bindE (writeUint64 ba (of_nat (length ts))) (\<lambda>ba. put_each put ba ts)"

fun get_each :: "(bytearray \<Rightarrow> ('a \<times> bytearray) res) \<Rightarrow> ('c \<Rightarrow> 'a \<Rightarrow> 'c) \<Rightarrow> nat \<Rightarrow>
    bytearray \<Rightarrow> 'c \<Rightarrow> ('c \<times> bytearray) res" where
  "get_each get emplace 0 ba v = Inr (v, ba)"
| "get_each get emplace (Suc n) ba v =
     bindE (get ba) (\<lambda>(t, ba). get_each get emplace n ba (emplace v t))"

definition get_range :: "(bytearray \<Rightarrow> ('a \<times> bytearray) res) \<Rightarrow> ('c \<Rightarrow> 'a \<Rightarrow> 'c) \<Rightarrow>
    bytearray \<Rightarrow> 'c \<Rightarrow> ('c \<times> bytearray) res" where
  "get_range get emplace ba v =
     bindE (readUint64 ba) (\<lambda>(sz, ba). get_each get emplace (unat sz) ba v)"

text \<open>\<open>emplace\<close> of the ordered containers: at its place, for the unique ones unless present.\<close>

fun set_emplace :: "('a::linorder) list \<Rightarrow> 'a \<Rightarrow> 'a list" where
  "set_emplace [] t = [t]"
| "set_emplace (x # xs) t =
     (if t < x then t # x # xs else if t = x then x # xs else x # set_emplace xs t)"

fun multiset_emplace :: "('a::linorder) list \<Rightarrow> 'a \<Rightarrow> 'a list" where
  "multiset_emplace [] t = [t]"
| "multiset_emplace (x # xs) t = (if t < x then t # x # xs else x # multiset_emplace xs t)"

fun map_emplace :: "('k::linorder \<times> 'v) list \<Rightarrow> 'k \<times> 'v \<Rightarrow> ('k \<times> 'v) list" where
  "map_emplace [] t = [t]"
| "map_emplace (x # xs) t =
     (if fst t < fst x then t # x # xs else if fst t = fst x then x # xs else x # map_emplace xs t)"

fun multimap_emplace :: "('k::linorder \<times> 'v) list \<Rightarrow> 'k \<times> 'v \<Rightarrow> ('k \<times> 'v) list" where
  "multimap_emplace [] t = [t]"
| "multimap_emplace (x # xs) t =
     (if fst t < fst x then t # x # xs else x # multimap_emplace xs t)"

definition put_list where "put_list put ba v = put_range put ba (v :: 'a list)"
definition get_list where "get_list get ba v = get_range get (\<lambda>v t. v @ [t]) ba (v :: 'a list)"
definition put_vector where "put_vector put ba v = put_range put ba (v :: 'a list)"
definition get_vector where "get_vector get ba v = get_range get (\<lambda>v t. v @ [t]) ba (v :: 'a list)"
definition put_set where "put_set put ba v = put_range put ba (v :: 'a::linorder list)"
definition get_set where "get_set get ba v = get_range get set_emplace ba (v :: 'a::linorder list)"
definition put_multiset where "put_multiset put ba v = put_range put ba (v :: 'a::linorder list)"
definition get_multiset where
  "get_multiset get ba v = get_range get multiset_emplace ba (v :: 'a::linorder list)"
definition put_unordered_set where
  "put_unordered_set put ba order = put_range put ba (order :: 'a list)"
definition get_unordered_set where
  "get_unordered_set get ba v = get_range get (\<lambda>v t. insert t v) ba (v :: 'a set)"
definition put_unordered_multiset where
  "put_unordered_multiset put ba order = put_range put ba (order :: 'a list)"
definition get_unordered_multiset where
  "get_unordered_multiset get ba v = get_range get (\<lambda>v t. add_mset t v) ba (v :: 'a multiset)"

definition put_pair :: "(bytearray \<Rightarrow> 'k \<Rightarrow> bytearray res) \<Rightarrow> (bytearray \<Rightarrow> 'v \<Rightarrow> bytearray res) \<Rightarrow>
    bytearray \<Rightarrow> 'k \<times> 'v \<Rightarrow> bytearray res" where
  "put_pair putk putv ba v = bindE (putk ba (fst v)) (\<lambda>ba. putv ba (snd v))"

definition get_pair :: "(bytearray \<Rightarrow> ('k \<times> bytearray) res) \<Rightarrow>
    (bytearray \<Rightarrow> ('v \<times> bytearray) res) \<Rightarrow> bytearray \<Rightarrow> (('k \<times> 'v) \<times> bytearray) res" where
  "get_pair getk getv ba =
     bindE (getk ba) (\<lambda>(k, ba). bindE (getv ba) (\<lambda>(v, ba). Inr ((k, v), ba)))"

definition put_map where
  "put_map putk putv ba v = put_range (put_pair putk putv) ba (v :: ('k::linorder \<times> 'v) list)"
definition get_map where
  "get_map getk getv ba v =
     get_range (get_pair getk getv) map_emplace ba (v :: ('k::linorder \<times> 'v) list)"
definition put_multimap where
  "put_multimap putk putv ba v = put_range (put_pair putk putv) ba (v :: ('k::linorder \<times> 'v) list)"
definition get_multimap where
  "get_multimap getk getv ba v =
     get_range (get_pair getk getv) multimap_emplace ba (v :: ('k::linorder \<times> 'v) list)"
definition put_unordered_map where
  "put_unordered_map putk putv ba order = put_range (put_pair putk putv) ba (order :: ('k \<times> 'v) list)"
definition get_unordered_map where
  "get_unordered_map getk getv ba v =
     get_range (get_pair getk getv)
       (\<lambda>v t. if v (fst t) = None then v(fst t \<mapsto> snd t) else v) ba (v :: 'k \<rightharpoonup> 'v)"
definition put_unordered_multimap where
  "put_unordered_multimap putk putv ba order =
     put_range (put_pair putk putv) ba (order :: ('k \<times> 'v) list)"
definition get_unordered_multimap where
  "get_unordered_multimap getk getv ba v =
     get_range (get_pair getk getv) (\<lambda>v t. add_mset t v) ba (v :: ('k \<times> 'v) multiset)"

section \<open>Tuples\<close>

text \<open>The recursion of the templates: first the components below, then component \<open>N - 1\<close>.\<close>

fun tuple_serialize :: "sval list \<Rightarrow> nat \<Rightarrow> bytearray \<Rightarrow> bytearray res" where
  "tuple_serialize t 0 ba = Inr ba"
| "tuple_serialize t (Suc n) ba =
     bindE (tuple_serialize t n ba) (\<lambda>ba. ser_write ba (t ! n))"

fun tuple_deserialize :: "sty list \<Rightarrow> sval list \<Rightarrow> nat \<Rightarrow> bytearray \<Rightarrow> (sval list \<times> bytearray) res" where
  "tuple_deserialize ts t 0 ba = Inr (t, ba)"
| "tuple_deserialize ts t (Suc n) ba =
     bindE (tuple_deserialize ts t n ba)
       (\<lambda>(t, ba). bindE (ser_read ba (ts ! n) (t ! n)) (\<lambda>(v, ba). Inr (t[n := v], ba)))"

definition put_tuple :: "bytearray \<Rightarrow> sval list \<Rightarrow> bytearray res" where
  "put_tuple ba t = tuple_serialize t (length t) ba"

definition get_tuple :: "bytearray \<Rightarrow> sty list \<Rightarrow> sval list \<Rightarrow> (sval list \<times> bytearray) res" where
  "get_tuple ba ts t = tuple_deserialize ts t (length ts) ba"

section \<open>Scalars keep the codec contract\<close>

fun sval_enc :: "sval \<Rightarrow> bytes" where
  "sval_enc (VBool b) = [if b then 1 else 0]"
| "sval_enc (VFloat v) = obj_bytes 4 v"
| "sval_enc (VDouble v) = obj_bytes 8 v"
| "sval_enc (VInt8 v) = [v]"
| "sval_enc (VUint8 v) = [v]"
| "sval_enc (VInt16 v) = obj_bytes 2 v"
| "sval_enc (VUint16 v) = obj_bytes 2 v"
| "sval_enc (VInt32 v) = varint_bytes32 (EncodeZigzag32 v)"
| "sval_enc (VUint32 v) = varint_bytes32 v"
| "sval_enc (VInt64 v) = varint_bytes64 (EncodeZigzag64 v)"
| "sval_enc (VUint64 v) = varint_bytes64 v"
| "sval_enc (VString s) = vint.enc_string s"
| "sval_enc (VCharPtr s) = vint.enc_string s"
| "sval_enc (VOther n) = []"

text \<open>
  The values of each type that the wire carries: those of the types both chains know. A character
  pointer has a branch in \<open>write\<close> only, so it has no type to read it back with.
\<close>

fun sval_ty :: "sval \<Rightarrow> sty" where
  "sval_ty (VBool b) = TBool"
| "sval_ty (VFloat v) = TFloat"
| "sval_ty (VDouble v) = TDouble"
| "sval_ty (VInt8 v) = TInt8"
| "sval_ty (VUint8 v) = TUint8"
| "sval_ty (VInt16 v) = TInt16"
| "sval_ty (VUint16 v) = TUint16"
| "sval_ty (VInt32 v) = TInt32"
| "sval_ty (VUint32 v) = TUint32"
| "sval_ty (VInt64 v) = TInt64"
| "sval_ty (VUint64 v) = TUint64"
| "sval_ty (VString s) = TString"
| "sval_ty (VCharPtr s) = TOther"
| "sval_ty (VOther n) = TOther"

definition sval_ok :: "sty \<Rightarrow> sval \<Rightarrow> bool" where
  "sval_ok ty v \<longleftrightarrow> sval_ty v = ty \<and> ty \<noteq> TOther \<and>
     (case v of VString s \<Rightarrow> length s \<le> string_max_size | _ \<Rightarrow> True)"

lemma vint_fits: "vint.fits s \<longleftrightarrow> length s \<le> string_max_size"
  by (auto simp: vint.fits_def string_max_size_def)

lemma ser_write_wrote:
  assumes "ba_inv ba"
  shows "\<exists>ba'. ser_write ba v = Inr ba' \<and> wrote ba (sval_enc v) ba'"
proof (cases v)
  case (VBool b)
  then show ?thesis using fint8.put_law [OF assms TrueI, of "if b then 1 else 0"] by simp
next
  case (VOther n)
  then show ?thesis using assms by (simp add: wrote_refl)
qed (use assms float.put_law double.put_law fint8.put_law fuint8.put_law fint16.put_law
      fuint16.put_law int32.put_law uint32.put_law int64.put_law uint64.put_law
      vint.put_string_law [unfolded string_codecs] in \<open>simp_all\<close>)

lemma retag_consumed:
  "\<exists>ba'. r = Inr (x, ba') \<and> consumed ba bs ba' \<Longrightarrow> f x = v \<Longrightarrow>
   \<exists>ba'. retag f r = Inr (v, ba') \<and> consumed ba bs ba'"
  by (auto simp: retag_def)

lemma ser_read_consumed:
  assumes "ba_inv ba" "sval_ok ty v" "ahead ba = sval_enc v @ rest"
  shows "\<exists>ba'. ser_read ba ty t = Inr (v, ba') \<and> consumed ba (sval_enc v) ba'"
proof (cases v)
  case (VBool b)
  then show ?thesis
    using fint8.get_law [OF assms(1) TrueI, of "if b then 1 else 0" rest] assms(2,3)
    by (auto simp: retag_def sval_ok_def)
next
  case (VString s)
  then show ?thesis
    using strVint.get_law [OF assms(1), of s rest] assms(2,3)
    by (auto simp: retag_def vint_fits sval_ok_def)
next
  case (VInt8 v)
  then show ?thesis
    using fint8.get_law [OF assms(1) TrueI, of v rest] assms(2,3) by (auto simp: retag_def sval_ok_def)
next
  case (VUint8 v)
  then show ?thesis
    using fuint8.get_law [OF assms(1) TrueI, of v rest] assms(2,3) by (auto simp: retag_def sval_ok_def)
qed (use assms(2,3) in \<open>auto simp: retag_def sval_ok_def
      dest: float.get_law [OF assms(1) TrueI] double.get_law [OF assms(1) TrueI]
        fint16.get_law [OF assms(1) TrueI]  fuint16.get_law [OF assms(1) TrueI]
        int32.get_law [OF assms(1) TrueI] uint32.get_law [OF assms(1) TrueI]
        int64.get_law [OF assms(1) TrueI] uint64.get_law [OF assms(1) TrueI]\<close>)

interpretation scalar: codec ser_write "\<lambda>ba. ser_read ba ty t" sval_enc "sval_ok ty" for ty t
proof
  show "\<exists>ba'. ser_write ba x = Inr ba' \<and> wrote ba (sval_enc x) ba'" if "ba_inv ba" for ba x
    using that by (rule ser_write_wrote)
  show "\<exists>ba'. ser_read ba ty t = Inr (x, ba') \<and> consumed ba (sval_enc x) ba'"
    if "ba_inv ba" "sval_ok ty x" "ahead ba = sval_enc x @ rest" for ba x rest
    using that by (rule ser_read_consumed)
qed

section \<open>Containers over any element codec\<close>

context codec
begin

definition enc_range :: "'a list \<Rightarrow> bytes" where
  "enc_range xs = varint_bytes64 (of_nat (length xs)) @ concat (map enc xs)"

lemma put_each_wrote:
  "ba_inv ba \<Longrightarrow> \<forall>x \<in> set xs. ok x \<Longrightarrow>
   \<exists>ba'. put_each put ba xs = Inr ba' \<and> wrote ba (concat (map enc xs)) ba'"
proof (induction xs arbitrary: ba)
  case Nil
  then show ?case by (simp add: wrote_refl)
next
  case (Cons x xs)
  then obtain ba1 where ba1: "put ba x = Inr ba1" "wrote ba (enc x) ba1"
    using put_law [of ba x] by auto
  obtain ba2 where "put_each put ba1 xs = Inr ba2" "wrote ba1 (concat (map enc xs)) ba2"
    using Cons.IH [OF wrote_inv [OF ba1(2)]] Cons.prems(2) by auto
  then show ?case using ba1 wrote_trans [OF ba1(2)] by simp
qed

lemma put_range_wrote:
  assumes "ba_inv ba" "\<forall>x \<in> set xs. ok x"
  shows "\<exists>ba'. put_range put ba xs = Inr ba' \<and> wrote ba (enc_range xs) ba'"
proof -
  obtain ba1 where ba1: "writeUint64 ba (of_nat (length xs)) = Inr ba1"
    "wrote ba (varint_bytes64 (of_nat (length xs))) ba1"
    using uint64.put_law [OF assms(1) TrueI] by blast
  obtain ba2 where "put_each put ba1 xs = Inr ba2" "wrote ba1 (concat (map enc xs)) ba2"
    using put_each_wrote [OF wrote_inv [OF ba1(2)] assms(2)] by blast
  then show ?thesis
    using ba1 wrote_trans [OF ba1(2)] by (simp add: put_range_def enc_range_def)
qed

lemma get_each_consumed:
  "ba_inv ba \<Longrightarrow> \<forall>x \<in> set xs. ok x \<Longrightarrow> ahead ba = concat (map enc xs) @ rest \<Longrightarrow>
   \<exists>ba'. get_each get emplace (length xs) ba v = Inr (foldl emplace v xs, ba') \<and>
     consumed ba (concat (map enc xs)) ba'"
proof (induction xs arbitrary: ba v)
  case Nil
  then show ?case by (simp add: consumed_refl)
next
  case (Cons x xs)
  have ah: "ahead ba = enc x @ concat (map enc xs) @ rest" using Cons.prems(3) by simp
  obtain ba1 where ba1: "get ba = Inr (x, ba1)" "consumed ba (enc x) ba1"
    using get_law [OF Cons.prems(1) _ ah] Cons.prems(2) by auto
  obtain ba2 where ba2: "get_each get emplace (length xs) ba1 (emplace v x) =
      Inr (foldl emplace (emplace v x) xs, ba2)" "consumed ba1 (concat (map enc xs)) ba2"
    using Cons.IH [OF consumed_inv [OF ba1(2)] _ consumed_ahead [OF ba1(2) ah]] Cons.prems(2)
    by fastforce
  then show ?case using ba1 consumed_trans [OF ba1(2) ba2(2)] by simp
qed

lemma get_range_consumed:
  assumes "ba_inv ba" "\<forall>x \<in> set xs. ok x" "length xs < 2 ^ 64" "ahead ba = enc_range xs @ rest"
  shows "\<exists>ba'. get_range get emplace ba v = Inr (foldl emplace v xs, ba') \<and>
    consumed ba (enc_range xs) ba'"
proof -
  let ?n = "of_nat (length xs) :: u64"
  have ah: "ahead ba = varint_bytes64 ?n @ concat (map enc xs) @ rest"
    using assms(4) by (simp add: enc_range_def)
  have n: "unat ?n = length xs" using assms(3) by (simp add: unat_of_nat)
  obtain ba1 where ba1: "readUint64 ba = Inr (?n, ba1)" "consumed ba (varint_bytes64 ?n) ba1"
    using uint64.get_law [OF assms(1) TrueI ah] by blast
  obtain ba2 where ba2: "get_each get emplace (length xs) ba1 v = Inr (foldl emplace v xs, ba2)"
    "consumed ba1 (concat (map enc xs)) ba2"
    using get_each_consumed [OF consumed_inv [OF ba1(2)] assms(2) consumed_ahead [OF ba1(2) ah],
        of emplace v] by blast
  have "get_range get emplace ba v = Inr (foldl emplace v xs, ba2)"
    by (simp only: get_range_def ba1(1) bindE.simps prod.case n ba2(1))
  then show ?thesis
    using consumed_trans [OF ba1(2) ba2(2)] unfolding enc_range_def by blast
qed

text \<open>Writing a range and reading it back emplaces its elements in order.\<close>

lemma range_put_seek_get:
  assumes "ba_inv ba" "\<forall>x \<in> set xs. ok x" "length xs < 2 ^ 64"
  shows "\<exists>ba1 ba2 ba3. put_range put ba xs = Inr ba1 \<and>
    ByteArray_setPosition ba1 (ba_pos ba) = Inr ba2 \<and>
    get_range get emplace ba2 v = Inr (foldl emplace v xs, ba3) \<and>
    behind ba3 = behind ba1 \<and> ahead ba3 = ahead ba1"
proof -
  obtain ba1 where ba1: "put_range put ba xs = Inr ba1" "wrote ba (enc_range xs) ba1"
    using put_range_wrote [OF assms(1,2)] by blast
  obtain ba2 where ba2: "ByteArray_setPosition ba1 (ba_pos ba) = Inr ba2" "ba_inv ba2"
    "behind ba2 = behind ba" "ahead ba2 = enc_range xs @ ahead ba1"
    using rewind [OF assms(1) ba1(2)] by blast
  obtain ba3 where ba3: "get_range get emplace ba2 v = Inr (foldl emplace v xs, ba3)"
    "consumed ba2 (enc_range xs) ba3"
    using get_range_consumed [OF ba2(2) assms(2,3) ba2(4), of emplace v] by blast
  have "behind ba3 = behind ba1"
    using ba3(2) ba2(3) ba1(2) unfolding consumed_def wrote_def by simp
  then show ?thesis
    using ba1(1) ba2(1) ba3(1) consumed_ahead [OF ba3(2) ba2(4)] by blast
qed

end

context pair_codec
begin

lemma ser_pair_codec: "codec (Serializer.put_pair put1 put2) (Serializer.get_pair get1 get2) enc_pair ok_pair"
proof -
  have "put_pair = Serializer.put_pair put1 put2" "get_pair = Serializer.get_pair get1 get2"
    by (simp_all add: fun_eq_iff put_pair_def get_pair_def Serializer.put_pair_def
        Serializer.get_pair_def)
  then show ?thesis using pair.codec_axioms by simp
qed

end

section \<open>Emplacing the iteration order rebuilds the container\<close>

lemma foldl_append_singletons: "foldl (\<lambda>v t. v @ [t]) v xs = v @ xs"
  by (induction xs arbitrary: v) auto

lemma set_emplace_last: "\<forall>y \<in> set ys. y < x \<Longrightarrow> set_emplace ys x = ys @ [x]"
  by (induction ys) (auto simp: not_less_iff_gr_or_eq)

lemma multiset_emplace_last: "\<forall>y \<in> set ys. y \<le> x \<Longrightarrow> multiset_emplace ys x = ys @ [x]"
  by (induction ys) auto

lemma map_emplace_last: "\<forall>y \<in> set ys. fst y < fst x \<Longrightarrow> map_emplace ys x = ys @ [x]"
  by (induction ys) (auto simp: not_less_iff_gr_or_eq)

lemma multimap_emplace_last: "\<forall>y \<in> set ys. fst y \<le> fst x \<Longrightarrow> multimap_emplace ys x = ys @ [x]"
  by (induction ys) auto

lemma foldl_emplace_last:
  assumes "\<And>ys x. \<forall>y \<in> set ys. R y x \<Longrightarrow> f ys x = ys @ [x]" "sorted_wrt R (v @ xs)"
  shows "foldl f v xs = v @ xs"
  using assms(2)
proof (induction xs arbitrary: v)
  case Nil
  then show ?case by simp
next
  case (Cons x xs)
  then show ?case using assms(1) [of v x] Cons.IH [of "v @ [x]"] by (auto simp: sorted_wrt_append)
qed

lemmas foldl_set_emplace = foldl_emplace_last [of "(<)" set_emplace, OF set_emplace_last]
lemmas foldl_multiset_emplace = foldl_emplace_last [of "(\<le>)" multiset_emplace, OF multiset_emplace_last]
lemmas foldl_map_emplace =
  foldl_emplace_last [of "\<lambda>x y. fst x < fst y" map_emplace, OF map_emplace_last]
lemmas foldl_multimap_emplace =
  foldl_emplace_last [of "\<lambda>x y. fst x \<le> fst y" multimap_emplace, OF multimap_emplace_last]

lemma foldl_insert: "foldl (\<lambda>v t. insert t v) v xs = v \<union> set xs"
  by (induction xs arbitrary: v) auto

lemma foldl_add_mset: "foldl (\<lambda>v t. add_mset t v) v xs = v + mset xs"
  by (induction xs arbitrary: v) auto

lemma foldl_map_insert:
  "foldl (\<lambda>v t. if v (fst t) = None then v(fst t \<mapsto> snd t) else v) m xs = map_of xs ++ m"
proof (induction xs arbitrary: m)
  case Nil
  then show ?case by simp
next
  case (Cons x xs)
  show ?case
    by (cases "m (fst x)") (auto simp: Cons.IH fun_eq_iff map_add_def split: option.splits)
qed

section \<open>Tuples and whole messages\<close>

lemma take_Suc_map_concat:
  "n < length t \<Longrightarrow> concat (map f (take (Suc n) t)) = concat (map f (take n t)) @ f (t ! n)"
  by (simp add: take_Suc_conv_app_nth)

lemma tuple_serialize_wrote:
  "ba_inv ba \<Longrightarrow> n \<le> length t \<Longrightarrow>
   \<exists>ba'. tuple_serialize t n ba = Inr ba' \<and> wrote ba (concat (map sval_enc (take n t))) ba'"
proof (induction n)
  case 0
  then show ?case by (simp add: wrote_refl)
next
  case (Suc n)
  then obtain ba1 where ba1: "tuple_serialize t n ba = Inr ba1"
    "wrote ba (concat (map sval_enc (take n t))) ba1" by auto
  obtain ba2 where "ser_write ba1 (t ! n) = Inr ba2" "wrote ba1 (sval_enc (t ! n)) ba2"
    using ser_write_wrote [OF wrote_inv [OF ba1(2)]] by blast
  then show ?case
    using ba1 wrote_trans [OF ba1(2)] Suc.prems(2) by (simp add: take_Suc_map_concat)
qed

lemma tuple_deserialize_consumed:
  "ba_inv ba \<Longrightarrow> list_all2 sval_ok ts t \<Longrightarrow> length t0 = length t \<Longrightarrow> n \<le> length t \<Longrightarrow>
   ahead ba = concat (map sval_enc (take n t)) @ rest \<Longrightarrow>
   \<exists>ba'. tuple_deserialize ts t0 n ba = Inr (take n t @ drop n t0, ba') \<and>
     consumed ba (concat (map sval_enc (take n t))) ba'"
proof (induction n arbitrary: rest)
  case 0
  then show ?case by (simp add: consumed_refl)
next
  case (Suc n)
  let ?e = "concat (map sval_enc (take n t))" and ?t = "take n t @ drop n t0"
  have n: "n < length t" "sval_ok (ts ! n) (t ! n)"
    using Suc.prems(2,4) by (auto simp: list_all2_conv_all_nth)
  have ah: "ahead ba = ?e @ sval_enc (t ! n) @ rest"
    using Suc.prems(5) n(1) by (simp add: take_Suc_map_concat)
  obtain ba1 where ba1: "tuple_deserialize ts t0 n ba = Inr (?t, ba1)" "consumed ba ?e ba1"
    using Suc.IH [OF Suc.prems(1-3) _ ah] n(1) by auto
  obtain ba2 where ba2: "ser_read ba1 (ts ! n) (?t ! n) = Inr (t ! n, ba2)"
    "consumed ba1 (sval_enc (t ! n)) ba2"
    using ser_read_consumed [OF consumed_inv [OF ba1(2)] n(2) consumed_ahead [OF ba1(2) ah]] by blast
  have "?t[n := t ! n] = take (Suc n) t @ drop (Suc n) t0"
    using n(1) Suc.prems(3)
    by (simp add: take_Suc_conv_app_nth list_update_append flip: Cons_nth_drop_Suc)
  then have "tuple_deserialize ts t0 (Suc n) ba = Inr (take (Suc n) t @ drop (Suc n) t0, ba2)"
    using ba1(1) ba2(1) by simp
  then show ?case
    using consumed_trans [OF ba1(2) ba2(2)] unfolding take_Suc_map_concat [OF n(1)] by blast
qed

definition tuple_enc :: "sval list \<Rightarrow> bytes" where
  "tuple_enc t = concat (map sval_enc t)"

lemma put_tuple_wrote:
  "ba_inv ba \<Longrightarrow> \<exists>ba'. put_tuple ba t = Inr ba' \<and> wrote ba (tuple_enc t) ba'"
  using tuple_serialize_wrote [of ba "length t" t] by (simp add: put_tuple_def tuple_enc_def)

lemma get_tuple_consumed:
  assumes "ba_inv ba" "list_all2 sval_ok ts t" "length t0 = length ts" "ahead ba = tuple_enc t @ rest"
  shows "\<exists>ba'. get_tuple ba ts t0 = Inr (t, ba') \<and> consumed ba (tuple_enc t) ba'"
  using tuple_deserialize_consumed [OF assms(1,2), of t0 "length t" rest] assms
  by (simp add: get_tuple_def tuple_enc_def list_all2_lengthD)

lemma new_Serializer_inv [simp]: "ba_inv (new_Serializer fill)"
  by (simp add: new_Serializer_def ba_inv_new_ByteArray default_base_def)

lemma views_new_Serializer [simp]:
  "behind (new_Serializer fill) = []" "ahead (new_Serializer fill) = []"
  by (simp_all add: new_Serializer_def)

text \<open>After \<open>reset\<close>, everything written lies ahead.\<close>

lemma ser_reset_view:
  assumes "ba_inv ba"
  shows "\<exists>ba'. ser_reset ba = Inr ba' \<and> ba_inv ba' \<and> behind ba' = [] \<and> ahead ba' = ba_content ba"
  using ByteArray_setPosition_view [OF assms, of 0] by (simp add: ser_reset_def)

lemma Serializer_content_view:
  "\<exists>ba. Serializer_content fill c = Inr ba \<and> ba_inv ba \<and> behind ba = [] \<and> ahead ba = c"
proof -
  obtain ba where "ByteArray_write (new_Serializer fill) c = Inr ba" "ba_inv ba" "ba_content ba = c"
    using ByteArray_write_wrote [OF new_Serializer_inv, of fill c]
    by (auto simp: wrote_def ba_content_def)
  then show ?thesis
    using ser_reset_view [of ba]
    by (auto simp: Serializer_content_def ser_writeRowData_def new_Serializer_def)
qed

text \<open>Behind the content, the buffer still holds the bytes of the fresh memory.\<close>

lemma Serializer_content_mem:
  assumes "length c < default_base"
  shows "\<exists>ba. Serializer_content fill c = Inr ba \<and> ba_inv ba \<and> behind ba = [] \<and> ahead ba = c \<and>
    default_base \<le> ba_cap ba \<and>
    (\<forall>i. length c \<le> i \<and> i < default_base \<longrightarrow> ba_mem ba ! i = fill 0 i)"
proof -
  let ?new = "new_Serializer fill"
  have new: "ba_pos ?new = 0" "ba_mem ?new = map (fill 0) [0..<default_base]"
    by (simp_all add: new_Serializer_def new_ByteArray_def ba_mem_def new_Node_def)
  obtain ba junk where ba: "ByteArray_write ?new c = Inr ba" "ba_inv ba" "ba_content ba = c"
    "ba_mem ba = overwrite 0 c (ba_mem ?new @ junk)"
    using ByteArray_write_mem [OF new_Serializer_inv, of fill c] new(1)
    by (auto simp: wrote_def ba_content_def)
  have cap: "ba_cap ba = length (ba_mem ba)" using ba(2) by (simp add: length_ba_mem ba_inv_shape)
  then have "default_base \<le> ba_cap ba"
    using ba(4) assms by (simp add: overwrite_def new(2))
  moreover have "ba_mem ba ! i = fill 0 i" if "length c \<le> i" "i < default_base" for i
    using that ba(4) diff_less_mono [OF that(2,1)] by (simp add: overwrite_def new(2) nth_append)
  moreover have "ser_reset ba = Inr (ba\<lparr>ba_pos := 0, ba_curr := 0\<rparr>)"
    using ba(2) by (simp add: ser_reset_def ByteArray_setPosition_eq ba_inv_def)
  ultimately show ?thesis
    using ba(1,3) ser_reset_view [OF ba(2)]
    by (auto simp: Serializer_content_def ser_writeRowData_def new_Serializer_def ba_mem_def)
qed

lemmas sequence_defs =
  put_vector_def get_vector_def put_list_def get_list_def put_unordered_set_def
  get_unordered_set_def put_unordered_multiset_def get_unordered_multiset_def

lemmas ordered_defs =
  put_set_def get_set_def put_multiset_def get_multiset_def put_map_def get_map_def
  put_multimap_def get_multimap_def

section \<open>Properties\<close>

text \<open>
  Sequences and unordered containers: for any element type with a correct writer and reader,
  and any container already holding \<open>v\<close>, reading back what was written appends to a list or vector
  exactly the elements written, in order, and adds to an unordered set or multiset exactly these
  elements; the cursor ends where the writing ended.
\<close>

theorem sequence_roundtrip:
  assumes "codec put get enc ok" "ba_inv ba" "\<forall>x \<in> set xs. ok x" "length xs < 2 ^ 64"
  shows "\<exists>ba1 ba2. put_vector put ba xs = Inr ba1 \<and> put_list put ba xs = Inr ba1 \<and>
    put_unordered_set put ba xs = Inr ba1 \<and> put_unordered_multiset put ba xs = Inr ba1 \<and>
    ByteArray_setPosition ba1 (ba_pos ba) = Inr ba2 \<and>
    (\<exists>ba3. get_vector get ba2 v = Inr (v @ xs, ba3) \<and> ahead ba3 = ahead ba1) \<and>
    (\<exists>ba3. get_list get ba2 v = Inr (v @ xs, ba3) \<and> ahead ba3 = ahead ba1) \<and>
    (\<exists>ba3. get_unordered_set get ba2 s = Inr (s \<union> set xs, ba3) \<and> ahead ba3 = ahead ba1) \<and>
    (\<exists>ba3. get_unordered_multiset get ba2 m = Inr (m + mset xs, ba3) \<and> ahead ba3 = ahead ba1)"
proof -
  note rt = codec.range_put_seek_get [OF assms]
  show ?thesis
    using rt [of "\<lambda>v t. v @ [t]" v] rt [of "\<lambda>v t. insert t v" s] rt [of "\<lambda>v t. add_mset t v" m]
    by (auto simp: sequence_defs foldl_append_singletons foldl_insert foldl_add_mset)
qed

theorem sequence_roundtrip_witness:
  "\<exists>ba1 ba2 ba3. put_vector writeInt32 (new_Serializer (\<lambda>_ _. 7)) [- 1, 300] = Inr ba1 \<and>
    ByteArray_setPosition ba1 0 = Inr ba2 \<and> get_vector readInt32 ba2 [5] = Inr ([5, - 1, 300], ba3)"
  using sequence_roundtrip [OF int32.codec_axioms new_Serializer_inv, of "[- 1, 300]" "\<lambda>_ _. 7" "[5]"
      "{}" "{#}"]
  by (auto simp: new_Serializer_def)

text \<open>
  C35. Ordered containers: a \<open>std::set\<close>, \<open>std::multiset\<close>, \<open>std::map\<close> or \<open>std::multimap\<close>, given by its
  iteration order, read back into an empty container is the same container.
\<close>

theorem ordered_roundtrip:
  assumes "codec put get enc ok" "codec putv getv encv okv" "ba_inv ba"
    "\<forall>x \<in> set xs. ok x" "\<forall>x \<in> set kvs. ok (fst x) \<and> okv (snd x)"
    "length xs < 2 ^ 64" "length kvs < 2 ^ 64"
  shows "(sorted_wrt (<) xs \<longrightarrow> (\<exists>ba1 ba2 ba3. put_set put ba xs = Inr ba1 \<and>
      ByteArray_setPosition ba1 (ba_pos ba) = Inr ba2 \<and> get_set get ba2 [] = Inr (xs, ba3))) \<and>
    (sorted xs \<longrightarrow> (\<exists>ba1 ba2 ba3. put_multiset put ba xs = Inr ba1 \<and>
      ByteArray_setPosition ba1 (ba_pos ba) = Inr ba2 \<and> get_multiset get ba2 [] = Inr (xs, ba3))) \<and>
    (sorted_wrt (<) (map fst kvs) \<longrightarrow> (\<exists>ba1 ba2 ba3. put_map put putv ba kvs = Inr ba1 \<and>
      ByteArray_setPosition ba1 (ba_pos ba) = Inr ba2 \<and> get_map get getv ba2 [] = Inr (kvs, ba3))) \<and>
    (sorted (map fst kvs) \<longrightarrow> (\<exists>ba1 ba2 ba3. put_multimap put putv ba kvs = Inr ba1 \<and>
      ByteArray_setPosition ba1 (ba_pos ba) = Inr ba2 \<and>
      get_multimap get getv ba2 [] = Inr (kvs, ba3)))"
proof -
  note pc = pair_codec.intro [OF assms(1,2)]
  have kvs: "\<forall>x \<in> set kvs. pair_codec.ok_pair ok okv x"
    using assms(5) by (simp add: pair_codec.ok_pair_def [OF pc])
  note rt = codec.range_put_seek_get [OF assms(1,3,4,6), where v = "[]"]
    and rtp = codec.range_put_seek_get [OF pair_codec.ser_pair_codec [OF pc] assms(3) kvs assms(7),
      where v = "[]"]
  show ?thesis
    using rt [of set_emplace] rt [of multiset_emplace] rtp [of map_emplace] rtp [of multimap_emplace]
      foldl_set_emplace [of "[]" xs] foldl_multiset_emplace [of "[]" xs]
      foldl_map_emplace [of "[]" kvs] foldl_multimap_emplace [of "[]" kvs]
    by (auto simp: ordered_defs sorted_wrt_map)
qed

theorem ordered_roundtrip_witness:
  "(\<exists>ba1 ba2 ba3. put_set writeUint32 (new_Serializer (\<lambda>_ _. 7)) [3, 300] = Inr ba1 \<and>
     ByteArray_setPosition ba1 0 = Inr ba2 \<and> get_set readUint32 ba2 [] = Inr ([3, 300], ba3)) \<and>
   (\<exists>ba1 ba2 ba3. put_map writeUint32 writeStringVint (new_Serializer (\<lambda>_ _. 7)) [(1, [65]), (2, [])]
       = Inr ba1 \<and>
     ByteArray_setPosition ba1 0 = Inr ba2 \<and>
     get_map readUint32 readStringVint ba2 [] = Inr ([(1, [65]), (2, [])], ba3))"
  using ordered_roundtrip [OF uint32.codec_axioms strVint.codec_axioms new_Serializer_inv,
      of "[3, 300]" "[(1, [65]), (2, [])]" "\<lambda>_ _. 7"]
  by (simp add: vint_fits string_max_size_def) (simp add: new_Serializer_def)

text \<open>
  C16. A tuple of arguments survives the way of a call: written to a fresh serializer, rewound,
  turned into the content string, put into a serializer by the receiver and read at the same
  types, whatever the receiver's variables held before.
\<close>

theorem tuple_message_roundtrip:
  assumes "list_all2 sval_ok ts t" "length (tuple_enc t) \<le> string_max_size" "length t0 = length ts"
  shows "\<exists>ba1 ba2 content ba3 ba4. put_tuple (new_Serializer fill) t = Inr ba1 \<and>
    ser_reset ba1 = Inr ba2 \<and> ser_toString ba2 = Inr content \<and>
    Serializer_content fill' content = Inr ba3 \<and> get_tuple ba3 ts t0 = Inr (t, ba4) \<and> ahead ba4 = []"
proof -
  obtain ba1 where ba1: "put_tuple (new_Serializer fill) t = Inr ba1" "ba_inv ba1"
    "ba_content ba1 = tuple_enc t"
    using put_tuple_wrote [OF new_Serializer_inv, of fill t] by (auto simp: wrote_def ba_content_def)
  obtain ba2 where ba2: "ser_reset ba1 = Inr ba2" "ba_inv ba2" "ahead ba2 = tuple_enc t"
    using ser_reset_view [OF ba1(2)] ba1(3) by auto
  have "ser_toString ba2 = Inr (tuple_enc t)"
    using ByteArray_toString_ahead [OF ba2(2)] ba2(3) assms(2) by (simp add: ser_toString_def)
  moreover obtain ba3 where ba3: "Serializer_content fill' (tuple_enc t) = Inr ba3" "ba_inv ba3"
    "ahead ba3 = tuple_enc t @ []"
    using Serializer_content_view [of fill' "tuple_enc t"] by auto
  moreover obtain ba4 where "get_tuple ba3 ts t0 = Inr (t, ba4)" "ahead ba4 = []"
    using get_tuple_consumed [OF ba3(2) assms(1,3) ba3(3)] consumed_ahead ba3(3) by blast
  ultimately show ?thesis using ba1(1) ba2(1) by blast
qed

theorem tuple_message_roundtrip_witness:
  "\<exists>ba1 ba2 content ba3 ba4.
    put_tuple (new_Serializer (\<lambda>_ _. 7)) [VInt32 (- 5), VString [1, 2], VBool True] = Inr ba1 \<and>
    ser_reset ba1 = Inr ba2 \<and> ser_toString ba2 = Inr content \<and>
    Serializer_content (\<lambda>_ _. 9) content = Inr ba3 \<and>
    get_tuple ba3 [TInt32, TString, TBool] [VInt32 0, VString [], VBool False] =
      Inr ([VInt32 (- 5), VString [1, 2], VBool True], ba4) \<and> ahead ba4 = []"
proof (rule tuple_message_roundtrip)
  let ?t = "[VInt32 (- 5), VString [1, 2], VBool True]"
  show "list_all2 sval_ok [TInt32, TString, TBool] ?t"
    by (simp add: sval_ok_def string_max_size_def)
  show "length (tuple_enc ?t) \<le> string_max_size"
    using length_varint32 [of "EncodeZigzag32 (- 5)"] length_varint64 [of 2]
    by (simp add: tuple_enc_def vint.enc_string_def string_max_size_def)
qed simp

end
