(* ===== verification/Protocol.thy ===== *)
theory Protocol
  imports Byte_Codec
begin

text \<open>
  The message frame of \<open>include/rpc/protocol.h\<close>: an 11-byte header (magic, version, type, sequence
  id, content length) and the content. \<open>encode\<close> and \<open>encodeMeta\<close> build a fresh buffer and rewind
  it; \<open>decode\<close> and \<open>decodeMeta\<close> overwrite the fields of an existing frame. The enumeration
  \<open>MsgType\<close> has 15 names; a type byte outside them is a value of the enumeration without a name
  (\<open>None\<close> here), which the \<open>switch\<close> statements send to their default branch.
\<close>

section \<open>Frames\<close>

definition MAGIC :: u8 where "MAGIC = 0xaa"
definition VERSION :: u8 where "VERSION = 0x01"
definition BASE_LENGTH :: nat where "BASE_LENGTH = 11"

datatype MsgType =
    HEARTBEAT_PACKET | RPC_REQUEST | RPC_RESPONSE | RPC_METHOD_REQUEST | RPC_METHOD_RESPONSE
  | RPC_SERVICE_DISCOVER | RPC_SERVICE_DISCOVER_RESPONSE | RPC_SERVICE_REGISTER
  | RPC_SERVICE_REGISTER_RESPONSE | RPC_SUBSCRIBE_REQUEST | RPC_SUBSCRIBE_RESPONSE
  | RPC_PUBLISH_REQUEST | RPC_PUBLISH_RESPONSE | RPC_PROVIDER | RPC_CONSUMER

definition MsgTypes :: "MsgType list" where
  "MsgTypes = [HEARTBEAT_PACKET, RPC_REQUEST, RPC_RESPONSE, RPC_METHOD_REQUEST, RPC_METHOD_RESPONSE,
     RPC_SERVICE_DISCOVER, RPC_SERVICE_DISCOVER_RESPONSE, RPC_SERVICE_REGISTER,
     RPC_SERVICE_REGISTER_RESPONSE, RPC_SUBSCRIBE_REQUEST, RPC_SUBSCRIBE_RESPONSE,
     RPC_PUBLISH_REQUEST, RPC_PUBLISH_RESPONSE, RPC_PROVIDER, RPC_CONSUMER]"

text \<open>The underlying value of an enumerator and the conversion back.\<close>

fun msg_code :: "MsgType \<Rightarrow> u8" where
  "msg_code HEARTBEAT_PACKET = 0"
| "msg_code RPC_REQUEST = 1"
| "msg_code RPC_RESPONSE = 2"
| "msg_code RPC_METHOD_REQUEST = 3"
| "msg_code RPC_METHOD_RESPONSE = 4"
| "msg_code RPC_SERVICE_DISCOVER = 5"
| "msg_code RPC_SERVICE_DISCOVER_RESPONSE = 6"
| "msg_code RPC_SERVICE_REGISTER = 7"
| "msg_code RPC_SERVICE_REGISTER_RESPONSE = 8"
| "msg_code RPC_SUBSCRIBE_REQUEST = 9"
| "msg_code RPC_SUBSCRIBE_RESPONSE = 10"
| "msg_code RPC_PUBLISH_REQUEST = 11"
| "msg_code RPC_PUBLISH_RESPONSE = 12"
| "msg_code RPC_PROVIDER = 13"
| "msg_code RPC_CONSUMER = 14"

record protocol =
  p_magic :: u8
  p_version :: u8
  p_type :: u8
  p_sequence_id :: u32
  p_content_length :: u32
  p_content :: bytes

definition new_Protocol :: protocol where
  "new_Protocol = \<lparr>p_magic = MAGIC, p_version = VERSION, p_type = 0, p_sequence_id = 0,
     p_content_length = 0, p_content = []\<rparr>"

definition getMsgType :: "protocol \<Rightarrow> MsgType option" where
  "getMsgType p = find (\<lambda>t. msg_code t = p_type p) MsgTypes"

definition Create :: "MsgType \<Rightarrow> bytes \<Rightarrow> u32 \<Rightarrow> protocol" where
  "Create t content i =
     new_Protocol\<lparr>p_type := msg_code t, p_content := content, p_sequence_id := i,
       p_content_length := of_nat (length content)\<rparr>"

definition HeartBeat :: protocol where
  "HeartBeat = Create HEARTBEAT_PACKET [] 0"

section \<open>Encoding and decoding\<close>

definition encodeMeta :: "(nat \<Rightarrow> nat \<Rightarrow> u8) \<Rightarrow> protocol \<Rightarrow> bytearray res" where
  "encodeMeta fill p =
     bindE (writeFuint8 (new_ByteArray fill default_base) (p_magic p)) (\<lambda>bt.
     bindE (writeFuint8 bt (p_version p)) (\<lambda>bt.
     bindE (writeFuint8 bt (p_type p)) (\<lambda>bt.
     bindE (writeFuint32 bt (p_sequence_id p)) (\<lambda>bt.
     bindE (writeFuint32 bt (of_nat (length (p_content p)))) (\<lambda>bt.
     ByteArray_setPosition bt 0)))))"

definition decodeMeta :: "protocol \<Rightarrow> bytearray \<Rightarrow> (protocol \<times> bytearray) res" where
  "decodeMeta p bt =
     bindE (readFuint8 bt) (\<lambda>(m, bt).
     bindE (readFuint8 bt) (\<lambda>(v, bt).
     bindE (readFuint8 bt) (\<lambda>(t, bt).
     bindE (readFuint32 bt) (\<lambda>(i, bt).
     bindE (readFuint32 bt) (\<lambda>(l, bt).
     Inr (p\<lparr>p_magic := m, p_version := v, p_type := t, p_sequence_id := i, p_content_length := l\<rparr>, bt))))))"

definition encode :: "(nat \<Rightarrow> nat \<Rightarrow> u8) \<Rightarrow> protocol \<Rightarrow> bytearray res" where
  "encode fill p =
     bindE (writeFuint8 (new_ByteArray fill default_base) (p_magic p)) (\<lambda>bt.
     bindE (writeFuint8 bt (p_version p)) (\<lambda>bt.
     bindE (writeFuint8 bt (p_type p)) (\<lambda>bt.
     bindE (writeFuint32 bt (p_sequence_id p)) (\<lambda>bt.
     bindE (writeStringF32 bt (p_content p)) (\<lambda>bt.
     ByteArray_setPosition bt 0)))))"

definition decode :: "protocol \<Rightarrow> bytearray \<Rightarrow> (protocol \<times> bytearray) res" where
  "decode p bt =
     bindE (readFuint8 bt) (\<lambda>(m, bt).
     bindE (readFuint8 bt) (\<lambda>(v, bt).
     bindE (readFuint8 bt) (\<lambda>(t, bt).
     bindE (readFuint32 bt) (\<lambda>(i, bt).
     bindE (readStringF32 bt) (\<lambda>(c, bt).
     Inr (p\<lparr>p_magic := m, p_version := v, p_type := t, p_sequence_id := i, p_content := c,
       p_content_length := of_nat (length c)\<rparr>, bt))))))"

text \<open>
  Streaming: a \<open>uint8_t\<close> goes to a stream as a character, a \<open>uint32_t\<close> in decimal digits.
\<close>

definition protocol_toString :: "protocol \<Rightarrow> bytes" where
  "protocol_toString p =
     lit ''[ magic='' @ [p_magic p] @ lit '' version='' @ [p_version p] @ lit '' type='' @ [p_type p] @
     lit '' id='' @ dec (unat (p_sequence_id p)) @ lit '' length='' @ dec (unat (p_content_length p)) @
     lit '' content='' @ p_content p @ lit '' ]''"

section \<open>The wire format\<close>

definition header_bytes :: "protocol \<Rightarrow> bytes" where
  "header_bytes p = [p_magic p, p_version p, p_type p] @ obj_bytes 4 (p_sequence_id p) @
     obj_bytes 4 (of_nat (length (p_content p)) :: u32)"

lemma length_header_bytes [simp]: "length (header_bytes p) = BASE_LENGTH"
  by (simp add: header_bytes_def BASE_LENGTH_def)

lemma getMsgType_code: "p_type p = msg_code t \<Longrightarrow> getMsgType p = Some t"
  by (cases t) (simp_all add: getMsgType_def MsgTypes_def)

lemma Create_fields [simp]:
  "getMsgType (Create t c i) = Some t" "p_content (Create t c i) = c"
  "p_sequence_id (Create t c i) = i"
  using getMsgType_code [of "Create t c i"] by (simp_all add: Create_def)

text \<open>Both encoders write the header; \<open>encode\<close> writes the content behind it.\<close>

lemma wrote_new_Protocol: "wrote (new_ByteArray fill default_base) [] (new_ByteArray fill default_base)"
  by (rule wrote_refl) (simp add: ba_inv_new_ByteArray default_base_def)

lemma encode_view:
  assumes "f32.fits (p_content p)"
  shows "\<exists>bt. encode fill p = Inr bt \<and> ba_inv bt \<and> behind bt = [] \<and> ahead bt = header_bytes p @ p_content p"
  unfolding encode_def
  apply (rule fuint8.put_next [OF wrote_new_Protocol TrueI])
  apply (erule fuint8.put_next [OF _ TrueI])+
  apply (erule fuint32.put_next [OF _ TrueI])
  apply (erule strF32.put_next [OF _ assms])
  apply (drule rewind_new)
  apply (simp add: header_bytes_def f32.enc_string_def)
  done

lemma encodeMeta_view:
  "\<exists>bt. encodeMeta fill p = Inr bt \<and> ba_inv bt \<and> behind bt = [] \<and> ahead bt = header_bytes p"
  unfolding encodeMeta_def
  apply (rule fuint8.put_next [OF wrote_new_Protocol TrueI])
  apply (erule fuint8.put_next [OF _ TrueI])+
  apply (erule fuint32.put_next [OF _ TrueI])+
  apply (drule rewind_new)
  apply (simp add: header_bytes_def)
  done

lemma decodeMeta_view:
  assumes "ba_inv bt" "ahead bt = header_bytes p @ rest"
  shows "\<exists>r. decodeMeta q bt = Inr r \<and>
    fst r = p\<lparr>p_content := p_content q, p_content_length := of_nat (length (p_content p))\<rparr> \<and>
    ba_inv (snd r) \<and> ahead (snd r) = rest"
proof -
  have ah: "ahead bt = obj_bytes 1 (p_magic p) @ obj_bytes 1 (p_version p) @ obj_bytes 1 (p_type p) @
      obj_bytes 4 (p_sequence_id p) @ obj_bytes 4 (of_nat (length (p_content p)) :: u32) @ rest"
    using assms(2) by (simp add: header_bytes_def)
  show ?thesis
    unfolding decodeMeta_def
    apply (rule fuint8.get_next [OF assms(1) ah TrueI], unfold prod.case)
    apply (rule fuint8.get_next [OF _ _ TrueI], assumption, assumption, unfold prod.case)+
    apply (rule fuint32.get_next [OF _ _ TrueI], assumption, assumption, unfold prod.case)+
    apply simp
    done
qed

lemma decode_view:
  assumes "ba_inv bt" "f32.fits (p_content p)" "ahead bt = header_bytes p @ p_content p @ rest"
  shows "\<exists>r. decode q bt = Inr r \<and> fst r = p\<lparr>p_content_length := of_nat (length (p_content p))\<rparr> \<and>
    ba_inv (snd r) \<and> ahead (snd r) = rest"
proof -
  have ah: "ahead bt = obj_bytes 1 (p_magic p) @ obj_bytes 1 (p_version p) @ obj_bytes 1 (p_type p) @
      obj_bytes 4 (p_sequence_id p) @ f32.enc_string (p_content p) @ rest"
    using assms(3) by (simp add: header_bytes_def f32.enc_string_def)
  show ?thesis
    unfolding decode_def
    apply (rule fuint8.get_next [OF assms(1) ah TrueI], unfold prod.case)
    apply (rule fuint8.get_next [OF _ _ TrueI], assumption, assumption, unfold prod.case)+
    apply (rule fuint32.get_next [OF _ _ TrueI], assumption, assumption, unfold prod.case)
    apply (rule strF32.get_next [OF _ _ assms(2)], assumption, assumption, unfold prod.case)
    apply simp
    done
qed

lemma f32_fits: "f32.fits c \<longleftrightarrow> length c < 2 ^ 32"
  by (auto simp: f32.fits_def string_max_size_def)

section \<open>Properties\<close>

text \<open>
  C15. The wire format is the documented one: \<open>encode\<close> always succeeds on a content below \<open>2 ^ 32\<close>
  bytes and yields, rewound, the three single bytes, the sequence id and the content length as
  4-byte little-endian integers (11 bytes in all) and the content; decoding it into any frame
  restores every field and consumes it exactly.
\<close>

theorem encode_decode:
  assumes "length (p_content p) < 2 ^ 32"
  shows "\<exists>bt q' bt'. encode fill p = Inr bt \<and> behind bt = [] \<and>
    ahead bt = [p_magic p, p_version p, p_type p] @ le_bytes 4 (unat (p_sequence_id p)) @
      le_bytes 4 (length (p_content p)) @ p_content p \<and>
    decode q bt = Inr (q', bt') \<and> q' = p\<lparr>p_content_length := of_nat (length (p_content p))\<rparr> \<and>
    ahead bt' = []"
proof -
  have fits: "f32.fits (p_content p)" using assms by (simp add: f32_fits)
  obtain bt where bt: "encode fill p = Inr bt" "ba_inv bt" "behind bt = []"
    "ahead bt = header_bytes p @ p_content p"
    using encode_view [OF fits] by blast
  obtain bt' where "decode q bt = Inr (p\<lparr>p_content_length := of_nat (length (p_content p))\<rparr>, bt')"
    "ahead bt' = []"
    using decode_view [OF bt(2) fits, of "[]" q] bt(4) by auto
  moreover have "ahead bt = [p_magic p, p_version p, p_type p] @ le_bytes 4 (unat (p_sequence_id p)) @
      le_bytes 4 (length (p_content p)) @ p_content p"
    using bt(4) assms by (simp add: header_bytes_def obj_bytes_def unat_of_nat)
  ultimately show ?thesis using bt(1,3) by blast
qed

theorem encode_decode_witness:
  "\<exists>bt q' bt'. encode (\<lambda>_ _. 7) (Create RPC_METHOD_REQUEST [1, 2] 9) = Inr bt \<and> behind bt = [] \<and>
    ahead bt = [0xaa, 1, 3, 9, 0, 0, 0, 2, 0, 0, 0, 1, 2] \<and>
    decode new_Protocol bt = Inr (q', bt') \<and> q' = Create RPC_METHOD_REQUEST [1, 2] 9 \<and> ahead bt' = []"
  using encode_decode [of "Create RPC_METHOD_REQUEST [1, 2] 9" "\<lambda>_ _. 7" new_Protocol]
  by (simp add: Create_def new_Protocol_def MAGIC_def VERSION_def le_bytes_4)

text \<open>
  What a receiver relies on: \<open>BASE_LENGTH\<close> bytes of an encoded frame are enough for
  \<open>decodeMeta\<close>, which restores the header and sets the content length to the number of bytes that
  follow, so that reading so many bytes gives the content. \<open>encodeMeta\<close> gives the same header.
\<close>

theorem decodeMeta_header:
  assumes "length (p_content p) < 2 ^ 32"
  shows "\<exists>bt bm q' bt'. encode fill p = Inr bt \<and> encodeMeta fill p = Inr bm \<and>
    ahead bm = take BASE_LENGTH (ahead bt) \<and> length (ahead bm) = BASE_LENGTH \<and>
    decodeMeta q bt = Inr (q', bt') \<and> q'\<lparr>p_content := p_content p\<rparr>
      = p\<lparr>p_content_length := of_nat (length (p_content p))\<rparr> \<and>
    unat (p_content_length q') = length (p_content p) \<and>
    ahead bt' = p_content p"
proof -
  have fits: "f32.fits (p_content p)" using assms by (simp add: f32_fits)
  obtain bt where bt: "encode fill p = Inr bt" "ba_inv bt" "ahead bt = header_bytes p @ p_content p"
    using encode_view [OF fits] by blast
  obtain bm where bm: "encodeMeta fill p = Inr bm" "ahead bm = header_bytes p"
    using encodeMeta_view by blast
  define q' where
    "q' = p\<lparr>p_content := p_content q, p_content_length := of_nat (length (p_content p))\<rparr>"
  obtain bt' where "decodeMeta q bt = Inr (q', bt')" "ahead bt' = p_content p"
    using decodeMeta_view [OF bt(2,3), of q] by (auto simp: q'_def)
  moreover have "q'\<lparr>p_content := p_content p\<rparr> = p\<lparr>p_content_length := of_nat (length (p_content p))\<rparr>"
    "unat (p_content_length q') = length (p_content p)"
    using assms by (simp_all add: q'_def unat_of_nat)
  moreover have "ahead bm = take BASE_LENGTH (ahead bt)" "length (ahead bm) = BASE_LENGTH"
    using bt(3) bm(2) by simp_all
  ultimately show ?thesis using bt(1) bm(1) by blast
qed

theorem decodeMeta_header_witness:
  "\<exists>bt q' bt'. encode (\<lambda>_ _. 7) (Create RPC_PROVIDER [5, 6] 1) = Inr bt \<and>
    decodeMeta new_Protocol bt = Inr (q', bt') \<and> p_content_length q' = 2 \<and> ahead bt' = [5, 6]"
proof -
  have two: "p_content_length q' = 2" if "unat (p_content_length q') = Suc (Suc 0)" for q'
    using word_eq_of_nat [OF that] by simp
  have c: "p_content (Create RPC_PROVIDER [5, 6] 1) = [5, 6]" by (simp add: Create_def)
  have "length (p_content (Create RPC_PROVIDER [5, 6] 1)) = 2" by (simp add: c)
  then show ?thesis
    using decodeMeta_header [of "Create RPC_PROVIDER [5, 6] 1" "\<lambda>_ _. 7" new_Protocol] two
    by (simp add: c) blast
qed

end
