(* ===== verification/Rpc_Result.thy ===== *)
theory Rpc_Result
  imports Serializer Protocol
begin

text \<open>
  The result of a remote call (\<open>include/rpc/rpc.h\<close>) and its serialization.

  \<open>Result<T>\<close> is a record whose value has the type \<open>T\<close> (\<open>uint8_t\<close> for \<open>void\<close>). The code is an
  enumeration, and \<open>Serializer::write\<close> and \<open>read\<close> have no branch for it: it is written and read as a
  value of a type outside the chain. A \<open>Result\<close> that was default-constructed has an
  uninitialised code and value, which are parameters here.
\<close>

section \<open>State and operations\<close>

datatype RPCState =
    RPC_SUCCESS | RPC_FAIL | RPC_ARGS_NOT_MATCH | RPC_NO_METHOD | RPC_CLOSED | RPC_TIMEOUT

fun state_code :: "RPCState \<Rightarrow> u16" where
  "state_code RPC_SUCCESS = 0"
| "state_code RPC_FAIL = 1"
| "state_code RPC_ARGS_NOT_MATCH = 2"
| "state_code RPC_NO_METHOD = 3"
| "state_code RPC_CLOSED = 4"
| "state_code RPC_TIMEOUT = 5"

definition RPC_SERVICE_SUBSCRIBE :: bytes where
  "RPC_SERVICE_SUBSCRIBE = lit ''[[rpc service subscribe]]''"

record rpc_result =
  r_code :: u16
  r_msg :: bytes
  r_val :: sval

definition new_Result :: "u16 \<Rightarrow> sval \<Rightarrow> rpc_result" where
  "new_Result code0 val0 = \<lparr>r_code = code0, r_msg = [], r_val = val0\<rparr>"

definition Success :: "sval \<Rightarrow> rpc_result" where
  "Success val0 = \<lparr>r_code = state_code RPC_SUCCESS, r_msg = lit ''success'', r_val = val0\<rparr>"

definition Fail :: "sval \<Rightarrow> rpc_result" where
  "Fail val0 = \<lparr>r_code = state_code RPC_FAIL, r_msg = lit ''fail'', r_val = val0\<rparr>"

text \<open>\<open>operator<<\<close> and \<open>operator>>\<close>; \<open>ty\<close> is the type of the value.\<close>

definition put_Result :: "bytearray \<Rightarrow> rpc_result \<Rightarrow> bytearray res" where
  "put_Result s res =
     bindE (ser_write s (VOther (unat (r_code res)))) (\<lambda>s.
     bindE (ser_write s (VString (r_msg res))) (\<lambda>s.
     if r_code res = 0 then ser_write s (r_val res) else Inr s))"

definition get_Result :: "sty \<Rightarrow> bytearray \<Rightarrow> rpc_result \<Rightarrow> (rpc_result \<times> bytearray) res" where
  "get_Result ty s res =
     bindE (ser_read s TOther (VOther (unat (r_code res)))) (\<lambda>(c, s).
     bindE (ser_read s TString (VString (r_msg res))) (\<lambda>(m, s).
     bindE (ser_read s ty (r_val res)) (\<lambda>(v, s).
     Inr (\<lparr>r_code = (case c of VOther n \<Rightarrow> of_nat n | _ \<Rightarrow> r_code res),
            r_msg = (case m of VString t \<Rightarrow> t | _ \<Rightarrow> r_msg res), r_val = v\<rparr>, s))))"

section \<open>What is on the wire\<close>

definition result_enc :: "rpc_result \<Rightarrow> bytes" where
  "result_enc res = vint.enc_string (r_msg res) @ (if r_code res = 0 then sval_enc (r_val res) else [])"

lemma put_Result_wrote:
  assumes "ba_inv s"
  shows "\<exists>s'. put_Result s res = Inr s' \<and> wrote s (result_enc res) s'"
proof -
  obtain s1 where s1: "writeStringVint s (r_msg res) = Inr s1" "wrote s (vint.enc_string (r_msg res)) s1"
    using ser_write_wrote [OF assms, of "VString (r_msg res)"] by auto
  obtain s2 where "ser_write s1 (r_val res) = Inr s2" "wrote s1 (sval_enc (r_val res)) s2"
    using ser_write_wrote [OF wrote_inv [OF s1(2)]] by blast
  then show ?thesis
    using s1 wrote_trans [OF s1(2)] by (simp add: put_Result_def result_enc_def)
qed

lemma get_Result_success:
  assumes "ba_inv s" "ahead s = vint.enc_string msg @ sval_enc v @ rest"
    "length msg \<le> string_max_size" "sval_ok ty v"
  shows "\<exists>s'. get_Result ty s res = Inr (\<lparr>r_code = r_code res, r_msg = msg, r_val = v\<rparr>, s') \<and>
    ba_inv s' \<and> ahead s' = rest"
proof -
  obtain s1 where s1: "ser_read s TString (VString (r_msg res)) = Inr (VString msg, s1)"
    "consumed s (vint.enc_string msg) s1"
    using ser_read_consumed [OF assms(1), of TString "VString msg" "sval_enc v @ rest"] assms(2,3)
    by (auto simp: sval_ok_def)
  have ah: "ahead s1 = sval_enc v @ rest" using consumed_ahead [OF s1(2) assms(2)] .
  obtain s2 where "ser_read s1 ty (r_val res) = Inr (v, s2)" "consumed s1 (sval_enc v) s2"
    using ser_read_consumed [OF consumed_inv [OF s1(2)] assms(4) ah] by blast
  then show ?thesis
    using s1(1) consumed_ahead [OF _ ah] consumed_inv by (auto simp: get_Result_def)
qed

section \<open>Properties\<close>

text \<open>
  A result loses its code on the wire: whatever code the sender set, the reader keeps the code
  its own variable had before. Of a successful result the message and the value arrive.
\<close>

theorem result_code_lost:
  assumes "ba_inv s" "r_code res = 0" "sval_ok ty (r_val res)" "length (r_msg res) \<le> string_max_size"
  shows "\<exists>s1 s2 s3. put_Result s res = Inr s1 \<and> ByteArray_setPosition s1 (ba_pos s) = Inr s2 \<and>
    get_Result ty s2 old = Inr (res\<lparr>r_code := r_code old\<rparr>, s3)"
proof -
  obtain s1 where s1: "put_Result s res = Inr s1" "wrote s (result_enc res) s1"
    using put_Result_wrote [OF assms(1)] by blast
  obtain s2 where s2: "ByteArray_setPosition s1 (ba_pos s) = Inr s2" "ba_inv s2"
    "ahead s2 = result_enc res @ ahead s1"
    using rewind [OF assms(1) s1(2)] by blast
  then have "ahead s2 = vint.enc_string (r_msg res) @ sval_enc (r_val res) @ ahead s1"
    using assms(2) by (simp add: result_enc_def)
  from get_Result_success [OF s2(2) this assms(4,3), of old] show ?thesis
    using s1(1) s2(1) by (cases res) auto
qed

theorem result_code_lost_witness:
  "\<exists>s1 s2 s3. put_Result (new_Serializer (\<lambda>_ _. 7)) (Success (VUint8 5)) = Inr s1 \<and>
    ByteArray_setPosition s1 0 = Inr s2 \<and>
    get_Result TUint8 s2 (new_Result 4 (VUint8 0)) =
      Inr (\<lparr>r_code = 4, r_msg = lit ''success'', r_val = VUint8 5\<rparr>, s3)"
  using result_code_lost [of "new_Serializer (\<lambda>_ _. 7)" "Success (VUint8 5)" TUint8 "new_Result 4 (VUint8 0)"]
  by (simp add: Success_def sval_ok_def string_max_size_def new_Result_def) (simp add: new_Serializer_def)

end
