(* ===== verification/Timer.thy ===== *)
theory Timer
  imports Prelude
begin

text \<open>
  Timers and the timer manager (\<open>include/timer.h\<close>, \<open>src/timer.cc\<close>).

  Timer objects live in a heap \<open>tm_obj\<close> indexed by their address; the \<open>std::set\<close> of the manager is
  the list \<open>tm_timers\<close> of addresses in iteration order, ordered by the comparator on
  \<open>(next_, address)\<close> read from the heap, exactly as \<open>Timer::Comparator\<close> does. A timer's
  \<open>callback_\<close> is \<open>None\<close> when it is the null function. The clock \<open>GetCurrentMS()\<close> and the address
  that \<open>new\<close> returns are arguments. Times are \<open>uint64_t\<close> words and wrap. The lock makes every
  operation atomic, so the concurrent behaviour is the set of sequences of operations
  (\<open>tm_step\<close>, \<open>tm_reach\<close>). A true second result of \<open>addTimer\<close> means that
  \<open>onTimerInsertedAtFront()\<close> is called.
\<close>

section \<open>State and the ordered set\<close>

text \<open>\<open>Guarded w f\<close> is \<open>std::bind(&onTimer, weak_cond, callback)\<close>.\<close>

datatype callback = Plain nat | Guarded nat nat

record timer =
  t_ms :: u64
  t_next :: u64
  t_callback :: "callback option"
  t_recurring :: bool

record timer_manager =
  tm_obj :: "nat \<Rightarrow> timer option"
  tm_timers :: "nat list"

definition new_TimerManager :: timer_manager where
  "new_TimerManager = \<lparr>tm_obj = (\<lambda>_. None), tm_timers = []\<rparr>"

definition next_of :: "(nat \<Rightarrow> timer option) \<Rightarrow> nat \<Rightarrow> u64" where
  "next_of obj a = (case obj a of Some t \<Rightarrow> t_next t | None \<Rightarrow> 0)"

definition Comparator :: "(nat \<Rightarrow> timer option) \<Rightarrow> nat \<Rightarrow> nat \<Rightarrow> bool" where
  "Comparator obj lhs rhs =
     (if next_of obj lhs < next_of obj rhs then True
      else if next_of obj rhs < next_of obj lhs then False
      else lhs < rhs)"

text \<open>\<open>std::set\<close>: \<open>insert\<close>, \<open>find\<close> and \<open>upper_bound\<close> by the comparator, \<open>erase\<close> of an element found.\<close>

fun set_insert :: "('a \<Rightarrow> 'a \<Rightarrow> bool) \<Rightarrow> 'a \<Rightarrow> 'a list \<Rightarrow> 'a list" where
  "set_insert lt a [] = [a]"
| "set_insert lt a (x # xs) =
     (if lt x a then x # set_insert lt a xs else if lt a x then a # x # xs else x # xs)"

definition set_find :: "('a \<Rightarrow> 'a \<Rightarrow> bool) \<Rightarrow> 'a \<Rightarrow> 'a list \<Rightarrow> 'a option" where
  "set_find lt a xs =
     (case dropWhile (\<lambda>x. lt x a) xs of [] \<Rightarrow> None
      | x # _ \<Rightarrow> if lt a x then None else Some x)"

definition set_before :: "('a \<Rightarrow> 'a \<Rightarrow> bool) \<Rightarrow> 'a \<Rightarrow> 'a list \<Rightarrow> 'a list" where
  "set_before lt a xs = takeWhile (\<lambda>x. \<not> lt a x) xs"

section \<open>Operations\<close>

definition new_Timer :: "u64 \<Rightarrow> u64 \<Rightarrow> callback option \<Rightarrow> bool \<Rightarrow> timer" where
  "new_Timer now ms cb recurring =
     \<lparr>t_ms = ms, t_next = now + ms, t_callback = cb, t_recurring = recurring\<rparr>"

definition addTimer_locked :: "timer_manager \<Rightarrow> nat \<Rightarrow> timer_manager \<times> bool" where
  "addTimer_locked m a =
     (let ts = set_insert (Comparator (tm_obj m)) a (tm_timers m)
      in (m\<lparr>tm_timers := ts\<rparr>, hd ts = a))"

definition addTimer :: "timer_manager \<Rightarrow> nat \<Rightarrow> u64 \<Rightarrow> u64 \<Rightarrow> callback option \<Rightarrow> bool \<Rightarrow>
    timer_manager \<times> bool" where
  "addTimer m a now ms cb recurring =
     addTimer_locked (m\<lparr>tm_obj := (tm_obj m)(a \<mapsto> new_Timer now ms cb recurring)\<rparr>) a"

definition onTimer :: "(nat \<Rightarrow> bool) \<Rightarrow> callback \<Rightarrow> nat option" where
  "onTimer alive cb = (case cb of Plain f \<Rightarrow> Some f | Guarded w f \<Rightarrow> if alive w then Some f else None)"

definition addConditionTimer :: "timer_manager \<Rightarrow> nat \<Rightarrow> u64 \<Rightarrow> u64 \<Rightarrow> nat \<Rightarrow> nat \<Rightarrow> bool \<Rightarrow>
    timer_manager \<times> bool" where
  "addConditionTimer m a now ms f w recurring = addTimer m a now ms (Some (Guarded w f)) recurring"

definition cancel :: "timer_manager \<Rightarrow> nat \<Rightarrow> (bool \<times> timer_manager) res" where
  "cancel m a =
     (case tm_obj m a of None \<Rightarrow> Inl NullDeref
      | Some t \<Rightarrow>
        if t_callback t \<noteq> None
        then let obj = (tm_obj m)(a \<mapsto> t\<lparr>t_callback := None\<rparr>) in
          (case set_find (Comparator obj) a (tm_timers m) of None \<Rightarrow> Inl InvalidIterator
           | Some x \<Rightarrow> Inr (True, m\<lparr>tm_obj := obj, tm_timers := remove1 x (tm_timers m)\<rparr>))
        else Inr (False, m))"

definition refresh :: "timer_manager \<Rightarrow> nat \<Rightarrow> u64 \<Rightarrow> (bool \<times> timer_manager) res" where
  "refresh m a now =
     (case tm_obj m a of None \<Rightarrow> Inl NullDeref
      | Some t \<Rightarrow>
        if t_callback t = None then Inr (False, m)
        else (case set_find (Comparator (tm_obj m)) a (tm_timers m) of None \<Rightarrow> Inr (False, m)
          | Some x \<Rightarrow>
            let obj = (tm_obj m)(a \<mapsto> t\<lparr>t_next := now + t_ms t\<rparr>) in
            Inr (True, m\<lparr>tm_obj := obj,
              tm_timers := set_insert (Comparator obj) a (remove1 x (tm_timers m))\<rparr>)))"

definition reset :: "timer_manager \<Rightarrow> nat \<Rightarrow> u64 \<Rightarrow> u64 \<Rightarrow> bool \<Rightarrow> (bool \<times> timer_manager \<times> bool) res" where
  "reset m a now ms from_now =
     (case tm_obj m a of None \<Rightarrow> Inl NullDeref
      | Some t \<Rightarrow>
        if t_ms t = ms \<and> \<not> from_now then Inr (True, m, False)
        else if t_callback t = None then Inr (False, m, False)
        else
          let ts = (case set_find (Comparator (tm_obj m)) a (tm_timers m) of
                      None \<Rightarrow> tm_timers m | Some x \<Rightarrow> remove1 x (tm_timers m));
              start = (if from_now then now else t_next t - ms);
              obj = (tm_obj m)(a \<mapsto> t\<lparr>t_ms := ms, t_next := start + ms\<rparr>);
              (m', front) = addTimer_locked (m\<lparr>tm_obj := obj, tm_timers := ts\<rparr>) a
          in Inr (True, m', front))"

definition getNextTimerTime :: "timer_manager \<Rightarrow> u64 \<Rightarrow> u64" where
  "getNextTimerTime m now =
     (case tm_timers m of [] \<Rightarrow> - 1
      | a # _ \<Rightarrow> if next_of (tm_obj m) a \<le> now then 0 else next_of (tm_obj m) a - now)"

text \<open>One round of the loop over the expired timers (a pointer in the set is never null).\<close>

definition fire_one :: "u64 \<Rightarrow> callback option list \<times> timer_manager \<Rightarrow> nat \<Rightarrow>
    callback option list \<times> timer_manager" where
  "fire_one now st i =
     (case st of (cb, m) \<Rightarrow>
        case tm_obj m i of None \<Rightarrow> (cb, m)
        | Some t \<Rightarrow>
          (cb @ [t_callback t],
           if t_recurring t
           then let obj = (tm_obj m)(i \<mapsto> t\<lparr>t_next := now + t_ms t\<rparr>) in
             m\<lparr>tm_obj := obj, tm_timers := set_insert (Comparator obj) i (tm_timers m)\<rparr>
           else m\<lparr>tm_obj := (tm_obj m)(i \<mapsto> t\<lparr>t_callback := None\<rparr>)\<rparr>))"

text \<open>\<open>a\<close> is the address of the local \<open>now_timer\<close>.\<close>

definition listOverTimeCallback :: "timer_manager \<Rightarrow> nat \<Rightarrow> u64 \<Rightarrow>
    callback option list \<times> timer_manager" where
  "listOverTimeCallback m a now =
     (if tm_timers m = [] then ([], m)
      else let obj = (tm_obj m)(a \<mapsto> \<lparr>t_ms = 0, t_next = now, t_callback = None, t_recurring = False\<rparr>);
               expired = set_before (Comparator obj) a (tm_timers m)
           in foldl (fire_one now) ([], m\<lparr>tm_timers := drop (length expired) (tm_timers m)\<rparr>) expired)"

section \<open>The set keeps a strict total order\<close>

locale ordered_set =
  fixes lt :: "'a \<Rightarrow> 'a \<Rightarrow> bool"
  assumes irrefl: "\<not> lt x x"
    and trans: "lt x y \<Longrightarrow> lt y z \<Longrightarrow> lt x z"
    and total: "x \<noteq> y \<Longrightarrow> lt x y \<or> lt y x"
begin

lemma asym: "lt x y \<Longrightarrow> \<not> lt y x"
  using irrefl trans by blast

lemma set_set_insert: "set (set_insert lt a xs) = insert a (set xs)"
  using total by (induction xs) auto

lemma sorted_set_insert:
  assumes "sorted_wrt lt xs"
  shows "sorted_wrt lt (set_insert lt a xs)"
  using assms
proof (induction xs)
  case Nil
  then show ?case by simp
next
  case (Cons x xs)
  then show ?case using trans by (auto simp: set_set_insert)
qed

lemma distinct_sorted: "sorted_wrt lt xs \<Longrightarrow> distinct xs"
  using irrefl by (induction xs) auto

lemma set_find_sorted:
  assumes "sorted_wrt lt xs"
  shows "set_find lt a xs = (if a \<in> set xs then Some a else None)"
  using assms
proof (induction xs)
  case Nil
  then show ?case by (simp add: set_find_def)
next
  case (Cons x xs)
  show ?case
  proof (cases "lt x a")
    case True
    then show ?thesis using Cons irrefl by (auto simp: set_find_def)
  next
    case False
    then show ?thesis using Cons.prems total irrefl asym by (auto simp: set_find_def)
  qed
qed

lemma set_before_sorted:
  assumes "sorted_wrt lt xs"
  shows "set_before lt a xs = filter (\<lambda>x. \<not> lt a x) xs"
    "drop (length (set_before lt a xs)) xs = filter (lt a) xs"
proof -
  have "set_before lt a xs = filter (\<lambda>x. \<not> lt a x) xs \<and>
    drop (length (set_before lt a xs)) xs = filter (lt a) xs"
    using assms
  proof (induction xs)
    case Nil
    then show ?case by (simp add: set_before_def)
  next
    case (Cons x xs)
    show ?case
    proof (cases "lt a x")
      case True
      then have "lt a y" if "y \<in> set xs" for y using that Cons.prems trans by auto
      then show ?thesis using True by (auto simp: set_before_def filter_empty_conv filter_id_conv)
    next
      case False
      then have eq: "set_before lt a (x # xs) = x # set_before lt a xs" by (simp add: set_before_def)
      have "drop (length (set_before lt a (x # xs))) (x # xs) = filter (lt a) (x # xs)"
        unfolding eq using conjunct2 [OF Cons.IH] Cons.prems False by simp
      moreover have "set_before lt a (x # xs) = filter (\<lambda>x. \<not> lt a x) (x # xs)"
        unfolding eq using Cons False by simp
      ultimately show ?thesis by blast
    qed
  qed
  then show "set_before lt a xs = filter (\<lambda>x. \<not> lt a x) xs"
    "drop (length (set_before lt a xs)) xs = filter (lt a) xs" by auto
qed

end

interpretation cmp: ordered_set "Comparator obj" for obj
  by unfold_locales (auto simp: Comparator_def split: if_splits)

text \<open>The order of other timers does not depend on one timer's deadline.\<close>

lemma Comparator_upd:
  "x \<noteq> a \<Longrightarrow> y \<noteq> a \<Longrightarrow> Comparator (obj(a \<mapsto> t)) x y = Comparator obj x y"
  by (simp add: Comparator_def next_of_def)

lemma sorted_upd:
  "a \<notin> set xs \<Longrightarrow> sorted_wrt (Comparator (obj(a \<mapsto> t))) xs = sorted_wrt (Comparator obj) xs"
proof (induction xs)
  case (Cons x xs)
  then have "\<forall>y \<in> set xs. Comparator (obj(a \<mapsto> t)) x y = Comparator obj x y"
    by (intro ballI Comparator_upd) auto
  then show ?case using Cons by (simp del: fun_upd_apply)
qed simp

lemma sorted_upd_same:
  "obj a = Some t \<Longrightarrow> t_next t' = t_next t \<Longrightarrow> Comparator (obj(a \<mapsto> t')) = Comparator obj"
  by (auto simp: fun_eq_iff Comparator_def next_of_def)

section \<open>Invariant\<close>

text \<open>
  The set is ordered by the current deadlines, holds live objects only, and holds every timer
  that still has a callback.
\<close>

definition tm_inv :: "timer_manager \<Rightarrow> bool" where
  "tm_inv m \<longleftrightarrow> sorted_wrt (Comparator (tm_obj m)) (tm_timers m) \<and>
     (\<forall>a \<in> set (tm_timers m). tm_obj m a \<noteq> None) \<and>
     (\<forall>a t. tm_obj m a = Some t \<and> t_callback t \<noteq> None \<longrightarrow> a \<in> set (tm_timers m))"

lemma tm_inv_find:
  "tm_inv m \<Longrightarrow> set_find (Comparator (tm_obj m)) a (tm_timers m) =
    (if a \<in> set (tm_timers m) then Some a else None)"
  by (simp add: tm_inv_def cmp.set_find_sorted)

lemma tm_inv_distinct: "tm_inv m \<Longrightarrow> distinct (tm_timers m)"
  using cmp.distinct_sorted by (auto simp: tm_inv_def)

lemma sorted_remove1: "sorted_wrt P xs \<Longrightarrow> sorted_wrt P (remove1 x xs)"
  by (induction xs) (auto dest: notin_set_remove1)

text \<open>Storing a timer at an address outside the set and inserting the address.\<close>

lemma tm_inv_insert:
  assumes "tm_inv m" "ts = remove1 a (tm_timers m)"
  shows "tm_inv (m\<lparr>tm_obj := (tm_obj m)(a \<mapsto> t),
    tm_timers := set_insert (Comparator ((tm_obj m)(a \<mapsto> t))) a ts\<rparr>)"
proof -
  have "a \<notin> set ts" using assms tm_inv_distinct by auto
  moreover have "sorted_wrt (Comparator (tm_obj m)) ts"
    using assms by (simp add: tm_inv_def sorted_remove1)
  ultimately have "sorted_wrt (Comparator ((tm_obj m)(a \<mapsto> t))) ts" by (simp add: sorted_upd)
  moreover have "set ts = set (tm_timers m) - {a}"
    using assms tm_inv_distinct by (simp add: set_remove1_eq)
  ultimately show ?thesis
    using assms(1) by (auto simp: tm_inv_def cmp.sorted_set_insert cmp.set_set_insert)
qed

lemma tm_inv_new: "tm_inv new_TimerManager"
  by (simp add: tm_inv_def new_TimerManager_def)

lemma tm_inv_addTimer:
  assumes "tm_inv m" "a \<notin> set (tm_timers m)"
  shows "tm_inv (fst (addTimer m a now ms cb r))"
  using tm_inv_insert [OF assms(1) refl, of a "new_Timer now ms cb r"] assms(2)
  by (simp add: addTimer_def addTimer_locked_def Let_def remove1_idem)

lemma cancel_eq:
  assumes "tm_inv m" "tm_obj m a = Some t"
  shows "cancel m a = (if t_callback t = None then Inr (False, m)
    else Inr (True, m\<lparr>tm_obj := (tm_obj m)(a \<mapsto> t\<lparr>t_callback := None\<rparr>),
      tm_timers := remove1 a (tm_timers m)\<rparr>))"
proof -
  have "a \<in> set (tm_timers m)" if "t_callback t \<noteq> None" using that assms by (auto simp: tm_inv_def)
  then show ?thesis
    using assms tm_inv_find [OF assms(1)] by (auto simp: cancel_def sorted_upd_same Let_def)
qed

lemma tm_inv_cancel:
  assumes "tm_inv m" "cancel m a = Inr (b, m')"
  shows "tm_inv m'"
proof (cases "tm_obj m a")
  case None
  then show ?thesis using assms(2) by (simp add: cancel_def)
next
  case (Some t)
  have "set (remove1 a (tm_timers m)) = set (tm_timers m) - {a}"
    using assms tm_inv_distinct by (simp add: set_remove1_eq)
  then show ?thesis
    using assms Some
    by (auto simp: cancel_eq tm_inv_def sorted_upd_same sorted_remove1 split: if_splits)
qed

lemma tm_inv_refresh:
  assumes "tm_inv m" "refresh m a now = Inr (b, m')"
  shows "tm_inv m'"
  using assms tm_inv_insert [OF assms(1) refl, of a]
  by (auto simp: refresh_def tm_inv_find Let_def split: option.splits if_splits)

lemma tm_inv_reset:
  assumes "tm_inv m" "reset m a now ms f = Inr (b, m', front)"
  shows "tm_inv m'"
  using assms tm_inv_insert [OF assms(1) refl, of a]
  by (auto simp: reset_def tm_inv_find Let_def addTimer_locked_def remove1_idem
      split: option.splits if_splits)

lemma reset_live:
  assumes "tm_inv m" "tm_obj m a = Some t" "t_callback t \<noteq> None"
  shows "\<exists>m' front. reset m a now ms from_now = Inr (True, m', front) \<and> a \<in> set (tm_timers m') \<and>
    tm_obj m' a = Some (t\<lparr>t_ms := ms, t_next := (if from_now then now + ms else t_next t)\<rparr>)"
proof -
  have "a \<in> set (tm_timers m)" using assms by (auto simp: tm_inv_def)
  then show ?thesis
    using assms by (auto simp: reset_def tm_inv_find addTimer_locked_def Let_def cmp.set_set_insert)
qed

section \<open>Expiry\<close>

definition fired :: "u64 \<Rightarrow> timer \<Rightarrow> timer" where
  "fired now t = (if t_recurring t then t\<lparr>t_next := now + t_ms t\<rparr> else t\<lparr>t_callback := None\<rparr>)"

text \<open>The invariant while the timers \<open>R\<close> are taken out of the set and not yet processed.\<close>

definition tm_firing :: "nat list \<Rightarrow> timer_manager \<Rightarrow> bool" where
  "tm_firing R m \<longleftrightarrow> sorted_wrt (Comparator (tm_obj m)) (tm_timers m) \<and>
     (\<forall>a \<in> set R \<union> set (tm_timers m). tm_obj m a \<noteq> None) \<and>
     (\<forall>a t. tm_obj m a = Some t \<and> t_callback t \<noteq> None \<longrightarrow> a \<in> set R \<union> set (tm_timers m)) \<and>
     distinct R \<and> set R \<inter> set (tm_timers m) = {}"

lemma tm_firing_Nil: "tm_firing [] m \<longleftrightarrow> tm_inv m"
  by (auto simp: tm_firing_def tm_inv_def)

lemma fire_one_eq:
  assumes "tm_firing (i # R) m" "tm_obj m i = Some t"
  shows "\<exists>m'. fire_one now (cb, m) i = (cb @ [t_callback t], m') \<and> tm_firing R m' \<and>
    tm_obj m' = (tm_obj m)(i \<mapsto> fired now t) \<and>
    set (tm_timers m') = set (tm_timers m) \<union> (if t_recurring t then {i} else {})"
proof -
  have i: "i \<notin> set (tm_timers m)" "i \<notin> set R" using assms(1) by (auto simp: tm_firing_def)
  have srt: "sorted_wrt (Comparator ((tm_obj m)(i \<mapsto> t'))) (tm_timers m)" for t'
    using assms(1) i by (simp add: tm_firing_def sorted_upd)
  show ?thesis
  proof (cases "t_recurring t")
    case True
    let ?obj = "(tm_obj m)(i \<mapsto> fired now t)"
    let ?m = "m\<lparr>tm_obj := ?obj, tm_timers := set_insert (Comparator ?obj) i (tm_timers m)\<rparr>"
    have "fire_one now (cb, m) i = (cb @ [t_callback t], ?m)"
      using True assms(2) by (simp add: fire_one_def fired_def Let_def)
    moreover have "tm_firing R ?m"
      using assms(1) i srt
      by (auto simp: tm_firing_def cmp.sorted_set_insert cmp.set_set_insert) blast
    ultimately show ?thesis using True by (auto simp: cmp.set_set_insert)
  next
    case False
    let ?m = "m\<lparr>tm_obj := (tm_obj m)(i \<mapsto> fired now t)\<rparr>"
    have "fire_one now (cb, m) i = (cb @ [t_callback t], ?m)"
      using False assms(2) by (simp add: fire_one_def fired_def)
    moreover have "tm_firing R ?m"
      using assms(1) i srt False by (auto simp: tm_firing_def fired_def) blast
    ultimately show ?thesis using False by auto
  qed
qed

lemma fire_all:
  "tm_firing R m \<Longrightarrow> \<exists>m'. foldl (fire_one now) (cb, m) R =
      (cb @ map (\<lambda>i. t_callback (the (tm_obj m i))) R, m') \<and> tm_inv m' \<and>
    (\<forall>a. tm_obj m' a = (if a \<in> set R then Some (fired now (the (tm_obj m a))) else tm_obj m a)) \<and>
    set (tm_timers m') = set (tm_timers m) \<union> {a \<in> set R. t_recurring (the (tm_obj m a))}"
proof (induction R arbitrary: m cb)
  case Nil
  then show ?case by (simp add: tm_firing_Nil)
next
  case (Cons i R)
  then obtain t where t: "tm_obj m i = Some t" by (auto simp: tm_firing_def)
  obtain m1 where m1: "fire_one now (cb, m) i = (cb @ [t_callback t], m1)" "tm_firing R m1"
    "tm_obj m1 = (tm_obj m)(i \<mapsto> fired now t)"
    "set (tm_timers m1) = set (tm_timers m) \<union> (if t_recurring t then {i} else {})"
    using fire_one_eq [OF Cons.prems t] by blast
  have i: "i \<notin> set R" using Cons.prems by (simp add: tm_firing_def)
  then have same: "tm_obj m1 a = tm_obj m a" if "a \<in> set R" for a using that m1(3) by auto
  obtain m2 where m2: "foldl (fire_one now) (cb @ [t_callback t], m1) R =
      ((cb @ [t_callback t]) @ map (\<lambda>i. t_callback (the (tm_obj m1 i))) R, m2)" "tm_inv m2"
    "\<forall>a. tm_obj m2 a = (if a \<in> set R then Some (fired now (the (tm_obj m1 a))) else tm_obj m1 a)"
    "set (tm_timers m2) = set (tm_timers m1) \<union> {a \<in> set R. t_recurring (the (tm_obj m1 a))}"
    using Cons.IH [OF m1(2)] by blast
  have "map (\<lambda>i. t_callback (the (tm_obj m1 i))) R = map (\<lambda>i. t_callback (the (tm_obj m i))) R"
    using same by simp
  moreover have "\<forall>a. tm_obj m2 a =
      (if a \<in> set (i # R) then Some (fired now (the (tm_obj m a))) else tm_obj m a)"
    using m2(3) same m1(3) i t by auto
  moreover have "set (tm_timers m2) =
      set (tm_timers m) \<union> {a \<in> set (i # R). t_recurring (the (tm_obj m a))}"
    using m2(4) m1(4) same t by auto
  ultimately show ?case using m1(1) m2(1,2) t by auto
qed

text \<open>The timers due at \<open>now\<close>, as the comparator decides against the local timer at \<open>a\<close>.\<close>

definition due :: "timer_manager \<Rightarrow> nat \<Rightarrow> u64 \<Rightarrow> nat \<Rightarrow> bool" where
  "due m a now x \<longleftrightarrow> next_of (tm_obj m) x < now \<or> next_of (tm_obj m) x = now \<and> x < a"

lemma due_Comparator:
  "x \<noteq> a \<Longrightarrow> \<not> Comparator ((tm_obj m)(a \<mapsto> t\<lparr>t_next := now\<rparr>)) a x \<longleftrightarrow> due m a now x"
  by (auto simp: Comparator_def next_of_def due_def)

lemma listOverTimeCallback_eq:
  assumes "tm_inv m" "a \<notin> set (tm_timers m)"
  shows "\<exists>m'. listOverTimeCallback m a now =
      (map (\<lambda>i. t_callback (the (tm_obj m i))) (filter (due m a now) (tm_timers m)), m') \<and> tm_inv m' \<and>
    (\<forall>x. tm_obj m' x = (if x \<in> set (tm_timers m) \<and> due m a now x
       then Some (fired now (the (tm_obj m x))) else tm_obj m x)) \<and>
    set (tm_timers m') =
      {x \<in> set (tm_timers m). due m a now x \<longrightarrow> t_recurring (the (tm_obj m x))}"
proof (cases "tm_timers m = []")
  case True
  then show ?thesis using assms by (auto simp: listOverTimeCallback_def)
next
  case False
  let ?t = "\<lparr>t_ms = 0, t_next = 0, t_callback = None, t_recurring = False\<rparr>"
  let ?obj = "(tm_obj m)(a \<mapsto> ?t\<lparr>t_next := now\<rparr>)"
  let ?R = "filter (due m a now) (tm_timers m)" and ?m = "m\<lparr>tm_timers := filter (\<lambda>x. \<not> due m a now x) (tm_timers m)\<rparr>"
  have srt: "sorted_wrt (Comparator ?obj) (tm_timers m)"
    using assms by (simp add: tm_inv_def sorted_upd)
  have eq: "\<not> Comparator ?obj a x \<longleftrightarrow> due m a now x" if "x \<in> set (tm_timers m)" for x
    using that assms(2) by (intro due_Comparator) auto
  have "set_before (Comparator ?obj) a (tm_timers m) = ?R"
    using cmp.set_before_sorted(1) [OF srt] eq by (simp cong: filter_cong)
  moreover have "drop (length (set_before (Comparator ?obj) a (tm_timers m))) (tm_timers m) =
      filter (\<lambda>x. \<not> due m a now x) (tm_timers m)"
    unfolding cmp.set_before_sorted(2) [OF srt] using eq by (intro filter_cong) auto
  ultimately have "listOverTimeCallback m a now = foldl (fire_one now) ([], ?m) ?R"
    using False by (simp add: listOverTimeCallback_def Let_def)
  moreover have "tm_firing ?R ?m"
    using assms(1) tm_inv_distinct [OF assms(1)]
    by (auto simp: tm_firing_def tm_inv_def sorted_wrt_filter)
  ultimately show ?thesis using fire_all [of ?R ?m now "[]"] by auto
qed

section \<open>Sequences of operations\<close>

text \<open>
  Every operation holds the lock, so an execution is a sequence of these steps. An allocation
  returns an address that no timer of the set has.
\<close>

inductive tm_step :: "timer_manager \<Rightarrow> timer_manager \<Rightarrow> bool" where
  step_add: "a \<notin> set (tm_timers m) \<Longrightarrow> tm_step m (fst (addTimer m a now ms cb r))"
| step_add_cond: "a \<notin> set (tm_timers m) \<Longrightarrow> tm_step m (fst (addConditionTimer m a now ms f w r))"
| step_cancel: "cancel m a = Inr (b, m') \<Longrightarrow> tm_step m m'"
| step_refresh: "refresh m a now = Inr (b, m') \<Longrightarrow> tm_step m m'"
| step_reset: "reset m a now ms f = Inr (b, m', front) \<Longrightarrow> tm_step m m'"
| step_expire: "a \<notin> set (tm_timers m) \<Longrightarrow> listOverTimeCallback m a now = (cbs, m') \<Longrightarrow> tm_step m m'"

inductive tm_reach :: "timer_manager \<Rightarrow> bool" where
  reach_init: "tm_reach new_TimerManager"
| reach_step: "tm_reach m \<Longrightarrow> tm_step m m' \<Longrightarrow> tm_reach m'"

lemma tm_inv_step: "tm_step m m' \<Longrightarrow> tm_inv m \<Longrightarrow> tm_inv m'"
proof (induction rule: tm_step.induct)
  case (step_expire a m now cbs m')
  then show ?case using listOverTimeCallback_eq [of m a now] by (metis prod.inject)
qed (unfold addConditionTimer_def,
    (erule (1) tm_inv_addTimer [rotated] | erule (1) tm_inv_cancel [rotated] |
      erule (1) tm_inv_refresh [rotated] | erule (1) tm_inv_reset [rotated])+)

lemma tm_reach_inv: "tm_reach m \<Longrightarrow> tm_inv m"
  by (induction rule: tm_reach.induct) (auto simp: tm_inv_new tm_inv_step)

lemma tm_reach_one: "tm_reach (fst (addTimer new_TimerManager a now ms cb r))"
  by (rule reach_step [OF reach_init step_add]) (simp add: new_TimerManager_def)

lemma addTimer_new:
  "fst (addTimer new_TimerManager a now ms cb r) =
   \<lparr>tm_obj = [a \<mapsto> new_Timer now ms cb r], tm_timers = [a]\<rparr>"
  by (simp add: addTimer_def addTimer_locked_def new_TimerManager_def)

section \<open>Properties\<close>

text \<open>
  C10. In every reachable state the set is ordered by the current deadlines and a timer that still
  has its callback is in the set. So \<open>cancel\<close> of a timer never erases the end iterator: it returns
  true exactly when the callback was still there, and afterwards the timer is out of the set and
  has no callback.
\<close>

theorem timer_cancel_safe:
  assumes "tm_reach m" "tm_obj m a = Some t"
  shows "sorted_wrt (Comparator (tm_obj m)) (tm_timers m) \<and>
    (\<exists>m'. cancel m a = Inr (t_callback t \<noteq> None, m') \<and>
       (t_callback t \<noteq> None \<longrightarrow> a \<in> set (tm_timers m) \<and> a \<notin> set (tm_timers m')) \<and>
       map_option t_callback (tm_obj m' a) = Some None)"
proof -
  note inv = tm_reach_inv [OF assms(1)]
  then have "a \<in> set (tm_timers m)" if "t_callback t \<noteq> None"
    using that assms(2) by (auto simp: tm_inv_def)
  then show ?thesis
    using inv assms(2) tm_inv_distinct [OF inv] by (auto simp: cancel_eq tm_inv_def)
qed

theorem timer_cancel_safe_witness:
  "\<exists>m'. cancel (fst (addTimer new_TimerManager 4 10 5 (Some (Plain 1)) False)) 4 = Inr (True, m') \<and>
    tm_timers m' = []"
proof -
  let ?m = "fst (addTimer new_TimerManager 4 10 5 (Some (Plain 1)) False)"
  let ?t = "new_Timer 10 5 (Some (Plain 1)) False"
  have "tm_reach ?m" by (rule tm_reach_one)
  moreover have t: "tm_obj ?m 4 = Some ?t" "tm_timers ?m = [4]"
    by (simp_all add: addTimer_new)
  ultimately show ?thesis
    using timer_cancel_safe [of ?m 4 ?t] tm_reach_inv [of ?m]
    by (auto simp: cancel_eq new_Timer_def)
qed

text \<open>
  C23. \<open>listOverTimeCallback\<close> fires every timer whose deadline has passed, once, in the order of the
  deadlines, and no timer whose deadline lies ahead. A recurring one is armed again at
  \<open>now + ms\<close>, any other loses its callback and leaves the set; all others stay as they were.
\<close>

theorem timers_expire:
  assumes "tm_reach m" "a \<notin> set (tm_timers m)"
  shows "\<exists>fire m'. listOverTimeCallback m a now = (map (\<lambda>x. t_callback (the (tm_obj m x))) fire, m') \<and>
    distinct fire \<and> sorted (map (next_of (tm_obj m)) fire) \<and> set fire \<subseteq> set (tm_timers m) \<and>
    (\<forall>x \<in> set (tm_timers m).
       (next_of (tm_obj m) x < now \<longrightarrow> x \<in> set fire) \<and>
       (now < next_of (tm_obj m) x \<longrightarrow> x \<notin> set fire)) \<and>
    (\<forall>x \<in> set fire. \<exists>t. tm_obj m x = Some t \<and>
       (if t_recurring t then x \<in> set (tm_timers m') \<and> tm_obj m' x = Some (t\<lparr>t_next := now + t_ms t\<rparr>)
        else x \<notin> set (tm_timers m') \<and> tm_obj m' x = Some (t\<lparr>t_callback := None\<rparr>))) \<and>
    (\<forall>x \<in> set (tm_timers m) - set fire. x \<in> set (tm_timers m') \<and> tm_obj m' x = tm_obj m x)"
proof -
  note inv = tm_reach_inv [OF assms(1)]
  let ?fire = "filter (due m a now) (tm_timers m)"
  obtain m' where m': "listOverTimeCallback m a now = (map (\<lambda>i. t_callback (the (tm_obj m i))) ?fire, m')"
    "\<forall>x. tm_obj m' x = (if x \<in> set (tm_timers m) \<and> due m a now x
       then Some (fired now (the (tm_obj m x))) else tm_obj m x)"
    "set (tm_timers m') = {x \<in> set (tm_timers m). due m a now x \<longrightarrow> t_recurring (the (tm_obj m x))}"
    using listOverTimeCallback_eq [OF inv assms(2)] by blast
  have "sorted_wrt (Comparator (tm_obj m)) ?fire"
    using inv by (simp add: tm_inv_def sorted_wrt_filter)
  then have "sorted (map (next_of (tm_obj m)) ?fire)"
    unfolding sorted_wrt_map by (rule sorted_wrt_mono_rel [rotated]) (auto simp: Comparator_def split: if_splits)
  moreover have "\<exists>t. tm_obj m x = Some t \<and>
       (if t_recurring t then x \<in> set (tm_timers m') \<and> tm_obj m' x = Some (t\<lparr>t_next := now + t_ms t\<rparr>)
        else x \<notin> set (tm_timers m') \<and> tm_obj m' x = Some (t\<lparr>t_callback := None\<rparr>))"
    if "x \<in> set ?fire" for x
  proof -
    have "x \<in> set (tm_timers m)" "due m a now x" using that by auto
    moreover from this obtain t where "tm_obj m x = Some t" using inv unfolding tm_inv_def by blast
    ultimately show ?thesis using m'(2,3) by (simp add: fired_def)
  qed
  moreover have "x \<in> set (tm_timers m') \<and> tm_obj m' x = tm_obj m x"
    if "x \<in> set (tm_timers m) - set ?fire" for x
    using that m'(2,3) by auto
  moreover have "(next_of (tm_obj m) x < now \<longrightarrow> x \<in> set ?fire) \<and>
       (now < next_of (tm_obj m) x \<longrightarrow> x \<notin> set ?fire)" if "x \<in> set (tm_timers m)" for x
    using that by (auto simp: due_def)
  ultimately show ?thesis
    using m'(1) distinct_filter [OF tm_inv_distinct [OF inv], of "due m a now"]
    by (intro exI [of _ ?fire] exI [of _ m'] conjI ballI) auto
qed

theorem timers_expire_witness:
  "\<exists>fire m'. listOverTimeCallback (fst (addTimer new_TimerManager 4 10 5 (Some (Plain 1)) True)) 9 20 =
      (map (\<lambda>x. t_callback (the (tm_obj
        (fst (addTimer new_TimerManager 4 10 5 (Some (Plain 1)) True)) x))) fire, m') \<and> 4 \<in> set fire"
proof -
  let ?m = "fst (addTimer new_TimerManager 4 10 5 (Some (Plain 1)) True)"
  have "tm_reach ?m" by (rule tm_reach_one)
  moreover have "tm_obj ?m = [4 \<mapsto> new_Timer 10 5 (Some (Plain 1)) True]" "tm_timers ?m = [4]"
    by (simp_all add: addTimer_new)
  then have "4 \<in> set (tm_timers ?m)" "next_of (tm_obj ?m) 4 < 20" "9 \<notin> set (tm_timers ?m)"
    by (simp_all add: next_of_def new_Timer_def)
  ultimately show ?thesis using timers_expire [of ?m 9 20] by blast
qed

text \<open>
  \<open>getNextTimerTime\<close> is the time to the earliest deadline: no timer of the set is due strictly
  before \<open>now\<close> plus the returned value, and one is due exactly then; with no timers it is the
  largest \<open>uint64_t\<close>.
\<close>

theorem next_timer_time:
  assumes "tm_reach m" "tm_timers m \<noteq> []"
  shows "\<exists>x \<in> set (tm_timers m).
    (\<forall>y \<in> set (tm_timers m). next_of (tm_obj m) x \<le> next_of (tm_obj m) y) \<and>
    getNextTimerTime m now = (if next_of (tm_obj m) x \<le> now then 0 else next_of (tm_obj m) x - now)"
proof -
  obtain x xs where x: "tm_timers m = x # xs" using assms(2) by (cases "tm_timers m") auto
  then have "next_of (tm_obj m) x \<le> next_of (tm_obj m) y" if "y \<in> set (tm_timers m)" for y
    using that tm_reach_inv [OF assms(1)]
    by (auto simp: tm_inv_def Comparator_def split: if_splits)
  then show ?thesis using x by (intro bexI [of _ x]) (auto simp: getNextTimerTime_def)
qed

theorem next_timer_time_witness:
  "\<exists>x \<in> set (tm_timers (fst (addTimer new_TimerManager 4 10 5 (Some (Plain 1)) False))).
    getNextTimerTime (fst (addTimer new_TimerManager 4 10 5 (Some (Plain 1)) False)) 12 =
    (if next_of (tm_obj (fst (addTimer new_TimerManager 4 10 5 (Some (Plain 1)) False))) x \<le> 12 then 0
     else next_of (tm_obj (fst (addTimer new_TimerManager 4 10 5 (Some (Plain 1)) False))) x - 12)"
proof -
  let ?m = "fst (addTimer new_TimerManager 4 10 5 (Some (Plain 1)) False)"
  have "tm_reach ?m" by (rule tm_reach_one)
  moreover have "tm_timers ?m \<noteq> []"
    by (simp add: addTimer_new)
  ultimately show ?thesis using next_timer_time [of ?m 12] by blast
qed

text \<open>
  \<open>reset(ms, false)\<close> stores the new interval but leaves the deadline where it was, because the
  start is computed as \<open>next_ - ms\<close> with the new interval and \<open>ms\<close> is added back; only
  \<open>reset(ms, true)\<close> moves the deadline, to \<open>now + ms\<close>.
\<close>

theorem timer_reset_deadline:
  assumes "tm_reach m" "tm_obj m a = Some t" "t_callback t \<noteq> None"
  shows "\<exists>m' front. reset m a now ms from_now = Inr (True, m', front) \<and> a \<in> set (tm_timers m') \<and>
    tm_obj m' a = Some (t\<lparr>t_ms := ms, t_next := (if from_now then now + ms else t_next t)\<rparr>)"
  using reset_live [OF tm_reach_inv [OF assms(1)] assms(2,3)] .

theorem timer_reset_deadline_witness:
  "\<exists>m' front t. reset (fst (addTimer new_TimerManager 4 10 5 (Some (Plain 1)) False)) 4 11 100 False =
      Inr (True, m', front) \<and> tm_obj m' 4 = Some t \<and> t_ms t = 100 \<and> t_next t = 15"
proof -
  let ?m = "fst (addTimer new_TimerManager 4 10 5 (Some (Plain 1)) False)"
  let ?t = "new_Timer 10 5 (Some (Plain 1)) False"
  have "tm_reach ?m" by (rule tm_reach_one)
  moreover have "tm_obj ?m 4 = Some ?t"
    by (simp add: addTimer_new)
  moreover have "t_callback ?t \<noteq> None" by (simp add: new_Timer_def)
  ultimately show ?thesis
    using timer_reset_deadline [of ?m 4 ?t 11 100 False] by (auto simp: new_Timer_def)
qed

end
