(* ===== verification/Rpc_Server.thy ===== *)
theory Rpc_Server
  imports Rpc_Result Timer
begin

text \<open>
  The server side of remote calls (\<open>include/rpc/rpc_server.h\<close>, \<open>src/rpc/rpc_server.cc\<close>): the method
  table, \<open>proxy\<close>, \<open>call\<close>, the handlers of the messages, \<open>publish\<close> and the clean-up of dead
  subscribers; and the two ends of a call on the client (\<open>include/rpc/rpc_client.h\<close>): building the
  request content and decoding the response.

  A registered function is its argument types, its return type and its effect on values. A C++
  exception raised while arguments are read is caught by \<open>proxy\<close>; the other faults stop the
  process. Sessions are identified by numbers, and \<open>alive\<close> says which weak pointers still lead to a
  connected session. Memory that C++ leaves uninitialised (buffers, \<open>Result\<close> fields) is a parameter.
\<close>

section \<open>State\<close>

record rpc_method =
  m_args :: "sty list"
  m_ret :: sty
  m_fun :: "sval list \<Rightarrow> sval"

record rpc_server =
  rs_services :: "bytes \<rightharpoonup> rpc_method"
  rs_subscribes :: "bytes \<rightharpoonup> nat"

fun is_exception :: "fault \<Rightarrow> bool" where
  "is_exception OutOfRange = True"
| "is_exception LengthError = True"
| "is_exception LogicError = True"
| "is_exception _ = False"

text \<open>The components of a default-constructed \<open>std::tuple\<close> are value-initialised.\<close>

fun default_val :: "sty \<Rightarrow> sval" where
  "default_val TBool = VBool False"
| "default_val TFloat = VFloat 0"
| "default_val TDouble = VDouble 0"
| "default_val TInt8 = VInt8 0"
| "default_val TUint8 = VUint8 0"
| "default_val TInt16 = VInt16 0"
| "default_val TUint16 = VUint16 0"
| "default_val TInt32 = VInt32 0"
| "default_val TUint32 = VUint32 0"
| "default_val TInt64 = VInt64 0"
| "default_val TUint64 = VUint64 0"
| "default_val TString = VString []"
| "default_val TOther = VOther 0"

section \<open>Calling a method\<close>

definition registerMethod :: "rpc_server \<Rightarrow> bytes \<Rightarrow> rpc_method \<Rightarrow> rpc_server" where
  "registerMethod srv name m = srv\<lparr>rs_services := (rs_services srv)(name \<mapsto> m)\<rparr>"

definition proxy :: "(nat \<Rightarrow> nat \<Rightarrow> u8) \<Rightarrow> rpc_method \<Rightarrow> bytearray \<Rightarrow> bytes \<Rightarrow> bytearray res" where
  "proxy fill m serializer arg =
     bindE (Serializer_content fill arg) (\<lambda>s.
       case get_tuple s (m_args m) (map default_val (m_args m)) of
         Inl f \<Rightarrow>
           if is_exception f
           then put_Result serializer \<lparr>r_code = state_code RPC_ARGS_NOT_MATCH,
             r_msg = lit ''args not match'', r_val = default_val (m_ret m)\<rparr>
           else Inl f
       | Inr (args, s) \<Rightarrow>
           put_Result serializer \<lparr>r_code = state_code RPC_SUCCESS, r_msg = [], r_val = m_fun m args\<rparr>)"

definition server_call :: "(nat \<Rightarrow> nat \<Rightarrow> u8) \<Rightarrow> rpc_server \<Rightarrow> bytes \<Rightarrow> bytes \<Rightarrow> bytearray res" where
  "server_call fill srv funName args =
     (case rs_services srv funName of
        None \<Rightarrow> Inr (new_Serializer fill)
      | Some m \<Rightarrow> bindE (proxy fill m (new_Serializer fill) args) ser_reset)"

definition handleMethodCall :: "(nat \<Rightarrow> nat \<Rightarrow> u8) \<Rightarrow> rpc_server \<Rightarrow> protocol \<Rightarrow> protocol res" where
  "handleMethodCall fill srv request =
     bindE (Serializer_content fill (p_content request)) (\<lambda>s.
     bindE (readStringVint s) (\<lambda>(funName, s).
     bindE (ser_toString s) (\<lambda>args.
     bindE (server_call fill srv funName args) (\<lambda>rt.
     bindE (ser_toString rt) (\<lambda>content.
     Inr (Create RPC_METHOD_RESPONSE content (p_sequence_id request)))))))"

section \<open>Subscriptions\<close>

text \<open>\<open>val0\<close> is the uninitialised value of \<open>Result<>::Success()\<close>.\<close>

definition handleSubscribe :: "(nat \<Rightarrow> nat \<Rightarrow> u8) \<Rightarrow> u8 \<Rightarrow> rpc_server \<Rightarrow> protocol \<Rightarrow> nat \<Rightarrow>
    (protocol \<times> rpc_server) res" where
  "handleSubscribe fill val0 srv request client =
     bindE (Serializer_content fill (p_content request)) (\<lambda>s.
     bindE (readStringVint s) (\<lambda>(key, s).
     let srv' = (if rs_subscribes srv key = None
                 then srv\<lparr>rs_subscribes := (rs_subscribes srv)(key \<mapsto> client)\<rparr> else srv) in
     bindE (ser_reset s) (\<lambda>s.
     bindE (put_Result s (Success (VUint8 val0))) (\<lambda>s.
     bindE (ser_toString s) (\<lambda>content.
     Inr (Create RPC_SUBSCRIBE_RESPONSE content (p_sequence_id request), srv'))))))"

text \<open>\<open>publish\<close>: the sessions the message is sent to, and the message. \<open>put\<close> writes the data.\<close>

definition server_publish :: "(nat \<Rightarrow> nat \<Rightarrow> u8) \<Rightarrow> (nat \<Rightarrow> bool) \<Rightarrow> rpc_server \<Rightarrow> bytes \<Rightarrow>
    (bytearray \<Rightarrow> bytearray res) \<Rightarrow> (nat \<times> protocol) list res" where
  "server_publish fill alive srv key put =
     (if rs_subscribes srv = Map.empty then Inr []
      else bindE (writeStringVint (new_Serializer fill) key) (\<lambda>s.
        bindE (put s) (\<lambda>s.
        bindE (ser_reset s) (\<lambda>s.
        bindE (ser_toString s) (\<lambda>content.
        Inr (case rs_subscribes srv key of None \<Rightarrow> []
             | Some c \<Rightarrow> if alive c then [(c, Create RPC_PUBLISH_REQUEST content 0)] else []))))))"

text \<open>One pass of the clean-up fiber.\<close>

definition clean_subscribes :: "(nat \<Rightarrow> bool) \<Rightarrow> rpc_server \<Rightarrow> rpc_server" where
  "clean_subscribes alive srv =
     srv\<lparr>rs_subscribes := (\<lambda>key. case rs_subscribes srv key of
        Some c \<Rightarrow> if alive c then Some c else None | None \<Rightarrow> None)\<rparr>"

section \<open>The message loop\<close>

definition handleHeartBeatPacket :: "protocol \<Rightarrow> protocol" where
  "handleHeartBeatPacket request = HeartBeat"

text \<open>
  \<open>update\<close>: the first call arms the connection's heartbeat timer, whose callback closes the client;
  later calls move its deadline. \<open>a\<close> is the address of a new timer, \<open>now\<close> the clock.
\<close>

definition update :: "timer_manager \<Rightarrow> nat \<Rightarrow> u64 \<Rightarrow> u64 \<Rightarrow> nat option \<Rightarrow> nat \<Rightarrow>
    (nat option \<times> timer_manager) res" where
  "update tm a now alive_time heartTimer client =
     (case heartTimer of
        None \<Rightarrow> Inr (Some a, fst (addTimer tm a now alive_time (Some (Plain client)) False))
      | Some t \<Rightarrow> bindE (reset tm t now alive_time True) (\<lambda>(_, tm, _). Inr (Some t, tm)))"

text \<open>
  What a round of \<open>handleClient\<close> does with a request: \<open>Stop\<close> leaves the loop, \<open>Reply\<close> sends a
  response (if any) and goes on.
\<close>

datatype round = Stop | Reply "protocol option"

definition handleClient_round :: "(nat \<Rightarrow> nat \<Rightarrow> u8) \<Rightarrow> u8 \<Rightarrow> nat \<Rightarrow> u64 \<Rightarrow> u64 \<Rightarrow> nat \<Rightarrow>
    rpc_server \<times> timer_manager \<times> nat option \<Rightarrow> protocol option \<Rightarrow>
    (round \<times> rpc_server \<times> timer_manager \<times> nat option) res" where
  "handleClient_round fill val0 a now alive_time session st request =
     (case st of (srv, tm, heartTimer) \<Rightarrow>
      case request of None \<Rightarrow> Inr (Stop, srv, tm, heartTimer)
      | Some req \<Rightarrow>
        bindE (update tm a now alive_time heartTimer session) (\<lambda>(heartTimer, tm).
        (case getMsgType req of
           Some HEARTBEAT_PACKET \<Rightarrow> Inr (Reply (Some (handleHeartBeatPacket req)), srv, tm, heartTimer)
         | Some RPC_METHOD_REQUEST \<Rightarrow>
             bindE (handleMethodCall fill srv req) (\<lambda>resp. Inr (Reply (Some resp), srv, tm, heartTimer))
         | Some RPC_SUBSCRIBE_REQUEST \<Rightarrow>
             bindE (handleSubscribe fill val0 srv req session)
               (\<lambda>(resp, srv). Inr (Reply (Some resp), srv, tm, heartTimer))
         | Some RPC_PUBLISH_RESPONSE \<Rightarrow> Inr (Stop, srv, tm, heartTimer)
         | _ \<Rightarrow> Inr (Reply None, srv, tm, heartTimer))))"

section \<open>The registry connection of a server\<close>

text \<open>
  \<open>connectRegistry\<close> once connected: the message it sends, with the port of \<open>bind\<close>; and
  \<open>registerService\<close>: the message it sends and what it makes of the answer.
\<close>

definition connectRegistry_message :: "(nat \<Rightarrow> nat \<Rightarrow> u8) \<Rightarrow> u32 \<Rightarrow> protocol res" where
  "connectRegistry_message fill port =
     bindE (writeUint32 (new_Serializer fill) port) (\<lambda>s.
     bindE (ser_reset s) (\<lambda>s.
     bindE (ser_toString s) (\<lambda>content.
     Inr (Create RPC_PROVIDER content 0))))"

definition registerService_request :: "bytes \<Rightarrow> protocol" where
  "registerService_request name = Create RPC_SERVICE_REGISTER name 0"

definition registerService_result :: "(nat \<Rightarrow> nat \<Rightarrow> u8) \<Rightarrow> u16 \<Rightarrow> protocol option \<Rightarrow> rpc_result option res" where
  "registerService_result fill code0 response =
     (case response of None \<Rightarrow> Inr None
      | Some resp \<Rightarrow>
        bindE (Serializer_content fill (p_content resp)) (\<lambda>s.
        bindE (get_Result TString s (new_Result code0 (VString []))) (\<lambda>(result, s).
        Inr (Some result))))"

section \<open>The client's end of a call\<close>

definition call_request :: "(nat \<Rightarrow> nat \<Rightarrow> u8) \<Rightarrow> bytes \<Rightarrow> sval list \<Rightarrow> u32 \<Rightarrow> protocol res" where
  "call_request fill name args i =
     bindE (writeStringVint (new_Serializer fill) name) (\<lambda>s.
     bindE (put_tuple s args) (\<lambda>s.
     bindE (ser_reset s) (\<lambda>s.
     bindE (ser_toString s) (\<lambda>content.
     Inr (Create RPC_METHOD_REQUEST content i)))))"

text \<open>
  From the point where the response is there; \<open>val\<close> is the local result, whose code is
  uninitialised. \<open>None\<close> is the null pointer that \<open>close()\<close> puts into the channel.
\<close>

definition call_response :: "(nat \<Rightarrow> nat \<Rightarrow> u8) \<Rightarrow> sty \<Rightarrow> rpc_result \<Rightarrow> protocol option \<Rightarrow> rpc_result res" where
  "call_response fill ty val response =
     (case response of
        None \<Rightarrow> Inr (val\<lparr>r_code := state_code RPC_CLOSED, r_msg := lit ''socket closed''\<rparr>)
      | Some resp \<Rightarrow>
        if p_content resp = []
        then Inr (val\<lparr>r_code := state_code RPC_NO_METHOD, r_msg := lit ''method not find''\<rparr>)
        else bindE (Serializer_content fill (p_content resp)) (\<lambda>seria.
          case get_Result ty seria val of
            Inr (val', _) \<Rightarrow> Inr val'
          | Inl f \<Rightarrow>
              if is_exception f
              then Inr (val\<lparr>r_code := state_code RPC_ARGS_NOT_MATCH, r_msg := lit ''return value not match''\<rparr>)
              else Inl f))"

section \<open>Lemmas\<close>

lemma ser_toString_content:
  assumes "wrote (new_Serializer fill) bs s" "length bs \<le> string_max_size"
  shows "\<exists>s'. ser_reset s = Inr s' \<and> ser_toString s' = Inr bs"
proof -
  have "ba_inv s" "ba_content s = bs" using assms(1) by (auto simp: wrote_def ba_content_def)
  then obtain s' where "ser_reset s = Inr s'" "ba_inv s'" "ahead s' = bs"
    using ser_reset_view by metis
  then show ?thesis using ByteArray_toString_ahead assms(2) by (auto simp: ser_toString_def)
qed

lemma readStringVint_content:
  assumes "length str \<le> string_max_size"
  shows "\<exists>s s'. Serializer_content fill (vint.enc_string str @ rest) = Inr s \<and>
    readStringVint s = Inr (str, s') \<and> ba_inv s \<and> ba_inv s' \<and> ahead s' = rest \<and> behind s = [] \<and>
    ba_content s' = vint.enc_string str @ rest"
proof -
  obtain s where s: "Serializer_content fill (vint.enc_string str @ rest) = Inr s" "ba_inv s"
    "behind s = []" "ahead s = vint.enc_string str @ rest"
    using Serializer_content_view by blast
  obtain s' where s': "readStringVint s = Inr (str, s')" "consumed s (vint.enc_string str) s'"
    using strVint.get_law [OF s(2) _ s(4)] assms by (auto simp: vint_fits)
  have "ahead s' = rest" using consumed_ahead [OF s'(2) s(4)] .
  moreover have "ba_content s' = vint.enc_string str @ rest"
    using s'(2) s(3) calculation by (simp add: consumed_def ba_content_def)
  ultimately show ?thesis
    using s(1-3) s'(1) consumed_inv [OF s'(2)] by blast
qed

lemma call_request_eq:
  assumes "length (vint.enc_string name @ tuple_enc args) \<le> string_max_size"
  shows "call_request fill name args i =
    Inr (Create RPC_METHOD_REQUEST (vint.enc_string name @ tuple_enc args) i)"
proof -
  obtain s1 where s1: "writeStringVint (new_Serializer fill) name = Inr s1"
    "wrote (new_Serializer fill) (vint.enc_string name) s1"
    using ser_write_wrote [OF new_Serializer_inv, of _ "VString name"] by auto
  obtain s2 where s2: "put_tuple s1 args = Inr s2" "wrote s1 (tuple_enc args) s2"
    using put_tuple_wrote [OF wrote_inv [OF s1(2)]] by blast
  show ?thesis
    using s1(1) s2(1) ser_toString_content [OF wrote_trans [OF s1(2) s2(2)] assms]
    by (auto simp: call_request_def)
qed

lemma handleMethodCall_eq:
  assumes "p_content req = vint.enc_string name @ rest" "length (vint.enc_string name @ rest) \<le> string_max_size"
  shows "handleMethodCall fill srv req =
    bindE (server_call fill srv name rest) (\<lambda>rt. bindE (ser_toString rt)
      (\<lambda>content. Inr (Create RPC_METHOD_RESPONSE content (p_sequence_id req))))"
proof -
  have name: "length name \<le> string_max_size" "length rest \<le> string_max_size"
    using assms(2) by (simp_all add: vint.enc_string_def)
  obtain s s' where "Serializer_content fill (p_content req) = Inr s" "readStringVint s = Inr (name, s')"
    "ba_inv s'" "ahead s' = rest"
    using readStringVint_content [OF name(1)] assms(1) by metis
  then show ?thesis
    using ByteArray_toString_ahead [of s'] name(2)
    by (simp add: handleMethodCall_def ser_toString_def del: length_ahead)
qed

lemma proxy_success:
  assumes "list_all2 sval_ok (m_args m) args"
  shows "\<exists>s. proxy fill m (new_Serializer fill) (tuple_enc args) = Inr s \<and>
    wrote (new_Serializer fill) (result_enc \<lparr>r_code = 0, r_msg = [], r_val = m_fun m args\<rparr>) s"
proof -
  obtain s where s: "Serializer_content fill (tuple_enc args) = Inr s" "ba_inv s"
    "ahead s = tuple_enc args @ []"
    using Serializer_content_view [of fill "tuple_enc args"] by auto
  obtain s' where "get_tuple s (m_args m) (map default_val (m_args m)) = Inr (args, s')"
    using get_tuple_consumed [OF s(2) assms _ s(3), of "map default_val (m_args m)"] by auto
  then show ?thesis
    using s(1) put_Result_wrote [OF new_Serializer_inv] by (simp add: proxy_def)
qed

lemma rpc_roundtrip:
  assumes "rs_services srv name = Some m" "list_all2 sval_ok (m_args m) args"
    "sval_ok (m_ret m) (m_fun m args)"
    "length (vint.enc_string name @ tuple_enc args) \<le> string_max_size"
    "length (result_enc \<lparr>r_code = 0, r_msg = [], r_val = m_fun m args\<rparr>) \<le> string_max_size"
  shows "\<exists>req resp. call_request fill name args i = Inr req \<and>
    handleMethodCall fill' srv req = Inr resp \<and> p_sequence_id resp = i \<and>
    getMsgType resp = Some RPC_METHOD_RESPONSE \<and>
    call_response fill (m_ret m) (new_Result code0 val0) (Some resp) =
      Inr \<lparr>r_code = code0, r_msg = [], r_val = m_fun m args\<rparr>"
proof -
  let ?res = "\<lparr>r_code = 0, r_msg = [], r_val = m_fun m args\<rparr>"
  let ?req = "Create RPC_METHOD_REQUEST (vint.enc_string name @ tuple_enc args) i"
  let ?resp = "Create RPC_METHOD_RESPONSE (result_enc ?res) i"
  obtain s s' where s: "proxy fill' m (new_Serializer fill') (tuple_enc args) = Inr s"
    "ser_reset s = Inr s'" "ser_toString s' = Inr (result_enc ?res)"
    using proxy_success [OF assms(2)] ser_toString_content [OF _ assms(5)] by metis
  have "p_content ?req = vint.enc_string name @ tuple_enc args" by (simp add: Create_def)
  from handleMethodCall_eq [OF this assms(4), of fill' srv]
  have resp: "handleMethodCall fill' srv ?req = Inr ?resp"
    using s assms(1) by (simp add: server_call_def Create_def)
  obtain t where t: "Serializer_content fill (result_enc ?res) = Inr t" "ba_inv t"
    "ahead t = vint.enc_string [] @ sval_enc (m_fun m args) @ []"
    using Serializer_content_view [of fill "result_enc ?res"] by (auto simp: result_enc_def)
  have "result_enc ?res \<noteq> []"
    using varint_nat_nonempty by (simp add: result_enc_def vint.enc_string_def varint_bytes64_eq)
  then have "call_response fill (m_ret m) (new_Result code0 val0) (Some ?resp) =
      Inr \<lparr>r_code = code0, r_msg = [], r_val = m_fun m args\<rparr>"
    using get_Result_success [OF t(2,3) _ assms(3), of "new_Result code0 val0"] t(1)
    by (auto simp: call_response_def Create_def new_Result_def)
  then show ?thesis
    using call_request_eq [OF assms(4), of fill i] resp by (intro exI conjI) (assumption | simp)+
qed

text \<open>A round's \<open>update\<close> succeeds and keeps the timer of the connection.\<close>

lemma update_kept:
  assumes "tm_obj tm a \<noteq> None"
  shows "\<exists>tm'. update tm a now t (Some a) c = Inr (Some a, tm') \<and> tm_obj tm' a \<noteq> None"
  using assms by (auto simp: update_def reset_def Let_def addTimer_locked_def split: option.splits prod.splits)

lemma update_first: "\<exists>tm'. update tm a now t None c = Inr (Some a, tm') \<and> tm_obj tm' a \<noteq> None"
  by (simp add: update_def addTimer_def addTimer_locked_def Let_def)

definition add_method :: rpc_method where
  "add_method = \<lparr>m_args = [TInt32, TInt32], m_ret = TInt32,
     m_fun = (\<lambda>args. case args of [VInt32 a, VInt32 b] \<Rightarrow> VInt32 (a + b) | _ \<Rightarrow> VInt32 0)\<rparr>"

section \<open>Properties\<close>

text \<open>
  C34. A call of a name that is not registered is answered with an empty content, which the client
  reports as \<open>RPC_NO_METHOD\<close>; no function is run.
\<close>

theorem rpc_call_unknown:
  assumes "rs_services srv name = None"
    "length (vint.enc_string name @ tuple_enc args) \<le> string_max_size"
  shows "\<exists>req resp res. call_request fill name args i = Inr req \<and>
    handleMethodCall fill' srv req = Inr resp \<and> p_content resp = [] \<and>
    call_response fill ty val (Some resp) = Inr res \<and> r_code res = state_code RPC_NO_METHOD"
proof -
  let ?req = "Create RPC_METHOD_REQUEST (vint.enc_string name @ tuple_enc args) i"
  have "p_content ?req = vint.enc_string name @ tuple_enc args" by (simp add: Create_def)
  from handleMethodCall_eq [OF this assms(2), of fill' srv]
  have "handleMethodCall fill' srv ?req = Inr (Create RPC_METHOD_RESPONSE [] i)"
    using assms(1) ByteArray_toString_ahead [OF new_Serializer_inv, of fill']
    by (simp add: server_call_def ser_toString_def Create_def del: length_ahead)
  then show ?thesis
    using call_request_eq [OF assms(2)] by (auto simp: call_response_def Create_def)
qed

theorem rpc_call_unknown_witness:
  "\<exists>req resp res. call_request (\<lambda>_ _. 7) [97] [VBool True] 9 = Inr req \<and>
    handleMethodCall (\<lambda>_ _. 8) \<lparr>rs_services = Map.empty, rs_subscribes = Map.empty\<rparr> req = Inr resp \<and>
    p_content resp = [] \<and>
    call_response (\<lambda>_ _. 7) TInt32 (new_Result 77 (VInt32 0)) (Some resp) = Inr res \<and>
    r_code res = state_code RPC_NO_METHOD"
proof -
  have "length (vint.enc_string [97] @ tuple_enc [VBool True]) \<le> string_max_size"
    using length_varint64 [of 1] by (simp add: vint.enc_string_def tuple_enc_def string_max_size_def)
  then show ?thesis
    using rpc_call_unknown [of "\<lparr>rs_services = Map.empty, rs_subscribes = Map.empty\<rparr>" "[97]"
        "[VBool True]" "\<lambda>_ _. 7" 9 "\<lambda>_ _. 8" TInt32 "new_Result 77 (VInt32 0)"] by simp
qed

text \<open>
  The answer to a subscription is not the result that \<open>handleSubscribe\<close> serializes: it writes
  the result over the beginning of the request content and then takes the bytes behind it, so the
  response carries the tail of the request, or nothing. The subscriber is recorded under its
  key only if the key has none yet.
\<close>

theorem subscribe_response_content:
  assumes "p_content req = vint.enc_string key @ rest" "length (p_content req) \<le> string_max_size"
  shows "\<exists>resp srv'. handleSubscribe fill val0 srv req client = Inr (resp, srv') \<and>
    p_content resp = drop (length (vint.enc_string (lit ''success'')) + 1) (p_content req) \<and>
    rs_subscribes srv' key = Some (case rs_subscribes srv key of None \<Rightarrow> client | Some c \<Rightarrow> c)"
proof -
  have len: "length key \<le> string_max_size" using assms by (simp add: vint.enc_string_def)
  obtain s s' where s: "Serializer_content fill (p_content req) = Inr s" "readStringVint s = Inr (key, s')"
    "ba_inv s'" "ba_content s' = p_content req"
    using readStringVint_content [OF len] assms(1) by metis
  obtain t where t: "ser_reset s' = Inr t" "ba_inv t" "ahead t = p_content req"
    using ser_reset_view [OF s(3)] s(4) by metis
  let ?res = "Success (VUint8 val0)"
  obtain u where u: "put_Result t ?res = Inr u" "ba_inv u"
    "ahead u = drop (length (result_enc ?res)) (p_content req)"
    using put_Result_wrote [OF t(2)] t(3) by (auto simp: wrote_def)
  have "length (ahead u) \<le> string_max_size" using u(3) assms(2) by simp
  then have "ser_toString u = Inr (drop (length (result_enc ?res)) (p_content req))"
    using ByteArray_toString_ahead [OF u(2)] u(3) by (simp add: ser_toString_def del: length_ahead)
  then show ?thesis
    using s(1,2) t(1) u(1)
    by (auto simp: handleSubscribe_def Let_def Create_def result_enc_def Success_def split: option.splits)
qed

theorem subscribe_response_content_witness:
  "\<exists>resp srv'. handleSubscribe (\<lambda>_ _. 7) 0 \<lparr>rs_services = Map.empty, rs_subscribes = Map.empty\<rparr>
      (Create RPC_SUBSCRIBE_REQUEST (vint.enc_string [107]) 0) 3 = Inr (resp, srv') \<and>
    p_content resp = drop (length (vint.enc_string (lit ''success'')) + 1) (vint.enc_string [107]) \<and>
    rs_subscribes srv' [107] = Some 3"
  using subscribe_response_content [of "Create RPC_SUBSCRIBE_REQUEST (vint.enc_string [107]) 0" "[107]" "[]"
      "\<lambda>_ _. 7" 0 "\<lparr>rs_services = Map.empty, rs_subscribes = Map.empty\<rparr>" 3]
    length_varint64 [of 1]
  by (simp add: Create_def) (simp add: vint.enc_string_def string_max_size_def)

text \<open>
  C27. A client that keeps talking is not dropped: whatever request the server reads at time \<open>now\<close>,
  if the round returns and the connection's heartbeat timer had not fired, the timer stays armed
  with the deadline \<open>now\<close> plus the alive time, so it does not expire at any earlier time.
\<close>

theorem heartbeat_keeps_client:
  assumes "tm_reach tm" "tm_obj tm t = Some old" "t_callback old \<noteq> None"
    "handleClient_round fill val0 a now alive_time session (srv, tm, Some t) (Some req) =
       Inr (r, srv', tm', ht)"
  shows "ht = Some t \<and> tm_reach tm' \<and> t \<in> set (tm_timers tm') \<and>
    next_of (tm_obj tm') t = now + alive_time \<and>
    (a' \<notin> set (tm_timers tm') \<and> later < now + alive_time \<longrightarrow>
       tm_obj (snd (listOverTimeCallback tm' a' later)) t = tm_obj tm' t)"
proof -
  note inv = tm_reach_inv [OF assms(1)]
  obtain tm1 front where r: "reset tm t now alive_time True = Inr (True, tm1, front)"
    "t \<in> set (tm_timers tm1)" "tm_obj tm1 t = Some (old\<lparr>t_ms := alive_time, t_next := now + alive_time\<rparr>)"
    using reset_live [OF inv assms(2,3), of now alive_time True] by auto
  have reach: "tm_reach tm1" using reach_step [OF assms(1) step_reset [OF r(1)]] .
  have eq: "tm' = tm1" "ht = Some t"
    using assms(4) r(1)
    by (auto simp: handleClient_round_def update_def split: option.splits MsgType.splits)
  have nxt: "next_of (tm_obj tm1) t = now + alive_time" using r(3) by (simp add: next_of_def)
  have "tm_obj (snd (listOverTimeCallback tm1 a' later)) t = tm_obj tm1 t"
    if "a' \<notin> set (tm_timers tm1)" "later < now + alive_time"
  proof -
    have "\<not> due tm1 a' later t" using that(2) nxt by (auto simp: due_def)
    then show ?thesis using listOverTimeCallback_eq [OF tm_reach_inv [OF reach] that(1), of later] by auto
  qed
  then show ?thesis using reach r(2) nxt eq by blast
qed

theorem heartbeat_keeps_client_witness:
  "\<exists>tm'. handleClient_round (\<lambda>_ _. 7) 0 5 20 40000 3
      (\<lparr>rs_services = Map.empty, rs_subscribes = Map.empty\<rparr>,
       fst (addTimer new_TimerManager 4 10 40000 (Some (Plain 3)) False), Some 4) (Some HeartBeat) =
      Inr (Reply (Some HeartBeat), \<lparr>rs_services = Map.empty, rs_subscribes = Map.empty\<rparr>, tm', Some 4) \<and>
    next_of (tm_obj tm') 4 = 40020 \<and> tm_obj (snd (listOverTimeCallback tm' 9 40019)) 4 = tm_obj tm' 4"
proof -
  let ?tm = "fst (addTimer new_TimerManager 4 10 40000 (Some (Plain 3)) False)"
  let ?srv = "\<lparr>rs_services = Map.empty, rs_subscribes = Map.empty\<rparr>"
  let ?t = "new_Timer 10 40000 (Some (Plain 3)) False"
  have tm: "tm_reach ?tm" "tm_obj ?tm 4 = Some ?t" "t_callback ?t \<noteq> None"
    by (rule tm_reach_one) (simp_all add: addTimer_new new_Timer_def)
  obtain tm' where round: "handleClient_round (\<lambda>_ _. 7) 0 5 20 40000 3 (?srv, ?tm, Some 4) (Some HeartBeat) =
      Inr (Reply (Some HeartBeat), ?srv, tm', Some 4)" "tm_timers tm' = [4]"
    by (simp add: handleClient_round_def update_def reset_def addTimer_new new_Timer_def
        addTimer_locked_def set_find_def Comparator_def next_of_def
        HeartBeat_def handleHeartBeatPacket_def)
  show ?thesis
    using heartbeat_keeps_client [OF tm round(1), of 9 40019] round by simp
qed

end
