(* ===== verification/Channel.thy ===== *)
theory Channel
  imports Timer
begin

text \<open>
  Condition variables, semaphores and channels between fibers (\<open>src/mutex.cc\<close>, \<open>include/mutex.h\<close>,
  \<open>include/channel.h\<close>).

  A condition variable keeps its waiting fibers in a \<open>std::set\<close>, ordered by address; fibers are
  numbers in that order. The code of a channel runs under its mutex and gives it up only in a wait,
  so an execution is a sequence of segments: the code from the moment a call has the mutex, or a wait has it
  back, up to the next wait or the return of the call. \<open>ch_exec\<close> runs one segment. A wait ends in two steps: the fiber is
  submitted to the scheduler, by a notification or a timeout, and runs again, and then it
  takes the mutex back, which may keep it for any time or for ever (\<open>comutex_lost_wakeup\<close> in \<open>Sync\<close>).
  \<open>ch_woken\<close> are the fibers that have been submitted and do not have the mutex yet, \<open>ch_locking\<close> those of them that run already
  and are in its \<open>lock()\<close>. A fiber that \<open>CoCondVar::waitFor\<close> takes there holds the spin lock of the condition variable meanwhile, and every call
  that needs this spin lock has to wait for it.
\<close>

section \<open>Condition variables\<close>

text \<open>\<open>cv_timer\<close> tells whether the dummy timer that keeps the scheduler alive is armed.\<close>

record condvar =
  cv_waitQueue :: "nat list"
  cv_timer :: bool

definition new_CoCondVar :: condvar where
  "new_CoCondVar = \<lparr>cv_waitQueue = [], cv_timer = False\<rparr>"

definition cv_wait :: "nat \<Rightarrow> condvar \<Rightarrow> condvar" where
  "cv_wait f cv = cv\<lparr>cv_waitQueue := set_insert (<) f (cv_waitQueue cv), cv_timer := True\<rparr>"

definition cv_waitFor :: "nat \<Rightarrow> condvar \<Rightarrow> condvar" where
  "cv_waitFor f cv = cv\<lparr>cv_waitQueue := set_insert (<) f (cv_waitQueue cv)\<rparr>"

text \<open>The fibers submitted, and the condition variable afterwards.\<close>

definition cv_notify :: "condvar \<Rightarrow> nat list \<times> condvar" where
  "cv_notify cv = (take 1 (cv_waitQueue cv), \<lparr>cv_waitQueue = drop 1 (cv_waitQueue cv), cv_timer = False\<rparr>)"

definition cv_notifyAll :: "condvar \<Rightarrow> nat list \<times> condvar" where
  "cv_notifyAll cv = (cv_waitQueue cv, \<lparr>cv_waitQueue = [], cv_timer = False\<rparr>)"

text \<open>The callback of the timer of \<open>waitFor\<close>.\<close>

definition cv_timeout :: "nat \<Rightarrow> condvar \<Rightarrow> condvar" where
  "cv_timeout f cv = cv\<lparr>cv_waitQueue := removeAll f (cv_waitQueue cv)\<rparr>"

section \<open>Semaphores\<close>

record semaphore =
  sem_num :: u32
  sem_used :: u32
  sem_var :: condvar

definition new_CoSemaphore :: "u32 \<Rightarrow> semaphore" where
  "new_CoSemaphore count = \<lparr>sem_num = count, sem_used = 0, sem_var = new_CoCondVar\<rparr>"

definition sem_notify :: "semaphore \<Rightarrow> nat list \<times> semaphore" where
  "sem_notify s =
     (case cv_notify (sem_var s) of (ws, cv) \<Rightarrow>
        (ws, s\<lparr>sem_used := (if 0 < sem_used s then sem_used s - 1 else sem_used s), sem_var := cv\<rparr>))"

text \<open>A round of the loop of \<open>wait\<close>: true when the fiber got through.\<close>

definition sem_wait :: "nat \<Rightarrow> semaphore \<Rightarrow> bool \<times> semaphore" where
  "sem_wait f s =
     (if sem_num s \<le> sem_used s then (False, s\<lparr>sem_var := cv_wait f (sem_var s)\<rparr>)
      else (True, s\<lparr>sem_used := sem_used s + 1\<rparr>))"

section \<open>Channels\<close>

text \<open>
  What a fiber is doing: nothing, waiting in \<open>push\<close> of a message, in \<open>pop\<close>, or in \<open>waitFor\<close> with the
  flag that its timer sets.
\<close>

datatype 'a ch_pc = Idle | PushWait 'a | PopWait | TimedWait bool

record 'a channel =
  ch_isClosed :: bool
  ch_capacity :: nat
  ch_msg_queue :: "'a list"
  ch_pushCv :: condvar
  ch_popCv :: condvar
  ch_pc :: "nat \<Rightarrow> 'a ch_pc"
  ch_woken :: "nat list"
  ch_locking :: "nat list"

definition new_Channel :: "nat \<Rightarrow> 'a channel" where
  "new_Channel capacity = \<lparr>ch_isClosed = False, ch_capacity = capacity, ch_msg_queue = [],
     ch_pushCv = new_CoCondVar, ch_popCv = new_CoCondVar, ch_pc = (\<lambda>_. Idle), ch_woken = [], ch_locking = []\<rparr>"

text \<open>How a segment ends: in a wait, or with the result of the call.\<close>

datatype 'a ch_out = Waits | Fails | Pushed 'a | Popped 'a | Closed

definition ch_goto :: "nat \<Rightarrow> 'a ch_pc \<Rightarrow> 'a channel \<Rightarrow> 'a channel" where
  "ch_goto f pc ch = ch\<lparr>ch_pc := (ch_pc ch)(f := pc)\<rparr>"

definition push_loop :: "nat \<Rightarrow> 'a \<Rightarrow> 'a channel \<Rightarrow> 'a ch_out \<times> 'a channel" where
  "push_loop f t ch =
     (if ch_capacity ch \<le> length (ch_msg_queue ch)
      then (Waits, ch_goto f (PushWait t) (ch\<lparr>ch_pushCv := cv_wait f (ch_pushCv ch)\<rparr>))
      else case cv_notify (ch_popCv ch) of (ws, cv) \<Rightarrow>
        (Pushed t, ch_goto f Idle (ch\<lparr>ch_msg_queue := ch_msg_queue ch @ [t], ch_popCv := cv,
           ch_woken := ch_woken ch @ ws\<rparr>)))"

definition push :: "nat \<Rightarrow> 'a \<Rightarrow> 'a channel \<Rightarrow> 'a ch_out \<times> 'a channel" where
  "push f t ch = (if ch_isClosed ch then (Fails, ch_goto f Idle ch) else push_loop f t ch)"

definition pop_loop :: "nat \<Rightarrow> (nat \<Rightarrow> condvar \<Rightarrow> condvar) \<Rightarrow> 'a ch_pc \<Rightarrow> 'a channel \<Rightarrow>
    'a ch_out \<times> 'a channel" where
  "pop_loop f wait pc ch =
     (case ch_msg_queue ch of
        [] \<Rightarrow> (Waits, ch_goto f pc (ch\<lparr>ch_popCv := wait f (ch_popCv ch)\<rparr>))
      | t # q \<Rightarrow> (case cv_notify (ch_pushCv ch) of (ws, cv) \<Rightarrow>
          (Popped t, ch_goto f Idle (ch\<lparr>ch_msg_queue := q, ch_pushCv := cv,
             ch_woken := ch_woken ch @ ws\<rparr>))))"

definition pop :: "nat \<Rightarrow> 'a channel \<Rightarrow> 'a ch_out \<times> 'a channel" where
  "pop f ch = (if ch_isClosed ch then (Fails, ch_goto f Idle ch) else pop_loop f cv_wait PopWait ch)"

text \<open>\<open>waitFor\<close> with a timeout; without one it is \<open>pop\<close>.\<close>

definition waitFor :: "nat \<Rightarrow> 'a channel \<Rightarrow> 'a ch_out \<times> 'a channel" where
  "waitFor f ch = (if ch_isClosed ch then (Fails, ch_goto f Idle ch)
     else pop_loop f cv_waitFor (TimedWait False) ch)"

definition ch_close :: "'a channel \<Rightarrow> 'a ch_out \<times> 'a channel" where
  "ch_close ch =
     (if ch_isClosed ch then (Closed, ch)
      else case cv_notifyAll (ch_pushCv ch) of (ws, pushCv) \<Rightarrow>
           case cv_notifyAll (ch_popCv ch) of (ws', popCv) \<Rightarrow>
        (Closed, ch\<lparr>ch_isClosed := True, ch_msg_queue := [], ch_pushCv := pushCv, ch_popCv := popCv,
           ch_woken := ch_woken ch @ ws @ ws'\<rparr>))"

text \<open>
  The events of an execution. \<open>ELock f\<close>: a woken fiber runs again and starts to take the mutex back; \<open>EResume f\<close>: it has it
  and its wait returns; \<open>ETimeout f\<close>: the timer of its \<open>waitFor\<close>.
\<close>

datatype 'a ch_event = EPush nat 'a | EPop nat | EWaitFor nat | ELock nat | EResume nat | ETimeout nat | EClose

fun is_timed :: "'a ch_pc \<Rightarrow> bool" where
  "is_timed (TimedWait b) = True"
| "is_timed _ = False"

text \<open>Does a fiber's section take the spin lock of \<open>popCv_\<close>: a push that goes through notifies, a pop that finds nothing waits.\<close>

definition push_notifies :: "'a channel \<Rightarrow> bool" where
  "push_notifies ch \<longleftrightarrow> \<not> ch_isClosed ch \<and> length (ch_msg_queue ch) < ch_capacity ch"

definition pop_waits :: "'a channel \<Rightarrow> bool" where
  "pop_waits ch \<longleftrightarrow> \<not> ch_isClosed ch \<and> ch_msg_queue ch = []"

fun takes_popCv :: "'a ch_event \<Rightarrow> 'a channel \<Rightarrow> bool" where
  "takes_popCv (EPush f t) ch = push_notifies ch"
| "takes_popCv (EPop f) ch = pop_waits ch"
| "takes_popCv (EWaitFor f) ch = pop_waits ch"
| "takes_popCv (ELock f) ch = is_timed (ch_pc ch f)"
| "takes_popCv (EResume f) ch =
     (case ch_pc ch f of Idle \<Rightarrow> False | PushWait t \<Rightarrow> push_notifies ch | PopWait \<Rightarrow> pop_waits ch
      | TimedWait timedout \<Rightarrow> \<not> timedout \<and> pop_waits ch)"
| "takes_popCv (ETimeout f) ch = True"
| "takes_popCv EClose ch = (\<not> ch_isClosed ch)"

text \<open>The spin lock is held by another one: a fiber that resumes has let go of it.\<close>

definition popCv_held :: "'a ch_event \<Rightarrow> 'a channel \<Rightarrow> bool" where
  "popCv_held e ch \<longleftrightarrow> (\<exists>g \<in> set (ch_locking ch). is_timed (ch_pc ch g) \<and> (case e of EResume f \<Rightarrow> g \<noteq> f | _ \<Rightarrow> True))"

fun ch_segment :: "'a ch_event \<Rightarrow> 'a channel \<Rightarrow> ('a ch_out \<times> 'a channel) option" where
  "ch_segment (EPush f t) ch = (case ch_pc ch f of Idle \<Rightarrow> Some (push f t ch) | _ \<Rightarrow> None)"
| "ch_segment (EPop f) ch = (case ch_pc ch f of Idle \<Rightarrow> Some (pop f ch) | _ \<Rightarrow> None)"
| "ch_segment (EWaitFor f) ch = (case ch_pc ch f of Idle \<Rightarrow> Some (waitFor f ch) | _ \<Rightarrow> None)"
| "ch_segment (ELock f) ch =
     (if f \<in> set (ch_woken ch) \<and> f \<notin> set (ch_locking ch) \<and> ch_pc ch f \<noteq> Idle
      then Some (Waits, ch\<lparr>ch_locking := ch_locking ch @ [f]\<rparr>) else None)"
| "ch_segment (EResume f) ch =
     (if f \<in> set (ch_woken ch) \<and> f \<in> set (ch_locking ch)
      then let ch' = ch\<lparr>ch_woken := remove1 f (ch_woken ch), ch_locking := remove1 f (ch_locking ch)\<rparr> in
        (case ch_pc ch f of
           PushWait t \<Rightarrow> Some (push f t ch')
         | PopWait \<Rightarrow> Some (pop f ch')
         | TimedWait timedout \<Rightarrow> Some (if timedout then (Fails, ch_goto f Idle ch') else waitFor f ch')
         | Idle \<Rightarrow> None)
      else None)"
| "ch_segment (ETimeout f) ch =
     (case ch_pc ch f of
        TimedWait b \<Rightarrow> Some (Waits, ch_goto f (TimedWait True)
          (ch\<lparr>ch_popCv := cv_timeout f (ch_popCv ch), ch_woken := ch_woken ch @ [f]\<rparr>))
      | _ \<Rightarrow> None)"
| "ch_segment EClose ch = Some (ch_close ch)"

definition ch_exec :: "'a ch_event \<Rightarrow> 'a channel \<Rightarrow> ('a ch_out \<times> 'a channel) option" where
  "ch_exec e ch = (if takes_popCv e ch \<and> popCv_held e ch then None else ch_segment e ch)"

fun ch_run :: "'a ch_event list \<Rightarrow> 'a channel \<Rightarrow> ('a ch_out list \<times> 'a channel) option" where
  "ch_run [] ch = Some ([], ch)"
| "ch_run (e # es) ch =
     (case ch_exec e ch of None \<Rightarrow> None
      | Some (out, ch') \<Rightarrow> (case ch_run es ch' of None \<Rightarrow> None
          | Some (outs, ch'') \<Rightarrow> Some (out # outs, ch'')))"

text \<open>The messages accepted and the messages delivered, in order.\<close>

fun accepted :: "'a ch_out list \<Rightarrow> 'a list" where
  "accepted [] = []"
| "accepted (Pushed t # os) = t # accepted os"
| "accepted (_ # os) = accepted os"

fun delivered :: "'a ch_out list \<Rightarrow> 'a list" where
  "delivered [] = []"
| "delivered (Popped t # os) = t # delivered os"
| "delivered (_ # os) = delivered os"

section \<open>Order\<close>

text \<open>What one segment does to the queue.\<close>

definition queue_step :: "'a ch_out \<Rightarrow> 'a channel \<Rightarrow> 'a channel \<Rightarrow> bool" where
  "queue_step out ch ch' \<longleftrightarrow> ch_capacity ch' = ch_capacity ch \<and>
     (case out of
        Pushed t \<Rightarrow> \<not> ch_isClosed ch \<and> \<not> ch_isClosed ch' \<and> length (ch_msg_queue ch) < ch_capacity ch \<and>
          ch_msg_queue ch' = ch_msg_queue ch @ [t]
      | Popped t \<Rightarrow> \<not> ch_isClosed ch \<and> \<not> ch_isClosed ch' \<and> ch_msg_queue ch = t # ch_msg_queue ch'
      | Closed \<Rightarrow> ch_isClosed ch' \<and> ch_msg_queue ch' = (if ch_isClosed ch then ch_msg_queue ch else [])
      | _ \<Rightarrow> ch_isClosed ch' = ch_isClosed ch \<and> ch_msg_queue ch' = ch_msg_queue ch)"

lemmas ch_defs = push_def pop_def waitFor_def push_loop_def pop_loop_def ch_close_def ch_goto_def
  cv_notify_def cv_notifyAll_def

lemmas exec_defs = ch_defs ch_exec_def push_notifies_def pop_waits_def popCv_held_def Let_def

lemma ch_exec_segment: "ch_exec e ch = Some r \<Longrightarrow> ch_segment e ch = Some r"
  by (simp add: ch_exec_def split: if_splits)

lemma ch_segment_queue: "ch_segment e ch = Some (out, ch') \<Longrightarrow> queue_step out ch ch'"
  by (cases e) (auto simp: queue_step_def ch_defs Let_def split: ch_pc.splits if_splits list.splits)

lemma ch_run_queue:
  assumes "ch_run es ch = Some (outs, ch')" "length (ch_msg_queue ch) \<le> ch_capacity ch"
    "ch_isClosed ch \<longrightarrow> ch_msg_queue ch = []"
  shows "ch_capacity ch' = ch_capacity ch \<and> length (ch_msg_queue ch') \<le> ch_capacity ch \<and>
    (ch_isClosed ch' \<longrightarrow> ch_msg_queue ch' = []) \<and>
    (\<exists>dropped. ch_msg_queue ch @ accepted outs = delivered outs @ dropped @ ch_msg_queue ch' \<and>
       (\<not> ch_isClosed ch' \<longrightarrow> dropped = []) \<and> (ch_isClosed ch \<longrightarrow> accepted outs = [] \<and> ch_isClosed ch'))"
  using assms
proof (induction es arbitrary: ch outs)
  case Nil
  then show ?case by simp
next
  case (Cons e es)
  then obtain out ch1 outs1 where e: "ch_exec e ch = Some (out, ch1)" "ch_run es ch1 = Some (outs1, ch')"
    "outs = out # outs1"
    by (auto split: option.splits)
  have st: "queue_step out ch ch1" using ch_segment_queue [OF ch_exec_segment [OF e(1)]] .
  have "length (ch_msg_queue ch1) \<le> ch_capacity ch1" "ch_isClosed ch1 \<longrightarrow> ch_msg_queue ch1 = []"
    using st Cons.prems(2,3) by (auto simp: queue_step_def split: ch_out.splits)
  from Cons.IH [OF e(2) this] obtain dropped where ih: "ch_capacity ch' = ch_capacity ch1"
    "length (ch_msg_queue ch') \<le> ch_capacity ch1" "ch_isClosed ch' \<longrightarrow> ch_msg_queue ch' = []"
    "ch_msg_queue ch1 @ accepted outs1 = delivered outs1 @ dropped @ ch_msg_queue ch'"
    "\<not> ch_isClosed ch' \<longrightarrow> dropped = []" "ch_isClosed ch1 \<longrightarrow> accepted outs1 = [] \<and> ch_isClosed ch'"
    by blast
  show ?case
  proof (cases "out = Closed \<and> \<not> ch_isClosed ch")
    case True
    then have "ch_isClosed ch1" "ch_msg_queue ch1 = []" using st by (auto simp: queue_step_def)
    then have "accepted outs1 = []" "delivered outs1 = []" "dropped = []" "ch_msg_queue ch' = []" "ch_isClosed ch'"
      using ih by auto
    then show ?thesis
      using True st ih(1) e(3) by (auto simp: queue_step_def intro!: exI [of _ "ch_msg_queue ch"])
  next
    case False
    then show ?thesis
      using st ih e(3) by (intro conjI) (auto simp: queue_step_def split: ch_out.splits if_splits intro!: exI [of _ dropped])
  qed
qed

section \<open>Wake-ups\<close>

fun is_push :: "'a ch_pc \<Rightarrow> bool" where
  "is_push (PushWait t) = True"
| "is_push _ = False"

fun is_pop :: "'a ch_pc \<Rightarrow> bool" where
  "is_pop PopWait = True"
| "is_pop (TimedWait b) = True"
| "is_pop _ = False"

text \<open>
  A fiber that waits is in the queue of its condition variable or has been woken, not both; a closed
  channel has no fiber in a queue. While poppers are queued, there are at least as many woken
  poppers as messages, and while pushers are queued, at least as many woken pushers as free slots.
\<close>

definition ch_wf :: "'a channel \<Rightarrow> bool" where
  "ch_wf ch \<longleftrightarrow>
     (let pushq = cv_waitQueue (ch_pushCv ch); popq = cv_waitQueue (ch_popCv ch); w = ch_woken ch in
      length (ch_msg_queue ch) \<le> ch_capacity ch \<and> distinct (pushq @ popq @ w) \<and>
      (\<forall>f. is_push (ch_pc ch f) \<longrightarrow> f \<in> set pushq \<union> set w) \<and> (\<forall>f \<in> set pushq. is_push (ch_pc ch f)) \<and>
      (\<forall>f. is_pop (ch_pc ch f) \<longrightarrow> f \<in> set popq \<union> set w) \<and> (\<forall>f \<in> set popq. is_pop (ch_pc ch f)) \<and>
      (\<forall>f \<in> set w. ch_pc ch f \<noteq> Idle) \<and> (\<forall>f. ch_pc ch f \<noteq> TimedWait True) \<and>
      (ch_isClosed ch \<longrightarrow> pushq = [] \<and> popq = [] \<and> ch_msg_queue ch = []))"

definition woken_pops :: "'a channel \<Rightarrow> nat" where
  "woken_pops ch = length (filter (\<lambda>f. is_pop (ch_pc ch f)) (ch_woken ch))"

definition woken_pushes :: "'a channel \<Rightarrow> nat" where
  "woken_pushes ch = length (filter (\<lambda>f. is_push (ch_pc ch f)) (ch_woken ch))"

text \<open>The counts may be short by one for a popper, or for a pusher, that is just running.\<close>

definition ch_inv :: "nat \<Rightarrow> nat \<Rightarrow> 'a channel \<Rightarrow> bool" where
  "ch_inv a b ch \<longleftrightarrow> ch_wf ch \<and>
     (cv_waitQueue (ch_popCv ch) \<noteq> [] \<longrightarrow> length (ch_msg_queue ch) \<le> woken_pops ch + a) \<and>
     (cv_waitQueue (ch_pushCv ch) \<noteq> [] \<longrightarrow>
        ch_capacity ch \<le> length (ch_msg_queue ch) + woken_pushes ch + b)"

lemma set_insert_nat:
  "set (set_insert (<) f q) = insert f (set q)" "f \<notin> set q \<Longrightarrow> distinct (set_insert (<) f q) = distinct q"
  for f :: nat
  by (induction q) auto

lemma idle_fiber:
  assumes "ch_wf ch" "ch_pc ch f = Idle"
  shows "f \<notin> set (cv_waitQueue (ch_pushCv ch)) \<union> set (cv_waitQueue (ch_popCv ch)) \<union> set (ch_woken ch)"
  using assms by (auto simp: ch_wf_def Let_def)

lemma length_filter_remove1:
  "f \<in> set w \<Longrightarrow> length (filter P w) = length (filter P (remove1 f w)) + of_bool (P f)"
  by (induction w) auto

text \<open>A woken fiber that starts to run counts as idle.\<close>

lemma ch_inv_start:
  assumes "ch_inv 0 0 ch" "f \<in> set (ch_woken ch)"
  shows "ch_inv (of_bool (is_pop (ch_pc ch f))) (of_bool (is_push (ch_pc ch f)))
    (ch_goto f Idle (ch\<lparr>ch_woken := remove1 f (ch_woken ch)\<rparr>))"
proof -
  let ?w = "ch_woken ch" and ?ch = "ch_goto f Idle (ch\<lparr>ch_woken := remove1 f (ch_woken ch)\<rparr>)"
  have wf: "ch_wf ch" and dist: "distinct ?w" using assms(1) by (auto simp: ch_inv_def ch_wf_def Let_def)
  have "f \<notin> set (cv_waitQueue (ch_pushCv ch)) \<union> set (cv_waitQueue (ch_popCv ch))"
    using wf assms(2) by (auto simp: ch_wf_def Let_def)
  then have "ch_wf ?ch"
    using wf by (auto simp: ch_wf_def ch_goto_def Let_def)
  moreover have "filter (\<lambda>g. P (((ch_pc ch)(f := Idle)) g)) (remove1 f ?w) = filter (\<lambda>g. P (ch_pc ch g)) (remove1 f ?w)"
    for P using dist by (intro filter_cong) auto
  then have "woken_pops ch = woken_pops ?ch + of_bool (is_pop (ch_pc ch f))"
    "woken_pushes ch = woken_pushes ?ch + of_bool (is_push (ch_pc ch f))"
    using length_filter_remove1 [OF assms(2), of "\<lambda>g. is_pop (ch_pc ch g)"]
      length_filter_remove1 [OF assms(2), of "\<lambda>g. is_push (ch_pc ch g)"]
    by (simp_all add: woken_pops_def woken_pushes_def ch_goto_def)
  ultimately show ?thesis using assms(1) by (auto simp: ch_inv_def ch_goto_def)
qed

text \<open>The counts after a fiber outside the woken ones moves and others are woken.\<close>

lemma woken_goto:
  assumes "f \<notin> set (ch_woken ch)" "f \<notin> set ws"
  shows "woken_pops (ch_goto f pc (ch\<lparr>ch_woken := ch_woken ch @ ws\<rparr>)) =
      woken_pops ch + length (filter (\<lambda>g. is_pop (ch_pc ch g)) ws)"
    "woken_pushes (ch_goto f pc (ch\<lparr>ch_woken := ch_woken ch @ ws\<rparr>)) =
      woken_pushes ch + length (filter (\<lambda>g. is_push (ch_pc ch g)) ws)"
proof -
  have "filter (\<lambda>g. P (((ch_pc ch)(f := pc)) g)) (ch_woken ch @ ws) = filter (\<lambda>g. P (ch_pc ch g)) (ch_woken ch @ ws)"
    for P using assms by (intro filter_cong) auto
  then show "woken_pops (ch_goto f pc (ch\<lparr>ch_woken := ch_woken ch @ ws\<rparr>)) =
      woken_pops ch + length (filter (\<lambda>g. is_pop (ch_pc ch g)) ws)"
    "woken_pushes (ch_goto f pc (ch\<lparr>ch_woken := ch_woken ch @ ws\<rparr>)) =
      woken_pushes ch + length (filter (\<lambda>g. is_push (ch_pc ch g)) ws)"
    by (simp_all add: woken_pops_def woken_pushes_def ch_goto_def)
qed

lemma ch_inv_push:
  assumes "ch_inv 0 b ch" "b \<le> 1" "ch_pc ch f = Idle"
  shows "ch_inv 0 0 (snd (push f t ch))"
proof -
  have wf: "ch_wf ch" using assms(1) by (simp add: ch_inv_def)
  note idle = idle_fiber [OF wf assms(3)]
  let ?pushq = "cv_waitQueue (ch_pushCv ch)" and ?popq = "cv_waitQueue (ch_popCv ch)"
  have stay: "ch_goto f Idle ch = ch" using assms(3) by (simp add: ch_goto_def fun_upd_idem)
  consider "ch_isClosed ch" | "\<not> ch_isClosed ch" "ch_capacity ch \<le> length (ch_msg_queue ch)"
    | "\<not> ch_isClosed ch" "length (ch_msg_queue ch) < ch_capacity ch" by linarith
  then show ?thesis
  proof cases
    case 1
    then show ?thesis using wf stay by (auto simp: push_def ch_inv_def ch_wf_def Let_def)
  next
    case 2
    let ?ch = "ch_goto f (PushWait t) (ch\<lparr>ch_pushCv := cv_wait f (ch_pushCv ch)\<rparr>)"
    have "ch_wf ?ch"
      using wf idle 2 by (auto simp: ch_wf_def ch_goto_def Let_def cv_wait_def set_insert_nat)
    moreover have "woken_pops ?ch = woken_pops ch"
      using woken_goto(1) [of f "ch\<lparr>ch_pushCv := cv_wait f (ch_pushCv ch)\<rparr>" "[]" "PushWait t"] idle
      by (simp add: woken_pops_def)
    ultimately have "ch_inv 0 0 ?ch" using assms(1) 2 by (auto simp: ch_inv_def ch_goto_def)
    then show ?thesis using 2 by (simp add: push_def push_loop_def)
  next
    case 3
    let ?mid = "ch\<lparr>ch_msg_queue := ch_msg_queue ch @ [t], ch_popCv := snd (cv_notify (ch_popCv ch))\<rparr>"
    let ?ch = "ch_goto f Idle (?mid\<lparr>ch_woken := ch_woken ch @ take 1 ?popq\<rparr>)"
    have fresh: "f \<notin> set (ch_woken ?mid)" "f \<notin> set (take 1 ?popq)" using idle by (auto dest: in_set_takeD)
    have popq: "?popq = [] \<or> (\<exists>g q. ?popq = g # q \<and> is_pop (ch_pc ch g))"
      using wf by (cases ?popq) (auto simp: ch_wf_def Let_def)
    have "ch_wf ?ch"
      using wf idle 3 popq by (auto simp: ch_wf_def ch_goto_def Let_def cv_notify_def)
    moreover have "woken_pushes ch \<le> woken_pushes ?ch"
      using woken_goto(2) [OF fresh, of Idle] by (simp add: woken_pushes_def)
    moreover have "woken_pops ?ch = woken_pops ch + length (take 1 ?popq)"
      using woken_goto(1) [OF fresh, of Idle] popq by (auto simp: woken_pops_def)
    ultimately have "ch_inv 0 0 ?ch"
      using assms(1,2) popq by (auto simp: ch_inv_def ch_goto_def cv_notify_def)
    then show ?thesis using 3 by (simp add: push_def push_loop_def cv_notify_def)
  qed
qed

lemma ch_inv_pop_loop:
  assumes "ch_inv a 0 ch" "a \<le> 1" "ch_pc ch f = Idle" "\<not> ch_isClosed ch"
    "\<And>cv. cv_waitQueue (wait f cv) = set_insert (<) f (cv_waitQueue cv)"
    "is_pop pc" "pc \<noteq> TimedWait True"
  shows "ch_inv 0 0 (snd (pop_loop f wait pc ch))"
proof -
  have wf: "ch_wf ch" using assms(1) by (simp add: ch_inv_def)
  note idle = idle_fiber [OF wf assms(3)]
  let ?pushq = "cv_waitQueue (ch_pushCv ch)"
  show ?thesis
  proof (cases "ch_msg_queue ch")
    case Nil
    let ?ch = "ch_goto f pc (ch\<lparr>ch_popCv := wait f (ch_popCv ch)\<rparr>)"
    have "\<not> is_push pc" "pc \<noteq> Idle" using assms(6) by (cases pc; simp)+
    then have "ch_wf ?ch"
      using wf idle assms(4-7) by (auto simp: ch_wf_def ch_goto_def Let_def set_insert_nat)
    moreover have "woken_pushes ?ch = woken_pushes ch"
      using woken_goto(2) [of f "ch\<lparr>ch_popCv := wait f (ch_popCv ch)\<rparr>" "[]" pc] idle
      by (simp add: woken_pushes_def)
    ultimately have "ch_inv 0 0 ?ch" using assms(1) Nil by (auto simp: ch_inv_def ch_goto_def)
    then show ?thesis using Nil by (simp add: pop_loop_def)
  next
    case (Cons t q)
    let ?mid = "ch\<lparr>ch_msg_queue := q, ch_pushCv := snd (cv_notify (ch_pushCv ch))\<rparr>"
    let ?ch = "ch_goto f Idle (?mid\<lparr>ch_woken := ch_woken ch @ take 1 ?pushq\<rparr>)"
    have fresh: "f \<notin> set (ch_woken ?mid)" "f \<notin> set (take 1 ?pushq)" using idle by (auto dest: in_set_takeD)
    have pushq: "?pushq = [] \<or> (\<exists>g q. ?pushq = g # q \<and> is_push (ch_pc ch g))"
      using wf by (cases ?pushq) (auto simp: ch_wf_def Let_def)
    have "ch_wf ?ch"
      using wf idle Cons pushq by (auto simp: ch_wf_def ch_goto_def Let_def cv_notify_def)
    moreover have "woken_pops ch \<le> woken_pops ?ch"
      using woken_goto(1) [OF fresh, of Idle] by (simp add: woken_pops_def)
    moreover have "woken_pushes ?ch = woken_pushes ch + length (take 1 ?pushq)"
      using woken_goto(2) [OF fresh, of Idle] pushq by (auto simp: woken_pushes_def)
    ultimately have "ch_inv 0 0 ?ch"
      using assms(1,2) pushq Cons by (auto simp: ch_inv_def ch_goto_def cv_notify_def)
    then show ?thesis using Cons by (simp add: pop_loop_def cv_notify_def)
  qed
qed

lemma ch_inv_pop:
  assumes "ch_inv a 0 ch" "a \<le> 1" "ch_pc ch f = Idle"
  shows "ch_inv 0 0 (snd (pop f ch))" "ch_inv 0 0 (snd (waitFor f ch))"
proof -
  have "ch_goto f Idle ch = ch" using assms(3) by (simp add: ch_goto_def fun_upd_idem)
  moreover have "ch_inv 0 0 ch" if "ch_isClosed ch"
    using that assms(1) by (auto simp: ch_inv_def ch_wf_def Let_def)
  ultimately show "ch_inv 0 0 (snd (pop f ch))" "ch_inv 0 0 (snd (waitFor f ch))"
    using ch_inv_pop_loop [OF assms, of cv_wait PopWait] ch_inv_pop_loop [OF assms, of cv_waitFor "TimedWait False"]
    by (auto simp: pop_def waitFor_def cv_wait_def cv_waitFor_def)
qed

text \<open>The operations do not look at what their own fiber was doing before.\<close>

lemma forget_pc:
  "push f t (ch_goto f pc ch) = push f t ch" "pop f (ch_goto f pc ch) = pop f ch"
  "waitFor f (ch_goto f pc ch) = waitFor f ch"
  by (auto simp: ch_defs split: list.splits)

lemma ch_inv_locking: "ch_inv a b (ch\<lparr>ch_locking := l\<rparr>) = ch_inv a b ch"
  by (simp add: ch_inv_def ch_wf_def woken_pops_def woken_pushes_def)

lemma ch_inv_segment:
  assumes "ch_inv 0 0 ch" "ch_segment e ch = Some (out, ch')" "\<forall>f. e \<noteq> ETimeout f"
  shows "ch_inv 0 0 ch'"
proof (cases e)
  case (ELock f)
  then show ?thesis using assms(1,2) by (auto simp: ch_inv_locking split: if_splits)
next
  case (EResume f)
  let ?ch = "ch\<lparr>ch_woken := remove1 f (ch_woken ch), ch_locking := remove1 f (ch_locking ch)\<rparr>"
  have f: "f \<in> set (ch_woken ch)" "f \<in> set (ch_locking ch)" using assms(2) EResume by (auto split: if_splits)
  have "ch_goto f Idle ?ch = (ch_goto f Idle (ch\<lparr>ch_woken := remove1 f (ch_woken ch)\<rparr>))\<lparr>ch_locking := remove1 f (ch_locking ch)\<rparr>"
    by (simp add: ch_goto_def)
  then have start: "ch_inv (of_bool (is_pop (ch_pc ch f))) (of_bool (is_push (ch_pc ch f))) (ch_goto f Idle ?ch)"
    using ch_inv_start [OF assms(1) f(1)] by (simp add: ch_inv_locking)
  have idle: "ch_pc (ch_goto f Idle ?ch) f = Idle" by (simp add: ch_goto_def)
  have "ch_pc ch f \<noteq> TimedWait True" using assms(1) by (simp add: ch_inv_def ch_wf_def Let_def)
  then show ?thesis
    using assms(2) EResume f start ch_inv_push [OF _ _ idle] ch_inv_pop [OF _ _ idle]
    by (cases "ch_pc ch f") (auto simp: forget_pc Let_def dest!: arg_cong [of _ _ snd])
next
  case EClose
  show ?thesis
  proof (cases "ch_isClosed ch")
    case True
    then show ?thesis using EClose assms by (simp add: ch_close_def)
  next
    case False
    let ?pushq = "cv_waitQueue (ch_pushCv ch)" and ?popq = "cv_waitQueue (ch_popCv ch)"
    have ch': "ch' = ch\<lparr>ch_isClosed := True, ch_msg_queue := [],
        ch_pushCv := \<lparr>cv_waitQueue = [], cv_timer = False\<rparr>, ch_popCv := \<lparr>cv_waitQueue = [], cv_timer = False\<rparr>,
        ch_woken := ch_woken ch @ ?pushq @ ?popq\<rparr>"
      using False EClose assms(2) by (simp add: ch_close_def cv_notifyAll_def)
    have wf: "ch_wf ch" using assms(1) by (simp add: ch_inv_def)
    have "distinct (ch_woken ch @ ?pushq @ ?popq)" "\<forall>f \<in> set (ch_woken ch @ ?pushq @ ?popq). ch_pc ch f \<noteq> Idle"
      "\<forall>f. is_push (ch_pc ch f) \<or> is_pop (ch_pc ch f) \<longrightarrow> f \<in> set (ch_woken ch @ ?pushq @ ?popq)"
      "\<forall>f. ch_pc ch f \<noteq> TimedWait True"
      using wf by (auto simp: ch_wf_def Let_def)
    then have "ch_wf ch'" by (auto simp: ch' ch_wf_def)
    then show ?thesis by (simp add: ch_inv_def ch')
  qed
qed (use assms ch_inv_push [of 0 ch] ch_inv_pop [of 0 ch] in
    \<open>auto split: ch_pc.splits dest!: arg_cong [of _ _ snd]\<close>)


lemma ch_inv_new: "ch_inv 0 0 (new_Channel n)"
  by (simp add: ch_inv_def ch_wf_def new_Channel_def new_CoCondVar_def)

lemma ch_inv_run:
  "ch_run es ch = Some (outs, ch') \<Longrightarrow> \<forall>f. ETimeout f \<notin> set es \<Longrightarrow> ch_inv 0 0 ch \<Longrightarrow> ch_inv 0 0 ch'"
proof (induction es arbitrary: ch outs)
  case (Cons e es)
  then obtain out ch1 outs1 where "ch_exec e ch = Some (out, ch1)" "ch_run es ch1 = Some (outs1, ch')"
    by (auto split: option.splits)
  then show ?case using Cons.IH [of ch1 outs1] ch_inv_segment [OF Cons.prems(3) ch_exec_segment, of e out ch1] Cons.prems(2) by auto
qed simp

section \<open>Channels as mailboxes\<close>

text \<open>
  What the client and the pool rely on: a message put into a vacant mailbox is the one that is taken
  out of it. Mailboxes live in tables indexed by numbers; a broadcast puts the same message into all
  the mailboxes of a list of entries.
\<close>

locale mailbox =
  fixes vacant :: "'b \<Rightarrow> bool" and fresh :: 'b and put :: "'a \<Rightarrow> 'b \<Rightarrow> 'b" and got :: "'a \<Rightarrow> 'b \<Rightarrow> bool"
  assumes vacant_fresh: "vacant fresh"
    and got_put: "vacant b \<Longrightarrow> got t (put t b)"
begin

fun broadcast :: "'a \<Rightarrow> ('k \<times> nat) list \<Rightarrow> (nat \<Rightarrow> 'b) \<Rightarrow> nat \<Rightarrow> 'b" where
  "broadcast t [] boxes = boxes"
| "broadcast t ((k, i) # es) boxes = broadcast t es (boxes(i := put t (boxes i)))"

lemma broadcast_outside: "i \<notin> snd ` set es \<Longrightarrow> broadcast t es boxes i = boxes i"
  by (induction t es boxes rule: broadcast.induct) auto

lemma broadcast_at:
  "distinct (map snd es) \<Longrightarrow> (k, i) \<in> set es \<Longrightarrow> broadcast t es boxes i = put t (boxes i)"
proof (induction t es boxes rule: broadcast.induct)
  case (2 t k' i' es boxes)
  show ?case
  proof (cases "(k, i) \<in> set es")
    case True
    then have "i \<noteq> i'" using 2(2) by force
    then show ?thesis using 2 True by (simp del: fun_upd_apply) (simp add: fun_upd_other)
  next
    case False
    then show ?thesis using 2(2,3) broadcast_outside [of i es] by (auto simp: image_iff)
  qed
qed simp

lemma broadcast_reaches:
  assumes "distinct (map snd es)" "(k, i) \<in> set es" "vacant (boxes i)"
  shows "got t (broadcast t es boxes i)"
  unfolding broadcast_at [OF assms(1,2)] by (rule got_put [OF assms(3)])

lemma fresh_delivers: "got t (put t fresh)"
  by (rule got_put [OF vacant_fresh])

end

interpretation box: mailbox
  "\<lambda>ch. ch_msg_queue ch = [] \<and> \<not> ch_isClosed ch \<and> ch_capacity ch = 1" "new_Channel 1"
  "\<lambda>t ch. snd (push f t ch)" "\<lambda>t ch. fst (pop g ch) = Popped t" for f g
  by unfold_locales
    (auto simp: new_Channel_def push_def push_loop_def pop_def pop_loop_def ch_goto_def cv_notify_def)

section \<open>Properties\<close>

text \<open>
  C5. A channel is a bounded queue: in every execution, the messages accepted by \<open>push\<close> are, in
  order, those delivered by \<open>pop\<close> and \<open>waitFor\<close>, then those dropped by \<open>close\<close>, then those still
  queued; nothing is dropped while the channel is open, and the queue never exceeds the capacity.
\<close>

theorem channel_fifo:
  assumes "ch_run es (new_Channel n) = Some (outs, ch)"
  shows "length (ch_msg_queue ch) \<le> n \<and>
    (\<exists>dropped. accepted outs = delivered outs @ dropped @ ch_msg_queue ch \<and>
       (\<not> ch_isClosed ch \<longrightarrow> dropped = []))"
  using ch_run_queue [OF assms] by (auto simp: new_Channel_def)

definition sample_events :: "nat ch_event list" where
  "sample_events = [EPop 1, EPush 2 10, EPush 2 11, EPush 3 12, ELock 1, EResume 1, EPop 1, ELock 3, EResume 3]"

lemma sample_run: "\<exists>ch. ch_run sample_events (new_Channel 2) =
    Some ([Waits, Pushed 10, Pushed 11, Waits, Waits, Popped 10, Popped 11, Waits, Pushed 12], ch) \<and> ch_msg_queue ch = [12] \<and>
    \<not> ch_isClosed ch"
  by (simp add: sample_events_def exec_defs new_Channel_def new_CoCondVar_def cv_wait_def)

theorem channel_fifo_witness:
  "\<exists>outs ch. ch_run sample_events (new_Channel 2) = Some (outs, ch) \<and> length (ch_msg_queue ch) \<le> 2 \<and>
    accepted outs = delivered outs @ ch_msg_queue ch \<and> delivered outs = [10, 11]"
proof -
  obtain ch where ch: "ch_run sample_events (new_Channel 2) =
    Some ([Waits, Pushed 10, Pushed 11, Waits, Waits, Popped 10, Popped 11, Waits, Pushed 12], ch)" "\<not> ch_isClosed ch"
    using sample_run by blast
  show ?thesis using channel_fifo [OF ch(1)] ch by fastforce
qed

text \<open>
  C6. No notification is lost between \<open>push\<close> and \<open>pop\<close>: as long as no \<open>waitFor\<close> has timed out, whenever a fiber waits for a
  message while one is queued, or for room while there is some, this fiber or another one of its kind has been
  notified and is on its way back through the channel's mutex; and once the channel is closed every waiting fiber is. When
  such a fiber gets the mutex is up to \<open>CoMutex\<close>, and not part of this claim.
\<close>

theorem channel_wakes:
  assumes "ch_run es (new_Channel n) = Some (outs, ch)" "\<forall>f. ETimeout f \<notin> set es"
  shows "(is_pop (ch_pc ch f) \<and> (ch_msg_queue ch \<noteq> [] \<or> ch_isClosed ch) \<longrightarrow>
      (\<exists>g \<in> set (ch_woken ch). is_pop (ch_pc ch g) \<and> (ch_isClosed ch \<longrightarrow> g = f))) \<and>
    (is_push (ch_pc ch f) \<and> (length (ch_msg_queue ch) < n \<or> ch_isClosed ch) \<longrightarrow>
      (\<exists>g \<in> set (ch_woken ch). is_push (ch_pc ch g) \<and> (ch_isClosed ch \<longrightarrow> g = f)))"
proof -
  have inv: "ch_inv 0 0 ch" using ch_inv_run [OF assms ch_inv_new] .
  have n: "ch_capacity ch = n" using ch_run_queue [OF assms(1)] by (simp add: new_Channel_def)
  have count: "0 < length (filter P xs) \<Longrightarrow> \<exists>g \<in> set xs. P g" for P and xs :: "nat list"
    by (auto simp: filter_empty_conv)
  have "f \<in> set (cv_waitQueue (ch_popCv ch)) \<or> f \<in> set (ch_woken ch)" if "is_pop (ch_pc ch f)"
    using that inv by (auto simp: ch_inv_def ch_wf_def Let_def)
  moreover have "f \<in> set (cv_waitQueue (ch_pushCv ch)) \<or> f \<in> set (ch_woken ch)" if "is_push (ch_pc ch f)"
    using that inv by (auto simp: ch_inv_def ch_wf_def Let_def)
  moreover have "ch_isClosed ch \<longrightarrow> cv_waitQueue (ch_popCv ch) = [] \<and> cv_waitQueue (ch_pushCv ch) = []"
    using inv by (auto simp: ch_inv_def ch_wf_def Let_def)
  moreover have "\<exists>g \<in> set (ch_woken ch). is_pop (ch_pc ch g)"
    if "f \<in> set (cv_waitQueue (ch_popCv ch))" "ch_msg_queue ch \<noteq> []"
    using that inv by (intro count) (auto simp: ch_inv_def woken_pops_def)
  moreover have "\<exists>g \<in> set (ch_woken ch). is_push (ch_pc ch g)"
    if "f \<in> set (cv_waitQueue (ch_pushCv ch))" "length (ch_msg_queue ch) < n"
    using that inv n by (intro count) (auto simp: ch_inv_def woken_pushes_def)
  ultimately show ?thesis by fastforce
qed

theorem channel_wakes_witness:
  "\<exists>outs ch. ch_run [EPop 1, EPush 2 (10 :: nat)] (new_Channel 2) = Some (outs, ch) \<and>
    ch_pc ch 1 = PopWait \<and> (\<exists>g \<in> set (ch_woken ch). is_pop (ch_pc ch g))"
proof -
  obtain outs ch where ch: "ch_run [EPop 1, EPush 2 (10 :: nat)] (new_Channel 2) = Some (outs, ch)"
    "ch_pc ch 1 = PopWait" "ch_msg_queue ch = [10]"
    by (simp add: exec_defs new_Channel_def new_CoCondVar_def cv_wait_def)
  have "\<forall>f. ETimeout f \<notin> set [EPop 1, EPush 2 (10 :: nat)]" by simp
  from channel_wakes [OF ch(1) this, of 1] show ?thesis using ch by auto
qed

text \<open>
  A timeout can swallow a notification: a fiber in \<open>waitFor\<close> that was already woken for a message
  returns false if its timer fires before it runs. A message is queued, another fiber waits for
  one, and nobody is woken.
\<close>

theorem channel_timeout_loses_wakeup:
  "\<exists>outs ch. ch_run [EWaitFor 1, EPop 2, EPush 3 (10 :: nat), ETimeout 1, ELock 1, EResume 1] (new_Channel 1) =
      Some (outs, ch) \<and> last outs = Fails \<and> ch_msg_queue ch = [10] \<and> ch_pc ch 2 = PopWait \<and>
    \<not> is_pop (ch_pc ch 1) \<and> 2 \<notin> set (ch_woken ch)"
  by (simp add: exec_defs new_Channel_def new_CoCondVar_def cv_wait_def cv_waitFor_def cv_timeout_def)

text \<open>
  A deadlock: \<open>CoCondVar::waitFor\<close> takes the mutex back while it holds the spin lock of the condition variable. A fiber
  that has the mutex in the meantime and pushes a message needs that spin lock for its notification: it spins, with the mutex held,
  until the other one has got the mutex.
\<close>

theorem relock_under_spinlock:
  assumes "g \<in> set (ch_locking ch)" "ch_pc ch g = TimedWait b" "\<not> ch_isClosed ch" "length (ch_msg_queue ch) < ch_capacity ch"
  shows "ch_exec (EPush f t) ch = None"
  using assms by (force simp: exec_defs)

theorem relock_under_spinlock_witness:
  "\<exists>outs ch. ch_run [EWaitFor 1, EPush 2 (10 :: nat), ELock 1] (new_Channel 2) = Some (outs, ch) \<and> ch_exec (EPush 3 11) ch = None"
proof -
  obtain outs ch where ch: "ch_run [EWaitFor 1, EPush 2 (10 :: nat), ELock 1] (new_Channel 2) = Some (outs, ch)"
    "1 \<in> set (ch_locking ch)" "ch_pc ch 1 = TimedWait False" "\<not> ch_isClosed ch" "length (ch_msg_queue ch) < ch_capacity ch"
    by (simp add: exec_defs new_Channel_def new_CoCondVar_def cv_waitFor_def)
  from ch(1) relock_under_spinlock [OF ch(2-5)] show ?thesis by blast
qed

end
