(* ===== verification/Rpc_Client.thy ===== *)
theory Rpc_Client
  imports Rpc_Server Channel
begin

text \<open>
  The RPC client (\<open>include/rpc/rpc_client.h\<close>, \<open>src/rpc/rpc_client.cc\<close>): the table of pending calls,
  the sequence numbers, the connection and its closing, the handlers of incoming messages.

  Channels are those of theory \<open>Channel\<close>; the receive channels of the calls live in a heap indexed by
  numbers, and the table \<open>response_handle_\<close> is a list ordered by key, as \<open>std::map\<close> iterates. An
  iterator into the table is the key with the channel of its entry. Every definition is one
  section under the client's mutex, run by the fiber \<open>f\<close>; what it asks of other components is
  returned as a list of effects.
\<close>

section \<open>State\<close>

datatype cl_effect = SubmitSend | SubmitRecv | DelReadEvent | SessionClose | RunCallback nat bytearray

record rpc_client =
  cl_session :: bool
  cl_connected :: bool
  cl_sequence_id :: u32
  cl_response_handle :: "(u32 \<times> nat) list"
  cl_recv :: "nat \<Rightarrow> protocol option channel"
  cl_channel :: "protocol option channel"
  cl_timeout_ms :: u64
  cl_is_closed :: bool
  cl_auto_heartbeat :: bool
  cl_is_heartclose :: bool
  cl_subscribe_map :: "bytes \<rightharpoonup> nat"
  cl_heartbeat_timer :: "nat option"
  cl_timers :: timer_manager

definition s_channel_capacity :: nat where "s_channel_capacity = 2"

text \<open>\<open>closed0\<close> and \<open>heart0\<close> are the flags the constructor does not initialise.\<close>

definition new_RPCClient :: "bool \<Rightarrow> bool \<Rightarrow> timer_manager \<Rightarrow> bool \<Rightarrow> rpc_client" where
  "new_RPCClient closed0 heart0 tm auto_heartbeat =
     \<lparr>cl_session = False, cl_connected = False, cl_sequence_id = 0, cl_response_handle = [],
      cl_recv = (\<lambda>_. new_Channel 1), cl_channel = new_Channel s_channel_capacity, cl_timeout_ms = - 1,
      cl_is_closed = closed0, cl_auto_heartbeat = auto_heartbeat, cl_is_heartclose = heart0,
      cl_subscribe_map = Map.empty, cl_heartbeat_timer = None, cl_timers = tm\<rparr>"

section \<open>Connection\<close>

text \<open>
  \<open>connected\<close> is the outcome of \<open>Socket::connect\<close>; the heartbeat timer calls back \<open>cb\<close>, is allocated
  at \<open>a\<close> and armed at time \<open>now\<close>.
\<close>

definition client_connect :: "bool \<Rightarrow> nat \<Rightarrow> u64 \<Rightarrow> nat \<Rightarrow> rpc_client \<Rightarrow> bool \<times> cl_effect list \<times> rpc_client" where
  "client_connect connected a now cb c =
     (if \<not> connected then (False, [], c\<lparr>cl_session := False, cl_connected := False\<rparr>)
      else let c = c\<lparr>cl_session := True, cl_connected := True, cl_channel := new_Channel s_channel_capacity,
                     cl_is_heartclose := False, cl_is_closed := False\<rparr>;
               c = (if cl_auto_heartbeat c
                    then c\<lparr>cl_timers := fst (addTimer (cl_timers c) a now 30000 (Some (Plain cb)) True),
                           cl_heartbeat_timer := Some a\<rparr>
                    else c)
           in (True, [SubmitSend, SubmitRecv], c))"

text \<open>
  How a section of \<open>close\<close>, and of what calls it, ends: done, with its effects; or waiting in the push into the channel of the
  first of these entries of the table, with the client's mutex held.
\<close>

datatype cl_out = Done "cl_effect list" | Waiting "(u32 \<times> nat) list"

text \<open>The null pointers that \<open>close\<close> puts into the channels of the pending calls, until a push has to wait.\<close>

fun push_null :: "nat \<Rightarrow> (u32 \<times> nat) list \<Rightarrow> (nat \<Rightarrow> protocol option channel) \<Rightarrow>
    (u32 \<times> nat) list \<times> (nat \<Rightarrow> protocol option channel)" where
  "push_null f [] recv = ([], recv)"
| "push_null f ((i, ch) # es) recv =
     (case push f None (recv ch) of
        (Waits, r) \<Rightarrow> ((i, ch) # es, recv(ch := r))
      | (_, r) \<Rightarrow> push_null f es (recv(ch := r)))"

text \<open>\<open>close\<close> from its loop on; after a wait it goes on with the entries behind the one it waited for.\<close>

definition client_close_from :: "nat \<Rightarrow> (u32 \<times> nat) list \<Rightarrow> rpc_client \<Rightarrow> (cl_out \<times> rpc_client) res" where
  "client_close_from f es c =
     (case push_null f es (cl_recv c) of
        (e # rest, recv) \<Rightarrow> Inr (Waiting (e # rest), c\<lparr>cl_recv := recv\<rparr>)
      | ([], recv) \<Rightarrow>
          let c = c\<lparr>cl_recv := recv, cl_response_handle := []\<rparr> in
          bindE (case cl_heartbeat_timer c of None \<Rightarrow> Inr c
                 | Some t \<Rightarrow> bindE (cancel (cl_timers c) t)
                     (\<lambda>(_, tm). Inr (c\<lparr>cl_timers := tm, cl_heartbeat_timer := None\<rparr>)))
            (\<lambda>c. if \<not> cl_session c then Inl NullDeref
                 else Inr (Done [DelReadEvent, SessionClose], c\<lparr>cl_connected := False\<rparr>)))"

definition client_close :: "nat \<Rightarrow> rpc_client \<Rightarrow> (cl_out \<times> rpc_client) res" where
  "client_close f c =
     (if cl_is_closed c then Inr (Done [], c)
      else client_close_from f (cl_response_handle c)
        (c\<lparr>cl_is_heartclose := True, cl_is_closed := True, cl_channel := snd (ch_close (cl_channel c))\<rparr>))"

definition client_setTimeout :: "u64 \<Rightarrow> rpc_client \<Rightarrow> rpc_client" where
  "client_setTimeout ms c = c\<lparr>cl_timeout_ms := ms\<rparr>"

text \<open>The callback of the heartbeat timer; when the push waits, the flag is set once it is over.\<close>

definition client_heartbeat :: "nat \<Rightarrow> rpc_client \<Rightarrow> (cl_out \<times> rpc_client) res" where
  "client_heartbeat f c =
     bindE (if cl_is_heartclose c then client_close f c else Inr (Done [], c)) (\<lambda>(out, c).
     case out of
       Waiting es \<Rightarrow> Inr (Waiting es, c)
     | Done eff \<Rightarrow>
         (case push f (Some HeartBeat) (cl_channel c) of
            (Waits, ch) \<Rightarrow> Inr (Done eff, c\<lparr>cl_channel := ch\<rparr>)
          | (_, ch) \<Rightarrow> Inr (Done eff, c\<lparr>cl_channel := ch, cl_is_heartclose := True\<rparr>)))"

text \<open>A round of \<open>handleSend\<close> on what \<open>channel_ >> request\<close> took out; \<open>None\<close> ends the loop.\<close>

definition client_handleSend_round :: "rpc_client \<Rightarrow> protocol option \<Rightarrow> protocol list option" where
  "client_handleSend_round c request =
     (if ch_isClosed (cl_channel c) then None else Some (case request of None \<Rightarrow> [] | Some r \<Rightarrow> [r]))"

section \<open>Calls\<close>

text \<open>
  The first locked section of \<open>call\<close>: the id of the request and the iterator that \<open>emplace\<close> returns.
  \<open>ch\<close> is the new receive channel.
\<close>

definition call_register :: "nat \<Rightarrow> rpc_client \<Rightarrow> (u32 \<times> (u32 \<times> nat) \<times> rpc_client) option" where
  "call_register ch c =
     (if \<not> cl_session c \<or> \<not> cl_connected c then None
      else let i = cl_sequence_id c; h = map_emplace (cl_response_handle c) (i, ch) in
        Some (i, (i, the (map_of h i)),
          c\<lparr>cl_recv := (cl_recv c)(ch := new_Channel 1), cl_response_handle := h, cl_sequence_id := i + 1\<rparr>))"

definition call_send :: "nat \<Rightarrow> protocol \<Rightarrow> rpc_client \<Rightarrow> protocol option ch_out \<times> rpc_client" where
  "call_send f request c =
     (case push f (Some request) (cl_channel c) of (out, ch) \<Rightarrow> (out, c\<lparr>cl_channel := ch\<rparr>))"

text \<open>The wait on the receive channel, up to its first suspension.\<close>

definition call_wait :: "nat \<Rightarrow> nat \<Rightarrow> rpc_client \<Rightarrow> protocol option ch_out \<times> rpc_client" where
  "call_wait f ch c =
     (case (if cl_timeout_ms c = - 1 then pop f (cl_recv c ch) else waitFor f (cl_recv c ch)) of
        (out, r) \<Rightarrow> (out, c\<lparr>cl_recv := (cl_recv c)(ch := r)\<rparr>))"

text \<open>The second locked section: the entry is erased through the iterator.\<close>

definition call_erase :: "u32 \<times> nat \<Rightarrow> rpc_client \<Rightarrow> rpc_client res" where
  "call_erase it c =
     (if cl_is_closed c then Inr c
      else if map_of (cl_response_handle c) (fst it) = Some (snd it)
      then Inr (c\<lparr>cl_response_handle := filter (\<lambda>e. e \<noteq> it) (cl_response_handle c)\<rparr>)
      else Inl InvalidIterator)"

text \<open>
  The end of \<open>call\<close>, after the wait on the receive channel: \<open>None\<close> is a timeout, \<open>Some r\<close> the pointer
  taken out of the channel.
\<close>

definition call_finish :: "(nat \<Rightarrow> nat \<Rightarrow> u8) \<Rightarrow> sty \<Rightarrow> rpc_result \<Rightarrow> protocol option option \<Rightarrow> rpc_result res" where
  "call_finish fill ty val response =
     (case response of
        None \<Rightarrow> Inr (val\<lparr>r_code := state_code RPC_TIMEOUT, r_msg := lit ''call timeout''\<rparr>)
      | Some r \<Rightarrow> call_response fill ty val r)"

definition client_subscribe :: "(nat \<Rightarrow> nat \<Rightarrow> u8) \<Rightarrow> nat \<Rightarrow> bytes \<Rightarrow> nat \<Rightarrow> rpc_client \<Rightarrow> rpc_client res" where
  "client_subscribe fill f key func c =
     (if cl_subscribe_map c key \<noteq> None then Inr c
      else let c = c\<lparr>cl_subscribe_map := (cl_subscribe_map c)(key \<mapsto> func)\<rparr> in
        bindE (writeStringVint (new_Serializer fill) key) (\<lambda>s.
        bindE (ser_reset s) (\<lambda>s.
        bindE (ser_toString s) (\<lambda>content.
        Inr (snd (call_send f (Create RPC_SUBSCRIBE_REQUEST content 0) c))))))"

section \<open>Incoming messages\<close>

definition handleMethodResponse :: "nat \<Rightarrow> protocol \<Rightarrow> rpc_client \<Rightarrow> rpc_client" where
  "handleMethodResponse f response c =
     (let c = c\<lparr>cl_sequence_id := p_sequence_id response\<rparr> in
      case map_of (cl_response_handle c) (cl_sequence_id c) of
        None \<Rightarrow> c
      | Some ch \<Rightarrow> c\<lparr>cl_recv := (cl_recv c)(ch := snd (push f (Some response) (cl_recv c ch)))\<rparr>)"

definition client_handlePublish :: "(nat \<Rightarrow> nat \<Rightarrow> u8) \<Rightarrow> protocol \<Rightarrow> rpc_client \<Rightarrow> cl_effect list res" where
  "client_handlePublish fill response c =
     bindE (Serializer_content fill (p_content response)) (\<lambda>s.
     bindE (readStringVint s) (\<lambda>(key, s).
     Inr (case cl_subscribe_map c key of None \<Rightarrow> [] | Some cb \<Rightarrow> [RunCallback cb s])))"

text \<open>A round of \<open>handleRecv\<close>; the loop is never left.\<close>

definition client_recv_round :: "(nat \<Rightarrow> nat \<Rightarrow> u8) \<Rightarrow> nat \<Rightarrow> rpc_client \<Rightarrow> protocol option \<Rightarrow> (cl_out \<times> rpc_client) res" where
  "client_recv_round fill f c response =
     (case response of
        None \<Rightarrow> client_close f c
      | Some resp \<Rightarrow>
        let c = c\<lparr>cl_is_heartclose := False\<rparr> in
        (case getMsgType resp of
           Some HEARTBEAT_PACKET \<Rightarrow> Inr (Done [], c\<lparr>cl_is_heartclose := False\<rparr>)
         | Some RPC_METHOD_RESPONSE \<Rightarrow> Inr (Done [], handleMethodResponse f resp c)
         | Some RPC_PUBLISH_REQUEST \<Rightarrow>
             bindE (client_handlePublish fill resp c) (\<lambda>eff.
             Inr (Done eff, snd (call_send f (Create RPC_PUBLISH_RESPONSE [] 0) c)))
         | _ \<Rightarrow> Inr (Done [], c)))"

text \<open>
  Rounds of the loop on a connection on which nothing can be received any more, with what the last one did; a round that
  waits is not over.
\<close>

primrec recv_rounds :: "(nat \<Rightarrow> nat \<Rightarrow> u8) \<Rightarrow> nat \<Rightarrow> nat \<Rightarrow> rpc_client \<Rightarrow> (cl_out \<times> rpc_client) res" where
  "recv_rounds fill f 0 c = Inr (Done [], c)"
| "recv_rounds fill f (Suc n) c =
     bindE (client_recv_round fill f c None) (\<lambda>(out, c').
     case out of Done _ \<Rightarrow> recv_rounds fill f n c' | Waiting es \<Rightarrow> Inr (Waiting es, c'))"

section \<open>Lemmas\<close>

definition vacant :: "protocol option channel \<Rightarrow> bool" where
  "vacant ch \<longleftrightarrow> ch_msg_queue ch = [] \<and> \<not> ch_isClosed ch \<and> ch_capacity ch = 1"

definition full :: "protocol option channel \<Rightarrow> bool" where
  "full ch \<longleftrightarrow> ch_capacity ch \<le> length (ch_msg_queue ch) \<and> \<not> ch_isClosed ch"

lemma push_waits: "fst (push f t ch) = Waits \<longleftrightarrow> full ch"
  by (simp add: push_def push_loop_def full_def cv_notify_def)

lemma push_null_step:
  "push_null f ((i, ch) # es) recv =
     (if full (recv ch) then ((i, ch) # es, recv(ch := snd (push f None (recv ch))))
      else push_null f es (recv(ch := snd (push f None (recv ch)))))"
  using push_waits [of f None "recv ch"] by (cases "push f None (recv ch)") (auto split: ch_out.split)

declare push_null.simps(2) [simp del]

lemma push_null_broadcast:
  assumes "distinct (map snd es)" "\<forall>(i, ch) \<in> set es. \<not> full (recv ch)"
  shows "push_null f es recv = ([], box.broadcast f None es recv)"
  using assms
proof (induction es arbitrary: recv)
  case (Cons e es)
  obtain j ch where e: "e = (j, ch)" by fastforce
  let ?recv = "recv(ch := snd (push f None (recv ch)))"
  have "\<forall>(i, ch') \<in> set es. \<not> full (?recv ch')"
    using Cons.prems e by (auto simp: image_iff)
  then have "push_null f es ?recv = ([], box.broadcast f None es ?recv)" using Cons.IH Cons.prems(1) by simp
  then show ?case using Cons.prems(2) e by (simp add: push_null_step del: fun_upd_apply)
qed simp

lemma push_null_full:
  assumes "(i, ch) \<in> set es" "full (recv ch)" "distinct (map snd es)"
  shows "fst (push_null f es recv) \<noteq> []"
  using assms
proof (induction es arbitrary: recv)
  case (Cons e es)
  obtain j ch' where e: "e = (j, ch')" by fastforce
  show ?case
  proof (cases "full (recv ch')")
    case False
    then have "ch \<noteq> ch'" "(i, ch) \<in> set es" using Cons.prems e by auto
    then show ?thesis using Cons False e by (simp add: push_null_step)
  qed (simp add: push_null_step e)
qed simp

text \<open>The table of pending calls as \<open>std::map\<close> keeps it.\<close>

definition table_ok :: "rpc_client \<Rightarrow> bool" where
  "table_ok c \<longleftrightarrow> sorted_wrt (<) (map fst (cl_response_handle c))"

lemma emplace_set: "set (map_emplace m (k, v)) \<subseteq> insert (k, v) (set m)"
  by (induction m) auto

lemma emplace_sorted: "sorted_wrt (<) (map fst m) \<Longrightarrow> sorted_wrt (<) (map fst (map_emplace m (k, v)))"
proof (induction m)
  case (Cons x m)
  then show ?case using emplace_set [of m k v] by fastforce
qed simp

lemma emplace_map_of:
  "sorted_wrt (<) (map fst m) \<Longrightarrow> map_of (map_emplace m (k, v)) j = (if j = k \<and> map_of m k = None then Some v else map_of m j)"
proof (induction m)
  case (Cons x m)
  have "map_of m k = None" if "k < fst x" using Cons.prems that by (force simp: map_of_eq_None_iff)
  then show ?case using Cons by auto
qed simp

lemma erase_sorted: "sorted_wrt (<) (map fst m) \<Longrightarrow> sorted_wrt (<) (map fst (filter P m))"
  by (induction m) auto

lemma erase_map_of:
  "sorted_wrt (<) (map fst m) \<Longrightarrow> map_of m k = Some v \<Longrightarrow>
     map_of (filter (\<lambda>e. e \<noteq> (k, v)) m) j = (if j = k then None else map_of m j)" for k :: "'a :: linorder"
proof (induction m)
  case (Cons x m)
  have "map_of (filter (\<lambda>e. e \<noteq> (k, v)) m) j = map_of m j" "map_of m k = None" if "fst x = k"
  proof -
    have "\<forall>e \<in> set m. fst e \<noteq> k" using Cons.prems(1) that by force
    then show "map_of m k = None" by (force simp: map_of_eq_None_iff)
    from \<open>\<forall>e \<in> set m. fst e \<noteq> k\<close> have "filter (\<lambda>e. e \<noteq> (k, v)) m = m" by (auto simp: filter_id_conv)
    then show "map_of (filter (\<lambda>e. e \<noteq> (k, v)) m) j = map_of m j" by simp
  qed
  then show ?case using Cons by (cases x) (auto split: if_splits)
qed simp
lemma cancel_disarms:
  assumes "tm_reach m" "tm_obj m t \<noteq> None"
  shows "\<exists>m' b. cancel m t = Inr (b, m') \<and> map_option t_callback (tm_obj m' t) = Some None"
  using assms cancel_eq [OF tm_reach_inv [OF assms(1)]] by (auto split: if_splits)

text \<open>The client after each section of a call, and what the sections do there.\<close>

definition after_register :: "nat \<Rightarrow> rpc_client \<Rightarrow> rpc_client" where
  "after_register ch c = c\<lparr>cl_recv := (cl_recv c)(ch := new_Channel 1),
     cl_response_handle := map_emplace (cl_response_handle c) (cl_sequence_id c, ch), cl_sequence_id := cl_sequence_id c + 1\<rparr>"

definition after_response :: "nat \<Rightarrow> protocol \<Rightarrow> nat \<Rightarrow> rpc_client \<Rightarrow> rpc_client" where
  "after_response f resp ch c = c\<lparr>cl_is_heartclose := False, cl_sequence_id := p_sequence_id resp,
     cl_recv := (cl_recv c)(ch := snd (push f (Some resp) (cl_recv c ch)))\<rparr>"

definition after_erase :: "u32 \<times> nat \<Rightarrow> rpc_client \<Rightarrow> rpc_client" where
  "after_erase it c = c\<lparr>cl_response_handle := filter (\<lambda>e. e \<noteq> it) (cl_response_handle c)\<rparr>"

lemma call_register_eq:
  assumes "cl_session c" "cl_connected c" "table_ok c"
  shows "call_register ch c = Some (cl_sequence_id c,
    (cl_sequence_id c, case map_of (cl_response_handle c) (cl_sequence_id c) of None \<Rightarrow> ch | Some ch' \<Rightarrow> ch'), after_register ch c)"
  using assms by (auto simp: call_register_def after_register_def table_ok_def emplace_map_of Let_def split: option.splits)

lemma recv_round_response:
  assumes "getMsgType resp = Some RPC_METHOD_RESPONSE" "map_of (cl_response_handle c) (p_sequence_id resp) = Some ch"
  shows "client_recv_round fill f c (Some resp) = Inr (Done [], after_response f resp ch c)"
  using assms by (simp add: client_recv_round_def handleMethodResponse_def after_response_def Let_def)

lemma call_erase_eq:
  assumes "\<not> cl_is_closed c" "map_of (cl_response_handle c) k = Some ch"
  shows "call_erase (k, ch) c = Inr (after_erase (k, ch) c)"
  using assms by (simp add: call_erase_def after_erase_def)

lemma call_wait_taken:
  assumes "cl_recv c ch = snd (push f t (new_Channel 1))"
  shows "fst (call_wait g ch c) = Popped t"
  using assms by (simp add: call_wait_def ch_defs new_Channel_def split: prod.split)

lemma call_wait_timed:
  assumes "cl_recv c ch = new_Channel 1" "cl_timeout_ms c \<noteq> - 1"
  shows "fst (call_wait g ch c) = Waits \<and> cl_recv (snd (call_wait g ch c)) ch = snd (waitFor g (new_Channel 1))"
  using assms by (simp add: call_wait_def ch_defs new_Channel_def)

lemma waitFor_times_out:
  "\<exists>ch. ch_run [ETimeout g, ELock g, EResume g] (snd (waitFor g (new_Channel 1))) = Some ([Waits, Waits, Fails], ch)"
  by (simp add: exec_defs new_Channel_def new_CoCondVar_def cv_waitFor_def cv_timeout_def)

lemma call_section_fields:
  "cl_session (after_register ch c) = cl_session c" "cl_connected (after_register ch c) = cl_connected c"
  "cl_is_closed (after_register ch c) = cl_is_closed c" "cl_timeout_ms (after_register ch c) = cl_timeout_ms c"
  "cl_sequence_id (after_register ch c) = cl_sequence_id c + 1"
  "cl_recv (after_register ch c) = (cl_recv c)(ch := new_Channel 1)"
  "cl_session (after_response f resp ch c) = cl_session c" "cl_connected (after_response f resp ch c) = cl_connected c"
  "cl_is_closed (after_response f resp ch c) = cl_is_closed c" "cl_timeout_ms (after_response f resp ch c) = cl_timeout_ms c"
  "cl_sequence_id (after_response f resp ch c) = p_sequence_id resp"
  "cl_recv (after_response f resp ch c) = (cl_recv c)(ch := snd (push f (Some resp) (cl_recv c ch)))"
  "cl_response_handle (after_response f resp ch c) = cl_response_handle c"
  "table_ok (after_response f resp ch c) = table_ok c"
  "cl_session (after_erase it c) = cl_session c" "cl_connected (after_erase it c) = cl_connected c"
  "cl_is_closed (after_erase it c) = cl_is_closed c" "cl_timeout_ms (after_erase it c) = cl_timeout_ms c"
  "cl_sequence_id (after_erase it c) = cl_sequence_id c" "cl_recv (after_erase it c) = cl_recv c"
  "cl_session (snd (call_wait g ch c)) = cl_session c" "cl_connected (snd (call_wait g ch c)) = cl_connected c"
  "cl_is_closed (snd (call_wait g ch c)) = cl_is_closed c" "cl_timeout_ms (snd (call_wait g ch c)) = cl_timeout_ms c"
  "cl_sequence_id (snd (call_wait g ch c)) = cl_sequence_id c"
  "cl_response_handle (snd (call_wait g ch c)) = cl_response_handle c" "table_ok (snd (call_wait g ch c)) = table_ok c"
  "ch' \<noteq> ch \<Longrightarrow> cl_recv (snd (call_wait g ch c)) ch' = cl_recv c ch'"
  by (auto simp: after_register_def after_response_def after_erase_def call_wait_def table_ok_def split: prod.split)

lemma call_section_table:
  "table_ok c \<Longrightarrow> table_ok (after_register ch c)"
  "table_ok c \<Longrightarrow> map_of (cl_response_handle (after_register ch c)) j =
     (if j = cl_sequence_id c \<and> map_of (cl_response_handle c) j = None then Some ch else map_of (cl_response_handle c) j)"
  "table_ok c \<Longrightarrow> table_ok (after_erase it c)"
  "table_ok c \<Longrightarrow> map_of (cl_response_handle c) k = Some ch \<Longrightarrow>
     map_of (cl_response_handle (after_erase (k, ch) c)) j = (if j = k then None else map_of (cl_response_handle c) j)"
  by (auto simp: table_ok_def after_register_def after_erase_def emplace_sorted emplace_map_of erase_sorted erase_map_of)

lemmas call_sections = call_section_fields call_section_table

section \<open>Properties\<close>

text \<open>
  C1. A call on an idle connection returns the value of the registered function: the client
  registers the call, the server, which has armed the connection's heartbeat timer before its message loop, answers the request, the client's receive loop
  hands the response to the channel of this call, whose reader takes it out, and the table of
  pending calls is empty again. The code of the result is whatever the uninitialised local held.
\<close>

theorem rpc_call_returns:
  assumes "rs_services srv name = Some m" "list_all2 sval_ok (m_args m) args"
    "sval_ok (m_ret m) (m_fun m args)"
    "length (vint.enc_string name @ tuple_enc args) \<le> string_max_size"
    "length (result_enc \<lparr>r_code = 0, r_msg = [], r_val = m_fun m args\<rparr>) \<le> string_max_size"
    "cl_session c" "cl_connected c" "\<not> cl_is_closed c" "cl_response_handle c = []"
  shows "\<exists>i it c1 req ht tm1 resp srv_st c2 c3.
    call_register ch c = Some (i, it, c1) \<and> call_request fill name args i = Inr req \<and>
    update tm a now0 alive_time None session = Inr (ht, tm1) \<and>
    handleClient_round fill' val0 a now alive_time session (srv, tm1, ht) (Some req) =
      Inr (Reply (Some resp), srv_st) \<and>
    client_recv_round fill f c1 (Some resp) = Inr (Done [], c2) \<and>
    fst (pop g (cl_recv c2 ch)) = Popped (Some resp) \<and>
    call_erase it c2 = Inr c3 \<and> cl_response_handle c3 = [] \<and>
    call_finish fill (m_ret m) (new_Result code0 v0) (Some (Some resp)) =
      Inr \<lparr>r_code = code0, r_msg = [], r_val = m_fun m args\<rparr>"
proof -
  let ?i = "cl_sequence_id c"
  let ?c1 = "c\<lparr>cl_recv := (cl_recv c)(ch := new_Channel 1), cl_response_handle := [(?i, ch)],
    cl_sequence_id := ?i + 1\<rparr>"
  obtain req resp where call: "call_request fill name args ?i = Inr req" "handleMethodCall fill' srv req = Inr resp"
    "p_sequence_id resp = ?i" "getMsgType resp = Some RPC_METHOD_RESPONSE"
    "call_response fill (m_ret m) (new_Result code0 v0) (Some resp) =
      Inr \<lparr>r_code = code0, r_msg = [], r_val = m_fun m args\<rparr>"
    using rpc_roundtrip [OF assms(1-5)] by blast
  have req: "getMsgType req = Some RPC_METHOD_REQUEST"
    using call(1) call_request_eq [OF assms(4)] by auto
  define c2 where "c2 = handleMethodResponse f resp (?c1\<lparr>cl_is_heartclose := False\<rparr>)"
  have c2: "cl_recv c2 ch = snd (push f (Some resp) (new_Channel 1))" "cl_response_handle c2 = [(?i, ch)]"
    "\<not> cl_is_closed c2"
    using call(3) assms(8) by (simp_all add: c2_def handleMethodResponse_def)
  have "fst (pop g (cl_recv c2 ch)) = Popped (Some resp)"
    unfolding c2(1) by (rule box.fresh_delivers)
  moreover have "call_register ch c = Some (?i, (?i, ch), ?c1)"
    using assms(6,7,9) by (simp add: call_register_def Let_def)
  moreover obtain tm1 tm2 where u: "update tm a now0 alive_time None session = Inr (Some a, tm1)"
    "update tm1 a now alive_time (Some a) session = Inr (Some a, tm2)"
    using update_first update_kept by blast
  moreover have "handleClient_round fill' val0 a now alive_time session (srv, tm1, Some a) (Some req) =
      Inr (Reply (Some resp), srv, tm2, Some a)"
    using req call(2) u(2) by (simp add: handleClient_round_def)
  moreover have "client_recv_round fill f ?c1 (Some resp) = Inr (Done [], c2)"
    using call(4) by (simp add: client_recv_round_def c2_def)
  moreover have "call_erase (?i, ch) c2 = Inr (c2\<lparr>cl_response_handle := []\<rparr>)"
    using c2 by (simp add: call_erase_def)
  moreover have "call_finish fill (m_ret m) (new_Result code0 v0) (Some (Some resp)) =
      Inr \<lparr>r_code = code0, r_msg = [], r_val = m_fun m args\<rparr>"
    using call(5) by (simp add: call_finish_def)
  ultimately show ?thesis using call(1) by fastforce
qed

definition idle_client :: rpc_client where
  "idle_client = snd (snd (client_connect True 4 10 1 (new_RPCClient False False new_TimerManager True)))"

lemma idle_client_fields [simp]:
  "cl_session idle_client" "cl_connected idle_client" "\<not> cl_is_closed idle_client"
  "cl_response_handle idle_client = []" "cl_sequence_id idle_client = 0"
  by (simp_all add: idle_client_def client_connect_def new_RPCClient_def Let_def)

lemma idle_client_timer:
  "cl_heartbeat_timer idle_client = Some 4" "tm_reach (cl_timers idle_client)" "tm_obj (cl_timers idle_client) 4 \<noteq> None"
proof -
  have "cl_timers idle_client = fst (addTimer new_TimerManager 4 10 30000 (Some (Plain 1)) True)"
    by (simp add: idle_client_def client_connect_def new_RPCClient_def Let_def)
  then show "tm_reach (cl_timers idle_client)" "tm_obj (cl_timers idle_client) 4 \<noteq> None"
    by (metis tm_reach_one) (simp add: \<open>cl_timers idle_client = _\<close> addTimer_new)
qed (simp add: idle_client_def client_connect_def new_RPCClient_def Let_def)

theorem rpc_call_returns_witness:
  "\<exists>i it c1 req ht tm1 resp srv_st. call_register 5 idle_client = Some (i, it, c1) \<and>
    call_request (\<lambda>_ _. 7) [97] [VInt32 2, VInt32 (- 5)] i = Inr req \<and>
    update new_TimerManager 4 10 40000 None 1 = Inr (ht, tm1) \<and>
    handleClient_round (\<lambda>_ _. 8) 0 4 12 40000 1
      (registerMethod \<lparr>rs_services = Map.empty, rs_subscribes = Map.empty\<rparr> [97] add_method, tm1, ht) (Some req) =
      Inr (Reply (Some resp), srv_st) \<and>
    call_finish (\<lambda>_ _. 7) TInt32 (new_Result 77 (VInt32 0)) (Some (Some resp)) =
      Inr \<lparr>r_code = 77, r_msg = [], r_val = VInt32 (- 3)\<rparr>"
proof -
  let ?srv = "registerMethod \<lparr>rs_services = Map.empty, rs_subscribes = Map.empty\<rparr> [97] add_method"
  have "length (vint.enc_string [97] @ tuple_enc [VInt32 2, VInt32 (- 5)]) \<le> string_max_size"
    using length_varint32 [of "EncodeZigzag32 2"] length_varint32 [of "EncodeZigzag32 (- 5)"]
      length_varint64 [of 1]
    by (simp add: vint.enc_string_def tuple_enc_def string_max_size_def)
  moreover have "length (result_enc \<lparr>r_code = 0, r_msg = [], r_val = VInt32 (- 3)\<rparr>) \<le> string_max_size"
    using length_varint32 [of "EncodeZigzag32 (- 3)"] length_varint64 [of 0]
    by (simp add: result_enc_def vint.enc_string_def string_max_size_def)
  ultimately show ?thesis
    using rpc_call_returns [of ?srv "[97]" add_method "[VInt32 2, VInt32 (- 5)]" idle_client 5
        "\<lambda>_ _. 7" new_TimerManager 4 10 40000 1 "\<lambda>_ _. 8" 0 12 1 2 77 "VInt32 0"]
    by (simp add: registerMethod_def add_method_def sval_ok_def) blast
qed

text \<open>
  C36. Sequence numbers are reused while they are in flight: \<open>handleMethodResponse\<close> stores the id of
  the response in the counter. On any connected client, let two calls be made, with the channels \<open>a\<close> and \<open>b\<close>, and the first be answered
  and finished. Then the second of two further calls gets the id of the call that is still pending: its channel \<open>y\<close> is not
  registered, and its iterator is that of the other call. The answer to this id goes to the other call, which
  erases the entry; the later call can only time out, and then erases the entry again, which is undefined behaviour.
\<close>

theorem call_id_reused:
  assumes "cl_session c" "cl_connected c" "\<not> cl_is_closed c" "cl_timeout_ms c \<noteq> - 1" "table_ok c" "cl_sequence_id c = i"
    "map_of (cl_response_handle c) i = None" "map_of (cl_response_handle c) (i + 1) = None"
    "distinct [a, b, x, y]" "\<forall>j. map_of (cl_response_handle c) j \<noteq> Some y"
    "getMsgType resp = Some RPC_METHOD_RESPONSE" "p_sequence_id resp = i"
    "getMsgType resp' = Some RPC_METHOD_RESPONSE" "p_sequence_id resp' = i + 1"
  shows "\<exists>c1 c2 c3 c4 c5 c6 c7 c8 c9 c10 c11 ch.
    call_register a c = Some (i, (i, a), c1) \<and> call_register b c1 = Some (i + 1, (i + 1, b), c2) \<and>
    client_recv_round fill f c2 (Some resp) = Inr (Done [], c3) \<and>
    call_wait ga a c3 = (Popped (Some resp), c4) \<and> call_erase (i, a) c4 = Inr c5 \<and>
    call_register x c5 = Some (i, (i, x), c6) \<and> call_register y c6 = Some (i + 1, (i + 1, b), c7) \<and>
    (\<forall>j. map_of (cl_response_handle c7) j \<noteq> Some y) \<and> call_wait gy y c7 = (Waits, c8) \<and>
    client_recv_round fill f c8 (Some resp') = Inr (Done [], c9) \<and>
    call_wait gb b c9 = (Popped (Some resp'), c10) \<and> call_erase (i + 1, b) c10 = Inr c11 \<and>
    ch_run [ETimeout gy, ELock gy, EResume gy] (cl_recv c11 y) = Some ([Waits, Waits, Fails], ch) \<and>
    call_erase (i + 1, b) c11 = Inl InvalidIterator"
proof -
  define c1 c2 c3 where "c1 = after_register a c" "c2 = after_register b c1" "c3 = after_response f resp a c2"
  define c4 c5 c6 where "c4 = snd (call_wait ga a c3)" "c5 = after_erase (i, a) c4" "c6 = after_register x c5"
  define c7 c8 c9 where "c7 = after_register y c6" "c8 = snd (call_wait gy y c7)" "c9 = after_response f resp' b c8"
  define c10 c11 where "c10 = snd (call_wait gb b c9)" "c11 = after_erase (i + 1, b) c10"
  note steps = c1_c2_c3_def c4_c5_c6_def c7_c8_c9_def c10_c11_def
  have ne: "i + 1 \<noteq> i" "a \<noteq> b" "a \<noteq> x" "a \<noteq> y" "b \<noteq> x" "b \<noteq> y" "x \<noteq> y" using assms(9) by auto
  note facts = steps call_sections assms(1-8,12,14) ne ne [symmetric]
  have s1: "call_register a c = Some (i, (i, a), c1)"
    using call_register_eq [of c a] by (simp add: facts)
  have s2: "call_register b c1 = Some (i + 1, (i + 1, b), c2)"
    using call_register_eq [of c1 b] by (simp add: facts)
  have s3: "client_recv_round fill f c2 (Some resp) = Inr (Done [], c3)"
    using recv_round_response [OF assms(11), of c2 a fill f] by (simp add: facts)
  have s4: "call_wait ga a c3 = (Popped (Some resp), c4)"
    using call_wait_taken [of c3 a f "Some resp" ga] by (simp add: facts prod_eq_iff)
  have s5: "call_erase (i, a) c4 = Inr c5"
    using call_erase_eq [of c4 i a] by (simp add: facts)
  have s6: "call_register x c5 = Some (i, (i, x), c6)"
    using call_register_eq [of c5 x] by (simp add: facts)
  have s7: "call_register y c6 = Some (i + 1, (i + 1, b), c7)"
    using call_register_eq [of c6 y] by (simp add: facts)
  have s8: "call_wait gy y c7 = (Waits, c8)" "cl_recv c8 y = snd (waitFor gy (new_Channel 1))"
    using call_wait_timed [of c7 y gy] by (simp_all add: facts prod_eq_iff)
  have s9: "client_recv_round fill f c8 (Some resp') = Inr (Done [], c9)"
    using recv_round_response [OF assms(13), of c8 b fill f] by (simp add: facts)
  have s10: "call_wait gb b c9 = (Popped (Some resp'), c10)"
    using call_wait_taken [of c9 b f "Some resp'" gb] by (simp add: facts prod_eq_iff)
  have s11: "call_erase (i + 1, b) c10 = Inr c11"
    using call_erase_eq [of c10 "i + 1" b] by (simp add: facts)
  have "cl_recv c11 y = snd (waitFor gy (new_Channel 1))"
    using s8(2) by (simp add: c10_c11_def c7_c8_c9_def(3) call_sections ne [symmetric])
  then obtain ch where s12: "ch_run [ETimeout gy, ELock gy, EResume gy] (cl_recv c11 y) = Some ([Waits, Waits, Fails], ch)"
    using waitFor_times_out [of gy] by auto
  have s13: "call_erase (i + 1, b) c11 = Inl InvalidIterator" by (simp add: call_erase_def facts)
  have "\<forall>j. map_of (cl_response_handle c7) j \<noteq> Some y" using assms(10) by (simp add: facts)
  then show ?thesis using s1 s2 s3 s4 s5 s6 s7 s8(1) s9 s10 s11 s12 s13 by blast
qed

theorem call_id_reused_witness:
  "\<exists>c1 c2 c3 c4 c5 c6 c7 c8. call_register 10 (client_setTimeout 1000 idle_client) = Some (0, (0, 10), c1) \<and>
    call_register 11 c1 = Some (1, (1, 11), c2) \<and>
    client_recv_round (\<lambda>_ _. 0) 1 c2 (Some (Create RPC_METHOD_RESPONSE [0, 1] 0)) = Inr (Done [], c3) \<and>
    call_wait 2 10 c3 = (Popped (Some (Create RPC_METHOD_RESPONSE [0, 1] 0)), c4) \<and> call_erase (0, 10) c4 = Inr c5 \<and>
    call_register 12 c5 = Some (0, (0, 12), c6) \<and> call_register 13 c6 = Some (1, (1, 11), c7) \<and> call_wait 3 13 c7 = (Waits, c8)"
  using call_id_reused [of "client_setTimeout 1000 idle_client" 0 10 11 12 13 "Create RPC_METHOD_RESPONSE [0, 1] 0"
      "Create RPC_METHOD_RESPONSE [0, 2] 1" "\<lambda>_ _. 0" 1 2 3 4]
  by (simp add: client_setTimeout_def table_ok_def) blast

text \<open>
  C26. Closing a connection releases its callers. If the channels of the pending calls have room, every pending call finds the null
  pointer in its channel, which it reports as \<open>RPC_CLOSED\<close>, the table is empty and the heartbeat timer, if there is one, is cancelled. If
  a pending call has been answered and has not taken the answer yet, \<open>close\<close> waits for that call, with the client's
  mutex held. Closing a client that never connected dereferences the null session, unless the uninitialised flag says it is closed.
\<close>

theorem close_releases_callers:
  assumes "cl_session c" "\<not> cl_is_closed c" "tm_reach (cl_timers c)"
    "\<forall>t. cl_heartbeat_timer c = Some t \<longrightarrow> tm_obj (cl_timers c) t \<noteq> None" "distinct (map snd (cl_response_handle c))"
  shows "((\<forall>(i, ch) \<in> set (cl_response_handle c). vacant (cl_recv c ch)) \<longrightarrow>
      (\<exists>c'. client_close f c = Inr (Done [DelReadEvent, SessionClose], c') \<and> cl_is_closed c' \<and> \<not> cl_connected c' \<and>
        cl_response_handle c' = [] \<and> ch_isClosed (cl_channel c') \<and> cl_heartbeat_timer c' = None \<and>
        (\<forall>t. cl_heartbeat_timer c = Some t \<longrightarrow> map_option t_callback (tm_obj (cl_timers c') t) = Some None) \<and>
        (\<forall>(i, ch) \<in> set (cl_response_handle c). fst (pop g (cl_recv c' ch)) = Popped None))) \<and>
    call_finish fill ty val (Some None) = Inr (val\<lparr>r_code := state_code RPC_CLOSED, r_msg := lit ''socket closed''\<rparr>) \<and>
    ((\<exists>(i, ch) \<in> set (cl_response_handle c). full (cl_recv c ch)) \<longrightarrow>
      (\<exists>e es c'. client_close f c = Inr (Waiting (e # es), c') \<and> cl_response_handle c' = cl_response_handle c)) \<and>
    client_close f (new_RPCClient closed0 heart0 tm auto_heartbeat) =
      (if closed0 then Inr (Done [], new_RPCClient closed0 heart0 tm auto_heartbeat) else Inl NullDeref)"
proof -
  let ?c = "c\<lparr>cl_is_heartclose := True, cl_is_closed := True, cl_channel := snd (ch_close (cl_channel c))\<rparr>"
  let ?es = "cl_response_handle c"
  have close: "client_close f c = client_close_from f ?es ?c" using assms(2) by (simp add: client_close_def)
  have closed: "ch_isClosed (cl_channel ?c)" by (simp add: ch_close_def cv_notifyAll_def)
  have "\<exists>c'. client_close f c = Inr (Done [DelReadEvent, SessionClose], c') \<and> cl_is_closed c' \<and> \<not> cl_connected c' \<and>
      cl_response_handle c' = [] \<and> ch_isClosed (cl_channel c') \<and> cl_heartbeat_timer c' = None \<and>
      (\<forall>t. cl_heartbeat_timer c = Some t \<longrightarrow> map_option t_callback (tm_obj (cl_timers c') t) = Some None) \<and>
      (\<forall>(i, ch) \<in> set ?es. fst (pop g (cl_recv c' ch)) = Popped None)"
    if vac: "\<forall>(i, ch) \<in> set ?es. vacant (cl_recv c ch)"
  proof -
    let ?recv = "box.broadcast f None ?es (cl_recv c)"
    have null: "push_null f ?es (cl_recv c) = ([], ?recv)"
      by (rule push_null_broadcast [OF assms(5)]) (use vac in \<open>auto simp: vacant_def full_def\<close>)
    have got: "\<forall>(i, ch) \<in> set ?es. fst (pop g (?recv ch)) = Popped None"
      using box.broadcast_reaches [OF assms(5)] vac by (fastforce simp: vacant_def)
    show ?thesis
    proof (cases "cl_heartbeat_timer c")
      case None
      then show ?thesis using null got closed assms(1) by (simp add: close client_close_from_def Let_def)
    next
      case (Some t)
      then obtain m' b where "cancel (cl_timers c) t = Inr (b, m')" "map_option t_callback (tm_obj m' t) = Some None"
        using cancel_disarms [OF assms(3)] assms(4) by blast
      then show ?thesis using Some null got closed assms(1) by (simp add: close client_close_from_def Let_def)
    qed
  qed
  moreover have "\<exists>e es c'. client_close f c = Inr (Waiting (e # es), c') \<and> cl_response_handle c' = ?es"
    if "\<exists>(i, ch) \<in> set ?es. full (cl_recv c ch)"
  proof -
    have "fst (push_null f ?es (cl_recv c)) \<noteq> []" using that push_null_full [OF _ _ assms(5)] by blast
    then show ?thesis by (auto simp: close client_close_from_def split: prod.split list.split)
  qed
  ultimately show ?thesis
    by (auto simp: client_close_def client_close_from_def call_finish_def call_response_def new_RPCClient_def Let_def)
qed

theorem close_releases_callers_witness:
  "\<exists>c1 c'. call_register 5 idle_client = Some (0, (0, 5), c1) \<and> cl_heartbeat_timer c1 = Some 4 \<and>
    client_close 1 c1 = Inr (Done [DelReadEvent, SessionClose], c') \<and> fst (pop 2 (cl_recv c' 5)) = Popped None \<and>
    cl_heartbeat_timer c' = None"
proof -
  let ?c1 = "after_register 5 idle_client"
  have reg: "call_register 5 idle_client = Some (0, (0, 5), ?c1)"
    by (simp add: call_register_def after_register_def Let_def)
  have c1: "cl_session ?c1" "\<not> cl_is_closed ?c1" "cl_response_handle ?c1 = [(0, 5)]" "cl_recv ?c1 5 = new_Channel 1"
    "cl_heartbeat_timer ?c1 = Some 4" "tm_reach (cl_timers ?c1)" "tm_obj (cl_timers ?c1) 4 \<noteq> None"
    using idle_client_timer by (simp_all add: after_register_def)
  moreover have "vacant (new_Channel 1)" by (simp add: vacant_def new_Channel_def)
  ultimately show ?thesis
    using close_releases_callers [of ?c1 1 2] reg by force
qed

text \<open>
  The receive loop of a client does not end when the connection is lost: the first failed
  receive closes the client, and every further round fails again, changes nothing and goes on.
\<close>

theorem recv_loop_spins:
  assumes "client_recv_round fill f c None = Inr (Done eff, c')"
  shows "cl_is_closed c' \<and> recv_rounds fill f n c' = Inr (Done [], c')"
proof -
  have c': "cl_is_closed c'"
    using assms by (auto simp: client_recv_round_def client_close_def client_close_from_def Let_def
        split: if_splits option.splits prod.splits list.splits)
  then have "recv_rounds fill f n c' = Inr (Done [], c')"
    by (induction n) (simp_all add: client_recv_round_def client_close_def)
  then show ?thesis using c' by simp
qed

theorem recv_loop_spins_witness:
  "\<exists>eff c'. client_recv_round (\<lambda>_ _. 0) 1 idle_client None = Inr (Done eff, c') \<and>
    recv_rounds (\<lambda>_ _. 0) 1 1000 c' = Inr (Done [], c')"
proof -
  obtain m' b where "cancel (cl_timers idle_client) 4 = Inr (b, m')" "cl_heartbeat_timer idle_client = Some 4"
    using cancel_disarms [OF idle_client_timer(2,3)] idle_client_timer(1) by blast
  then have "\<exists>eff c'. client_recv_round (\<lambda>_ _. 0) 1 idle_client None = Inr (Done eff, c')"
    by (simp add: client_recv_round_def client_close_def client_close_from_def Let_def)
  then show ?thesis using recv_loop_spins by blast
qed

end
