(* ===== verification/Address.thy ===== *)
theory Address
  imports Byte_Order
begin

text \<open>
  Network addresses (\<open>include/address.h\<close>, \<open>src/address.cc\<close>).

  The socket address structures are records of the words as they lie in memory: ports and IPv4
  addresses are in network byte order and converted by \<open>NetworkToHost\<close>/\<open>HostToNetwork\<close>. The resolver
  \<open>getaddrinfo\<close>, \<open>inet_pton\<close> and \<open>getifaddrs\<close> are parameters. Shifting by the width of the type is
  undefined in C++ and is the fault \<open>BadShift\<close>.
\<close>

section \<open>Masks and bit counts\<close>

text \<open>\<open>(1 << (sizeof(T) * 8 - bit)) - 1\<close>, computed in \<open>int\<close>, then converted to \<open>T\<close> of \<open>w\<close> bits.\<close>

definition CreateMask :: "nat \<Rightarrow> nat \<Rightarrow> 'a::len word res" where
  "CreateMask w b =
     (if b \<le> w \<and> w - b < 32 then Inr (ucast (push_bit (w - b) (1 :: u32) - 1)) else Inl BadShift)"

function CountBytes :: "'a::len word \<Rightarrow> nat" where
  "CountBytes v = (if v = 0 then 0 else Suc (CountBytes (v AND (v - 1))))"
  by pat_completeness auto
termination
proof (relation "measure unat")
  fix v :: "'a word"
  assume v: "v \<noteq> 0"
  then have "unat (v - 1) < unat v"
    by (simp add: unat_minus_one unat_gt_0)
  moreover have "unat (v AND (v - 1)) \<le> unat (v - 1)"
    using word_and_le1 [of v "v - 1"] by (simp add: word_le_nat_alt)
  ultimately show "(v AND (v - 1), v) \<in> measure unat" by simp
qed simp

declare CountBytes.simps [simp del]

section \<open>Address structures\<close>

record sockaddr_in =
  sin_family :: u16
  sin_port :: u16
  sin_addr :: u32

record sockaddr_in6 =
  sin6_family :: u16
  sin6_port :: u16
  sin6_addr :: bytes

definition AF_UNSPEC :: u16 where "AF_UNSPEC = 0"
definition AF_UNIX :: u16 where "AF_UNIX = 1"
definition AF_INET :: u16 where "AF_INET = 2"
definition AF_INET6 :: u16 where "AF_INET6 = 10"

datatype sockaddr = SockIn sockaddr_in | SockIn6 sockaddr_in6 | SockOther u16

datatype address = IPv4Address sockaddr_in | IPv6Address sockaddr_in6 | UnknownAddress u16

fun sa_family :: "sockaddr \<Rightarrow> u16" where
  "sa_family (SockIn a) = sin_family a"
| "sa_family (SockIn6 a) = sin6_family a"
| "sa_family (SockOther f) = f"

text \<open>\<open>Address::Create\<close>; the outer \<open>None\<close> is the null pointer.\<close>

definition Address_Create :: "sockaddr option \<Rightarrow> address option" where
  "Address_Create addr =
     (case addr of None \<Rightarrow> None
      | Some (SockIn a) \<Rightarrow> Some (IPv4Address a)
      | Some (SockIn6 a) \<Rightarrow> Some (IPv6Address a)
      | Some (SockOther f) \<Rightarrow> Some (UnknownAddress f))"

section \<open>IPv4\<close>

definition new_IPv4 :: "u32 \<Rightarrow> u16 \<Rightarrow> sockaddr_in" where
  "new_IPv4 addr port =
     \<lparr>sin_family = AF_INET, sin_port = HostToNetwork 2 port, sin_addr = HostToNetwork 4 addr\<rparr>"

text \<open>\<open>pton\<close> is \<open>inet_pton\<close>: the address in network order, or none.\<close>

definition IPv4_Create :: "(bytes \<Rightarrow> u32 option) \<Rightarrow> bytes \<Rightarrow> u16 \<Rightarrow> sockaddr_in option" where
  "IPv4_Create pton addr port =
     (case pton addr of None \<Rightarrow> None
      | Some a \<Rightarrow> Some ((new_IPv4 0 0)\<lparr>sin_port := HostToNetwork 2 port, sin_addr := a\<rparr>))"

definition IPv4_broadcastAddress :: "sockaddr_in \<Rightarrow> nat \<Rightarrow> sockaddr_in option res" where
  "IPv4_broadcastAddress a prefix_len =
     (if 32 < prefix_len then Inr None
      else bindE (CreateMask 32 prefix_len)
        (\<lambda>m. Inr (Some (a\<lparr>sin_addr := sin_addr a OR EndianCast 4 m\<rparr>))))"

definition IPv4_networkAddress :: "sockaddr_in \<Rightarrow> nat \<Rightarrow> sockaddr_in option res" where
  "IPv4_networkAddress a prefix_len =
     (if 32 < prefix_len then Inr None
      else bindE (CreateMask 32 prefix_len)
        (\<lambda>m. Inr (Some (a\<lparr>sin_addr := sin_addr a AND EndianCast 4 m\<rparr>))))"

definition IPv4_subnetMask :: "nat \<Rightarrow> sockaddr_in option res" where
  "IPv4_subnetMask prefix_len =
     (if 32 < prefix_len then Inr None
      else bindE (CreateMask 32 prefix_len)
        (\<lambda>m. Inr (Some \<lparr>sin_family = AF_INET, sin_port = 0, sin_addr = 0 OR NOT (EndianCast 4 m)\<rparr>)))"

definition IPv4_getPort :: "sockaddr_in \<Rightarrow> u32" where
  "IPv4_getPort a = ucast (NetworkToHost 2 (sin_port a))"

definition IPv4_setPort :: "sockaddr_in \<Rightarrow> u16 \<Rightarrow> sockaddr_in" where
  "IPv4_setPort a v = a\<lparr>sin_port := HostToNetwork 2 v\<rparr>"

definition dotted :: "u32 \<Rightarrow> bytes" where
  "dotted addr =
     dec (unat (drop_bit 24 addr AND 0xff)) @ lit ''.'' @ dec (unat (drop_bit 16 addr AND 0xff)) @
     lit ''.'' @ dec (unat (drop_bit 8 addr AND 0xff)) @ lit ''.'' @ dec (unat (addr AND 0xff))"

definition IPv4_insert :: "sockaddr_in \<Rightarrow> bytes" where
  "IPv4_insert a = dotted (NetworkToHost 4 (sin_addr a)) @ lit '':'' @ dec (unat (NetworkToHost 2 (sin_port a)))"

section \<open>IPv6\<close>

definition new_IPv6 :: sockaddr_in6 where
  "new_IPv6 = \<lparr>sin6_family = AF_INET6, sin6_port = 0, sin6_addr = replicate 16 0\<rparr>"

text \<open>\<open>HostToNetwork\<close> is instantiated at \<open>uint32_t\<close> here, and the result converted to \<open>uint16_t\<close>.\<close>

definition IPv6_bytes :: "bytes \<Rightarrow> u32 \<Rightarrow> sockaddr_in6" where
  "IPv6_bytes addr port =
     \<lparr>sin6_family = AF_INET6, sin6_port = ucast (HostToNetwork 4 port), sin6_addr = addr\<rparr>"

definition IPv6_Create :: "(bytes \<Rightarrow> bytes option) \<Rightarrow> bytes \<Rightarrow> u32 \<Rightarrow> sockaddr_in6 option" where
  "IPv6_Create pton addr port =
     (case pton addr of None \<Rightarrow> None
      | Some a \<Rightarrow> Some (new_IPv6\<lparr>sin6_port := ucast (HostToNetwork 4 port), sin6_addr := a\<rparr>))"

definition IPv6_broadcastAddress :: "sockaddr_in6 \<Rightarrow> nat \<Rightarrow> sockaddr_in6 res" where
  "IPv6_broadcastAddress a prefix_len =
     (if 16 \<le> prefix_len div 8 then Inl OutOfBounds
      else bindE (CreateMask 8 (prefix_len mod 8)) (\<lambda>m.
        let k = prefix_len div 8; bs = sin6_addr a in
        Inr (a\<lparr>sin6_addr := take k bs @ [bs ! k OR m] @ replicate (15 - k) 0xff\<rparr>)))"

definition IPv6_networkAddress :: "sockaddr_in6 \<Rightarrow> nat \<Rightarrow> sockaddr_in6 res" where
  "IPv6_networkAddress a prefix_len =
     (if 16 \<le> prefix_len div 8 then Inl OutOfBounds
      else bindE (CreateMask 8 (prefix_len mod 8)) (\<lambda>m.
        let k = prefix_len div 8; bs = sin6_addr a in
        Inr (a\<lparr>sin6_addr := take k bs @ [bs ! k AND m] @ replicate (15 - k) 0\<rparr>)))"

definition IPv6_subnetMask :: "nat \<Rightarrow> sockaddr_in6 res" where
  "IPv6_subnetMask prefix_len =
     (if 16 \<le> prefix_len div 8 then Inl OutOfBounds
      else bindE (CreateMask 8 (prefix_len mod 8)) (\<lambda>m.
        let k = prefix_len div 8 in
        Inr \<lparr>sin6_family = AF_INET6, sin6_port = 0,
              sin6_addr = replicate k 0xff @ [NOT m] @ replicate (15 - k) 0\<rparr>))"

definition IPv6_getPort :: "sockaddr_in6 \<Rightarrow> u32" where
  "IPv6_getPort a = ucast (NetworkToHost 2 (sin6_port a))"

definition IPv6_setPort :: "sockaddr_in6 \<Rightarrow> u16 \<Rightarrow> sockaddr_in6" where
  "IPv6_setPort a v = a\<lparr>sin6_port := NetworkToHost 2 v\<rparr>"

text \<open>The loop of \<open>IPv6Address::insert\<close> over the eight groups; the last result is \<open>used_zeros\<close>.\<close>

definition group6 :: "bytes \<Rightarrow> nat \<Rightarrow> u16" where
  "group6 bs i = obj_word (take 2 (drop (2 * i) bs))"

function insert6_loop :: "bytes \<Rightarrow> nat \<Rightarrow> bool \<Rightarrow> bytes \<times> bool" where
  "insert6_loop bs i used =
     (if 8 \<le> i then ([], used)
      else if group6 bs i = 0 \<and> \<not> used then insert6_loop bs (Suc i) used
      else
        let skip = 0 < i \<and> group6 bs (i - 1) = 0 \<and> \<not> used;
            (os, used') = insert6_loop bs (Suc i) (used \<or> skip)
        in ((if skip then lit '':'' else []) @ (if 0 < i then lit '':'' else []) @
            hex (unat (NetworkToHost 2 (group6 bs i))) @ os, used'))"
  by pat_completeness auto
termination
  by (relation "measure (\<lambda>(bs, i, used). 8 - i)") auto

declare insert6_loop.simps [simp del]

definition IPv6_insert :: "sockaddr_in6 \<Rightarrow> bytes" where
  "IPv6_insert a =
     (let (os, used) = insert6_loop (sin6_addr a) 0 False in
      lit ''['' @ os @ (if \<not> used \<and> group6 (sin6_addr a) 7 = 0 then lit ''::'' else []) @
      lit '']:'' @ dec (unat (NetworkToHost 2 (sin6_port a))))"

section \<open>Unix domain and unknown addresses\<close>

definition sun_path_size :: nat where "sun_path_size = 108"
definition sun_path_offset :: nat where "sun_path_offset = 2"

record unix_address =
  ua_path :: bytes
  ua_len :: nat

definition new_UnixAddress :: unix_address where
  "new_UnixAddress = \<lparr>ua_path = replicate sun_path_size 0, ua_len = sun_path_offset + (sun_path_size - 1)\<rparr>"

definition UnixAddress_path :: "bytes \<Rightarrow> unix_address res" where
  "UnixAddress_path path =
     (let len = length path + 1; len = (if path \<noteq> [] \<and> hd path = 0 then len - 1 else len) in
      if sun_path_size < len then Inl LogicError
      else Inr \<lparr>ua_path = overwrite 0 (take len (path @ [0])) (replicate sun_path_size 0),
                ua_len = len + sun_path_offset\<rparr>)"

definition c_str :: "bytes \<Rightarrow> bytes" where
  "c_str bs = takeWhile (\<lambda>b. b \<noteq> 0) bs"

text \<open>\<open>92\<close> and \<open>48\<close> are the characters of the printed escape for a leading zero byte.\<close>

definition Unix_insert :: "unix_address \<Rightarrow> bytes" where
  "Unix_insert a =
     (if sun_path_offset < ua_len a \<and> hd (ua_path a) = 0
      then [92, 48] @ take (ua_len a - sun_path_offset - 1) (drop 1 (ua_path a))
      else c_str (ua_path a))"

definition Unix_getPath :: "unix_address \<Rightarrow> bytes" where
  "Unix_getPath a =
     (if sun_path_offset < ua_len a \<and> hd (ua_path a) = 0
      then [92, 48] @ take (ua_len a - sun_path_offset - 1) (drop 1 (ua_path a))
      else c_str (ua_path a))"

definition Unix_setAddrLen :: "unix_address \<Rightarrow> nat \<Rightarrow> unix_address" where
  "Unix_setAddrLen a v = a\<lparr>ua_len := v\<rparr>"

definition Unknown_insert :: "u16 \<Rightarrow> bytes" where
  "Unknown_insert f = lit ''[UnknownAddress family='' @ dec (unat f) @ lit '']''"

definition address_toString :: "address \<Rightarrow> bytes" where
  "address_toString addr =
     (case addr of IPv4Address a \<Rightarrow> IPv4_insert a | IPv6Address a \<Rightarrow> IPv6_insert a
      | UnknownAddress f \<Rightarrow> Unknown_insert f)"

section \<open>Comparison\<close>

text \<open>\<open>memcmp\<close> of the common length, then the shorter one first; on the bytes of the structures.\<close>

fun memcmp :: "bytes \<Rightarrow> bytes \<Rightarrow> int" where
  "memcmp (a # as) (b # bs) = (if a < b then - 1 else if b < a then 1 else memcmp as bs)"
| "memcmp _ _ = 0"

definition Address_less :: "bytes \<Rightarrow> bytes \<Rightarrow> bool" where
  "Address_less l r =
     (let minlen = min (length l) (length r); result = memcmp (take minlen l) (take minlen r) in
      if result < 0 then True else if 0 < result then False else length l < length r)"

definition Address_eq :: "bytes \<Rightarrow> bytes \<Rightarrow> bool" where
  "Address_eq l r = (length l = length r \<and> memcmp l r = 0)"

definition Address_ne :: "bytes \<Rightarrow> bytes \<Rightarrow> bool" where
  "Address_ne l r = (\<not> Address_eq l r)"

section \<open>Resolving a host string\<close>

fun memchr :: "u8 \<Rightarrow> bytes \<Rightarrow> nat option" where
  "memchr c [] = None"
| "memchr c (b # bs) = (if b = c then Some 0 else map_option Suc (memchr c bs))"

text \<open>
  The splitting of the host in \<open>Address::Lookup\<close> into the node and the service passed to
  \<open>getaddrinfo\<close>. \<open>91\<close>, \<open>93\<close> and \<open>58\<close> are the brackets and the colon.
\<close>

definition bracketed :: "bytes \<Rightarrow> bytes \<times> bytes option" where
  "bracketed host =
     (if host \<noteq> [] \<and> hd host = 91
      then (case memchr 93 (tl host) of None \<Rightarrow> ([], None)
        | Some k \<Rightarrow> (take k (tl host),
            if drop (k + 2) host \<noteq> [] \<and> hd (drop (k + 2) host) = 58 then Some (drop (k + 3) host) else None))
      else ([], None))"

definition split_host :: "bytes \<Rightarrow> bytes \<times> bytes option" where
  "split_host host =
     (let (node, service) = bracketed host;
          (node, service) =
            (if node = []
             then (case memchr 58 host of None \<Rightarrow> ([], None)
               | Some c \<Rightarrow>
                   if memchr 58 (drop (c + 1) host) = None then (take c host, Some (drop (c + 1) host))
                   else ([], Some (drop c host)))
             else (node, service))
      in (if node = [] then host else node, service))"

text \<open>\<open>gai\<close> is the resolver on node and service; \<open>None\<close> an error.\<close>

definition Lookup :: "(bytes \<times> bytes option \<Rightarrow> sockaddr list option) \<Rightarrow> bytes \<Rightarrow> address option list option" where
  "Lookup gai host = map_option (map (\<lambda>a. Address_Create (Some a))) (gai (split_host host))"

definition LookupAny :: "(bytes \<times> bytes option \<Rightarrow> sockaddr list option) \<Rightarrow> bytes \<Rightarrow> address option res" where
  "LookupAny gai host =
     (case Lookup gai host of None \<Rightarrow> Inr None | Some [] \<Rightarrow> Inl OutOfBounds | Some (a # _) \<Rightarrow> Inr a)"

fun is_ip :: "address option \<Rightarrow> bool" where
  "is_ip (Some (IPv4Address _)) = True"
| "is_ip (Some (IPv6Address _)) = True"
| "is_ip _ = False"

definition LookupAnyIPAdress :: "(bytes \<times> bytes option \<Rightarrow> sockaddr list option) \<Rightarrow> bytes \<Rightarrow> address option" where
  "LookupAnyIPAdress gai host =
     (case Lookup gai host of None \<Rightarrow> None
      | Some res \<Rightarrow> (case find is_ip res of None \<Rightarrow> None | Some a \<Rightarrow> a))"

text \<open>
  \<open>IPAddress::Create\<close> on the first address that the resolver gives for the host; a successful resolver gives at least
  one.
\<close>

definition IPAddress_Create :: "(bytes \<times> bytes option \<Rightarrow> sockaddr list option) \<Rightarrow> bytes \<Rightarrow> u16 \<Rightarrow> address option" where
  "IPAddress_Create gai host port =
     (case gai (host, None) of
        Some (a # _) \<Rightarrow>
          (case Address_Create (Some a) of
             Some (IPv4Address b) \<Rightarrow> Some (IPv4Address (IPv4_setPort b port))
           | Some (IPv6Address b) \<Rightarrow> Some (IPv6Address (IPv6_setPort b port))
           | _ \<Rightarrow> None)
      | _ \<Rightarrow> None)"

text \<open>
  \<open>GetInterfaceAddress\<close>: the list of \<open>getifaddrs\<close> as names and addresses, the address of an
  interface possibly null.
\<close>

fun interface_loop :: "u16 \<Rightarrow> (bytes \<times> sockaddr option) list \<Rightarrow>
    (bytes \<times> address \<times> nat) list res" where
  "interface_loop family [] = Inr []"
| "interface_loop family ((name, None) # ifs) = Inl NullDeref"
| "interface_loop family ((name, Some sa) # ifs) =
     (if family \<noteq> AF_UNSPEC \<and> family \<noteq> sa_family sa then interface_loop family ifs
      else bindE (interface_loop family ifs) (\<lambda>r. Inr
        (case sa of
           SockIn a \<Rightarrow> (name, IPv4Address a, CountBytes (sin_addr a)) # r
         | SockIn6 a \<Rightarrow> (name, IPv6Address a, sum_list (map CountBytes (sin6_addr a))) # r
         | SockOther f \<Rightarrow> r)))"

definition GetInterfaceAddress :: "(bytes \<times> sockaddr option) list option \<Rightarrow> u16 \<Rightarrow>
    (bool \<times> (bytes \<times> address \<times> nat) list) res" where
  "GetInterfaceAddress getifaddrs family =
     (case getifaddrs of None \<Rightarrow> Inr (False, [])
      | Some ifs \<Rightarrow> bindE (interface_loop family ifs) (\<lambda>r. Inr (r \<noteq> [], r)))"

definition GetInterfaceAddress_iface :: "(bytes \<times> sockaddr option) list option \<Rightarrow> bytes \<Rightarrow> u16 \<Rightarrow>
    (bool \<times> (address \<times> nat) list) res" where
  "GetInterfaceAddress_iface getifaddrs iface family =
     (if iface = [] \<or> iface = lit ''*''
      then Inr (True, (if family = AF_INET \<or> family = AF_UNSPEC then [(IPv4Address (new_IPv4 0 0), 0)] else []) @
                      (if family = AF_INET6 \<or> family = AF_UNSPEC then [(IPv6Address new_IPv6, 0)] else []))
      else bindE (GetInterfaceAddress getifaddrs family) (\<lambda>(ok, m).
        if \<not> ok then Inr (False, [])
        else let result = map snd (filter (\<lambda>e. fst e = iface) m) in Inr (result \<noteq> [], result)))"

section \<open>Lemmas\<close>

fun popcount :: "nat \<Rightarrow> nat" where
  "popcount n = (if n = 0 then 0 else n mod 2 + popcount (n div 2))"

declare popcount.simps [simp del]

lemma popcount_double: "popcount (2 * n) = popcount n" "popcount (Suc (2 * n)) = Suc (popcount n)"
  by (simp_all add: popcount.simps [of "2 * n"] popcount.simps [of "Suc (2 * n)"] popcount.simps [of 0])

lemma and_double:
  fixes m n :: nat
  shows "(2 * m) AND Suc (2 * n) = 2 * (m AND n)" "Suc (2 * m) AND (2 * n) = 2 * (m AND n)"
  by (simp_all add: and_nat_rec [of "2 * m"] and_nat_rec [of "Suc (2 * m)"])

text \<open>Clearing the lowest set bit takes one from the number of set bits.\<close>

lemma popcount_clear: "0 < n \<Longrightarrow> Suc (popcount (n AND (n - 1))) = popcount n"
proof (induction n rule: less_induct)
  case (less n)
  show ?case
  proof (cases "even n")
    case True
    then obtain m where n: "n = 2 * m" "0 < m" using less.prems by (elim evenE) auto
    then obtain k where k: "m = Suc k" by (cases m) auto
    have "n - 1 = Suc (2 * k)" using n k by simp
    then have "n AND (n - 1) = 2 * (m AND (m - 1))" using n k by (simp only: and_double diff_Suc_1)
    then show ?thesis using less.IH [of m] n by (simp add: popcount_double)
  next
    case False
    then obtain m where n: "n = Suc (2 * m)" by (elim oddE) auto
    have "m AND m = m" by simp
    then have "n AND (n - 1) = 2 * m" using n by (simp only: diff_Suc_1 and_double)
    then show ?thesis using n by (simp only: popcount_double)
  qed
qed

lemma CountBytes_popcount: "CountBytes v = popcount (unat v)"
proof (induction v rule: CountBytes.induct)
  case (1 v)
  show ?case
  proof (cases "v = 0")
    case True
    then show ?thesis by (simp add: CountBytes.simps [of 0] popcount.simps [of 0])
  next
    case False
    then have "unat (v AND (v - 1)) = unat v AND (unat v - 1)"
      by (simp add: unsigned_and_eq unat_minus_one)
    moreover have "0 < unat v" using False by (simp add: unat_gt_0)
    ultimately show ?thesis
      using 1 False popcount_clear [of "unat v"] by (simp add: CountBytes.simps [of v])
  qed
qed

lemma EndianCast_word:
  "EndianCast n w = (if n = 1 then w else ByteSwap n w)"
  by (simp add: EndianCast_def RPC_BYTE_ORDER_def RPC_LITTLE_ENDIAN_def RPC_BIG_ENDIAN_def)

lemma swap32 [simp]:
  fixes w :: u32
  shows "NetworkToHost 4 (EndianCast 4 w) = w" "EndianCast 4 (NetworkToHost 4 w) = w"
  by (simp_all add: NetworkToHost_def EndianCast_word ByteSwap_involution)

lemma NetworkToHost_bitwise:
  fixes v w :: u32
  shows "NetworkToHost 4 (v AND w) = NetworkToHost 4 v AND NetworkToHost 4 w"
    "NetworkToHost 4 (v OR w) = NetworkToHost 4 v OR NetworkToHost 4 w"
    "NetworkToHost 4 (NOT v) = NOT (NetworkToHost 4 v)"
  by (simp_all add: NetworkToHost_def EndianCast_word ByteSwap_bitwise)

lemma CreateMask_32:
  assumes "0 < p" "p \<le> 32"
  shows "CreateMask 32 p = Inr (mask (32 - p) :: u32)"
proof -
  have "push_bit (32 - p) (1 :: u32) - 1 = mask (32 - p)"
    by (simp add: mask_eq_exp_minus_1 push_bit_eq_mult)
  then show ?thesis using assms by (simp add: CreateMask_def del: push_bit_of_1)
qed

lemma memchr_None: "c \<notin> set bs \<Longrightarrow> memchr c bs = None"
  by (induction bs) auto

lemma memchr_append: "c \<notin> set xs \<Longrightarrow> memchr c (xs @ c # ys) = Some (length xs)"
  by (induction xs) auto

lemma split_host_port:
  assumes "node \<noteq> []" "hd node \<noteq> 91" "58 \<notin> set node" "58 \<notin> set service"
  shows "split_host (node @ 58 # service) = (node, Some service)"
proof -
  have "bracketed (node @ 58 # service) = ([], None)" using assms(1,2) by (simp add: bracketed_def)
  then show ?thesis
    using assms(1,3,4) by (simp add: split_host_def memchr_append memchr_None)
qed

lemma length_IPv4_insert: "length (IPv4_insert a) \<le> 21"
proof -
  have byte: "length (dec (unat (w AND 0xff))) \<le> 3" for w :: u32
  proof -
    have "w AND 0xff \<le> 0xff" by (rule word_and_le1)
    then have "unat (w AND 0xff) < 10 ^ Suc 2" by (simp add: word_le_nat_alt)
    then show ?thesis using length_dec [of "unat (w AND 0xff)" 2] by simp
  qed
  let ?w = "NetworkToHost 4 (sin_addr a)" and ?p = "NetworkToHost 2 (sin_port a)"
  have "unat ?p < 10 ^ Suc 4" using unsigned_less [of ?p, where ?'a = nat] by simp
  then have "length (dec (unat ?p)) \<le> 5" using length_dec [of "unat ?p" 4] by simp
  then show ?thesis
    using byte [of "drop_bit 24 ?w"] byte [of "drop_bit 16 ?w"] byte [of "drop_bit 8 ?w"] byte [of ?w]
    by (simp add: IPv4_insert_def dotted_def)
qed

lemma dotted_chars: "set (dotted a) \<subseteq> insert 46 {48..57}"
  using dec_digits by (auto simp: dotted_def lit_def of_char_def dest!: subsetD)

section \<open>Properties\<close>

text \<open>
  For a prefix of 1 to 32 bits, in host byte order: \<open>broadcastAddress\<close> sets all bits below the
  prefix and \<open>subnetMask\<close> has exactly the bits of the prefix set; \<open>networkAddress\<close>, however, keeps the
  bits below the prefix and clears the network part. A prefix of 0 shifts by the width of \<open>int\<close>.
\<close>

theorem ipv4_prefix_arithmetic:
  fixes a :: sockaddr_in
  assumes "0 < p" "p \<le> 32"
  defines "host \<equiv> NetworkToHost 4 (sin_addr a)" and "low \<equiv> mask (32 - p) :: u32"
  shows "\<exists>b n m. IPv4_broadcastAddress a p = Inr (Some b) \<and> NetworkToHost 4 (sin_addr b) = host OR low \<and>
    IPv4_subnetMask p = Inr (Some m) \<and> NetworkToHost 4 (sin_addr m) = NOT low \<and>
    IPv4_networkAddress a p = Inr (Some n) \<and> NetworkToHost 4 (sin_addr n) = host AND low \<and>
    IPv4_networkAddress a 0 = Inl BadShift"
  using assms CreateMask_32 [OF assms(1,2)]
  by (simp add: IPv4_broadcastAddress_def IPv4_subnetMask_def IPv4_networkAddress_def
      NetworkToHost_bitwise CreateMask_def [of 32 0])

theorem ipv4_prefix_arithmetic_witness:
  "\<exists>b n m. IPv4_broadcastAddress (new_IPv4 0xC0A80105 80) 24 = Inr (Some b) \<and>
    NetworkToHost 4 (sin_addr b) = 0xC0A801FF \<and>
    IPv4_subnetMask 24 = Inr (Some m) \<and> NetworkToHost 4 (sin_addr m) = NOT 0xFF \<and>
    IPv4_networkAddress (new_IPv4 0xC0A80105 80) 24 = Inr (Some n) \<and>
    NetworkToHost 4 (sin_addr n) = 5"
  using ipv4_prefix_arithmetic [of 24 "new_IPv4 0xC0A80105 80"]
  by (simp add: new_IPv4_def HostToNetwork_def mask_eq_exp_minus_1) blast

text \<open>
  An IPv6 address built with a port loses it: the byte swap is taken at 32 bits and the result
  cut to 16, so every port below \<open>2 ^ 16\<close> becomes 0. IPv4 addresses keep their port.
\<close>

theorem ipv6_port_lost:
  assumes "unat port < 2 ^ 16"
  shows "IPv6_getPort (IPv6_bytes addr port) = 0 \<and>
    IPv4_getPort (new_IPv4 a (ucast port)) = port"
proof -
  have "take_bit 16 port = port" using assms by (simp add: word_unat_eq_iff unat_take_bit)
  then have small: "\<not> bit port k" if "16 \<le> k" for k using that by (metis bit_take_bit_iff not_less)
  have "\<not> bit (ByteSwap 4 port) k" if "k < 16" for k
  proof -
    have "k div 8 < 2" using that by auto
    then have "16 \<le> 8 * (4 - 1 - k div 8) + k mod 8" by linarith
    then show ?thesis using that small by (subst bit_ByteSwap) auto
  qed
  then have "(ucast (HostToNetwork 4 port) :: u16) = 0"
    by (intro bit_word_eqI) (simp add: HostToNetwork_def EndianCast_word bit_unsigned_iff bit_ucast_iff)
  moreover have "NetworkToHost 2 (0 :: u16) = 0"
    by (intro bit_word_eqI) (simp add: NetworkToHost_def EndianCast_word bit_ByteSwap)
  moreover have "ucast (ucast port :: u16) = port"
    by (intro bit_word_eqI) (use small in \<open>auto simp: bit_simps not_less [symmetric]\<close>)
  ultimately show ?thesis
    by (simp add: IPv6_getPort_def IPv6_bytes_def IPv4_getPort_def new_IPv4_def)
qed

theorem ipv6_port_lost_witness:
  "IPv6_getPort (IPv6_bytes (replicate 16 0) 8080) = 0 \<and> IPv4_getPort (new_IPv4 0 (ucast (8080 :: u32))) = 8080"
  using ipv6_port_lost [of 8080 "replicate 16 0" 0] by simp

text \<open>
  The printed form of an IPv4 address is resolved as itself: \<open>Lookup\<close> of \<open>toString()\<close> passes the
  dotted address as the node and the decimal port as the service to the resolver.
\<close>

theorem lookup_of_printed:
  "split_host (IPv4_insert a) =
     (dotted (NetworkToHost 4 (sin_addr a)), Some (dec (unat (NetworkToHost 2 (sin_port a)))))"
proof -
  let ?d = "dotted (NetworkToHost 4 (sin_addr a))" and ?p = "dec (unat (NetworkToHost 2 (sin_port a)))"
  have ne: "?d \<noteq> []" by (simp add: dotted_def)
  then have "hd ?d \<in> set ?d" by simp
  then have "hd ?d \<noteq> 91" using dotted_chars [of "NetworkToHost 4 (sin_addr a)"] by auto
  moreover have "58 \<notin> set ?d" using dotted_chars [of "NetworkToHost 4 (sin_addr a)"] by auto
  moreover have "58 \<notin> set ?p" using dec_digits [of "unat (NetworkToHost 2 (sin_port a))"] by auto
  ultimately show ?thesis
    using split_host_port [OF ne, of ?p] by (simp add: IPv4_insert_def lit_def of_char_def)
qed

text \<open>
  \<open>CountBytes\<close> terminates and counts the set bits. \<open>GetInterfaceAddress\<close> applies it to the address
  of the interface instead of its netmask, so the prefix length it reports is the number of ones
  in the address.
\<close>

theorem interface_prefix_from_address:
  "CountBytes (v :: 'a::len word) = popcount (unat v) \<and>
   interface_loop AF_INET [(name, Some (SockIn (new_IPv4 addr port)))] =
     Inr [(name, IPv4Address (new_IPv4 addr port), popcount (unat (HostToNetwork 4 addr)))]"
  by (simp add: CountBytes_popcount) (simp add: new_IPv4_def CountBytes_popcount)

text \<open>
  \<open>IPAddress::Create\<close> gives the first resolved address with the port asked for, for both families.
\<close>

lemma swap16 [simp]: "NetworkToHost 2 (HostToNetwork 2 (x :: u16)) = x"
  by (intro bit_word_eqI)
    (simp add: NetworkToHost_def HostToNetwork_def EndianCast_word bit_ByteSwap)

lemma IPAddress_Create_port:
  assumes "gai (host, None) = Some (SockIn a # rest)"
  shows "\<exists>b. IPAddress_Create gai host port = Some (IPv4Address b) \<and> sin_addr b = sin_addr a \<and> IPv4_getPort b = ucast port"
  using assms by (simp add: IPAddress_Create_def Address_Create_def IPv4_setPort_def IPv4_getPort_def)

subsection \<open>The order of addresses\<close>

text \<open>The comparison is the lexicographic order of the bytes.\<close>

lemma Address_less_lexord: "Address_less l r \<longleftrightarrow> (l, r) \<in> lexord {(a, b). a < b}"
proof (induction l r rule: memcmp.induct, goal_cases)
  case (1 a as b bs)
  then show ?case by (auto simp: Address_less_def Let_def)
next
  case (2 r)
  then show ?case by (cases r) (auto simp: Address_less_def)
next
  case (3 l)
  then show ?case by (cases l) (auto simp: Address_less_def)
qed

lemma Address_eq_iff: "Address_eq l r \<longleftrightarrow> l = r"
proof (cases "length l = length r")
  case True
  then have "memcmp l r = 0 \<longleftrightarrow> l = r" by (induction l r rule: list_induct2) auto
  then show ?thesis using True by (simp add: Address_eq_def)
qed (auto simp: Address_eq_def)

text \<open>
  \<open>operator<\<close> on addresses is a strict total order that is compatible with \<open>operator==\<close> and \<open>operator!=\<close>, as ordered
  containers need it.
\<close>

theorem address_order:
  "\<not> Address_less l l \<and> (Address_less l m \<and> Address_less m r \<longrightarrow> Address_less l r) \<and>
   (Address_less l r \<or> Address_eq l r \<or> Address_less r l) \<and> (Address_ne l r \<longleftrightarrow> Address_less l r \<or> Address_less r l)"
proof -
  let ?R = "{(a, b). a < b} :: (u8 \<times> u8) set"
  have lin: "l = r \<or> (l, r) \<in> lexord ?R \<or> (r, l) \<in> lexord ?R" for l r
    using lexord_linear [of ?R l r] less_linear by blast
  have tr: "trans (lexord ?R)" by (rule lexord_transI) (auto simp: trans_def)
  have irr: "(l, l) \<notin> lexord ?R" for l by (rule lexord_irreflexive) simp
  show ?thesis
    unfolding Address_less_lexord Address_ne_def Address_eq_iff using lin irr tr unfolding trans_def by blast
qed

theorem address_order_witness: "Address_less [2, 0] [2, 0, 1] \<and> Address_less [2, 0, 1] [2, 1] \<and> Address_less [2, 0] [2, 1]"
  using address_order [of "[2, 0]" "[2, 0, 1]" "[2, 1]"] by (simp add: Address_less_def)

end
