(* ===== verification/Registry.thy ===== *)
theory Registry
  imports Rpc_Server Address
begin

text \<open>
  The service registry (\<open>include/rpc/rpc_service_registry.h\<close>, \<open>src/rpc/rpc_service_registry.cc\<close>).

  \<open>rg_service\<close> is the multimap \<open>service_\<close>: entries \<open>(i, name, address)\<close> where \<open>i\<close> identifies the
  entry, as an iterator does; \<open>equal_range\<close> gives the entries of a name in insertion order.
  \<open>rg_iters\<close> is \<open>iters_\<close>, the iterators registered per address. \<open>rg_subscribe\<close> is the unordered
  multimap of subscribers; sessions are numbers and \<open>alive\<close> says which weak pointers still lead to
  a connected session. A handler's sends are returned as a list of sessions and frames.
\<close>

section \<open>State\<close>

record registry =
  rg_service :: "(nat \<times> bytes \<times> bytes) list"
  rg_next :: nat
  rg_iters :: "bytes \<rightharpoonup> nat list"
  rg_subscribe :: "(bytes \<times> nat) list"

definition new_registry :: registry where
  "new_registry = \<lparr>rg_service = [], rg_next = 0, rg_iters = Map.empty, rg_subscribe = []\<rparr>"

definition services_of :: "registry \<Rightarrow> bytes \<Rightarrow> bytes list" where
  "services_of rg name = map (\<lambda>(i, n, a). a) (filter (\<lambda>(i, n, a). n = name) (rg_service rg))"

section \<open>Handlers\<close>

definition registry_publish :: "(nat \<Rightarrow> nat \<Rightarrow> u8) \<Rightarrow> (nat \<Rightarrow> bool) \<Rightarrow> registry \<Rightarrow> bytes \<Rightarrow>
    sval list \<Rightarrow> (nat \<times> protocol) list res" where
  "registry_publish fill alive rg key data =
     (if rg_subscribe rg = [] then Inr []
      else bindE (writeStringVint (new_Serializer fill) key) (\<lambda>s.
        bindE (put_tuple s data) (\<lambda>s.
        bindE (ser_reset s) (\<lambda>s.
        bindE (ser_toString s) (\<lambda>content.
        Inr (map (\<lambda>(k, c). (c, Create RPC_PUBLISH_REQUEST content 0))
               (filter (\<lambda>(k, c). k = key \<and> alive c) (rg_subscribe rg))))))))"

definition handleProvider :: "(nat \<Rightarrow> nat \<Rightarrow> u8) \<Rightarrow> protocol \<Rightarrow> sockaddr_in \<Rightarrow> sockaddr_in res" where
  "handleProvider fill request remote =
     bindE (Serializer_content fill (p_content request)) (\<lambda>s.
     bindE (ser_reset s) (\<lambda>s.
     bindE (readUint32 s) (\<lambda>(port, s).
     Inr (IPv4_setPort remote (ucast port)))))"

definition handleServiceRegister :: "(nat \<Rightarrow> nat \<Rightarrow> u8) \<Rightarrow> (nat \<Rightarrow> bool) \<Rightarrow> registry \<Rightarrow> protocol \<Rightarrow>
    sockaddr_in option \<Rightarrow> (protocol \<times> (nat \<times> protocol) list \<times> registry) res" where
  "handleServiceRegister fill alive rg request providerAddr =
     (case providerAddr of None \<Rightarrow> Inl NullDeref
      | Some pa \<Rightarrow>
        let service_name = p_content request;
            service_address = IPv4_insert pa;
            it = rg_next rg;
            rg = rg\<lparr>rg_service := rg_service rg @ [(it, service_name, service_address)],
                    rg_next := Suc it,
                    rg_iters := (rg_iters rg)(service_address \<mapsto>
                      (case rg_iters rg service_address of None \<Rightarrow> [] | Some its \<Rightarrow> its) @ [it])\<rparr>
        in bindE (put_Result (new_Serializer fill) ((Success (VString []))\<lparr>r_val := VString service_name\<rparr>)) (\<lambda>s.
           bindE (ser_reset s) (\<lambda>s.
           bindE (ser_toString s) (\<lambda>content.
           bindE (registry_publish fill alive rg (RPC_SERVICE_SUBSCRIBE @ service_name)
               [VBool True, VString service_address]) (\<lambda>sends.
           Inr (Create RPC_SERVICE_DISCOVER_RESPONSE content 0, sends, rg))))))"

text \<open>The results of \<open>handleServiceDiscover\<close>; \<open>val0\<close> is the default-constructed string.\<close>

definition discover_results :: "registry \<Rightarrow> bytes \<Rightarrow> rpc_result list" where
  "discover_results rg name =
     (case services_of rg name of
        [] \<Rightarrow> [\<lparr>r_code = state_code RPC_NO_METHOD, r_msg = lit ''discover service: '' @ name,
               r_val = VString []\<rparr>]
      | as \<Rightarrow> map (\<lambda>a. \<lparr>r_code = state_code RPC_SUCCESS, r_msg = [], r_val = VString a\<rparr>) as)"

definition handleServiceDiscover :: "(nat \<Rightarrow> nat \<Rightarrow> u8) \<Rightarrow> registry \<Rightarrow> protocol \<Rightarrow> protocol res" where
  "handleServiceDiscover fill rg request =
     (let service_name = p_content request; result = discover_results rg service_name in
      bindE (writeStringVint (new_Serializer fill) service_name) (\<lambda>s.
      bindE (writeUint32 s (of_nat (length result))) (\<lambda>s.
      bindE (put_each put_Result s result) (\<lambda>s.
      bindE (ser_reset s) (\<lambda>s.
      bindE (ser_toString s) (\<lambda>content.
      Inr (Create RPC_SERVICE_DISCOVER_RESPONSE content 0)))))))"

definition registry_handleSubscribe :: "(nat \<Rightarrow> nat \<Rightarrow> u8) \<Rightarrow> u8 \<Rightarrow> registry \<Rightarrow> protocol \<Rightarrow> nat \<Rightarrow>
    (protocol \<times> registry) res" where
  "registry_handleSubscribe fill val0 rg request client =
     bindE (Serializer_content fill (p_content request)) (\<lambda>s.
     bindE (readStringVint s) (\<lambda>(key, s).
     bindE (ser_reset s) (\<lambda>s.
     bindE (put_Result s (Success (VUint8 val0))) (\<lambda>s.
     bindE (ser_toString s) (\<lambda>content.
     Inr (Create RPC_SUBSCRIBE_RESPONSE content 0, rg\<lparr>rg_subscribe := rg_subscribe rg @ [(key, client)]\<rparr>))))))"

text \<open>
  An iterator of \<open>service_\<close> can be erased and dereferenced as long as its entry is there.
\<close>

definition service_erase :: "nat \<Rightarrow> registry \<Rightarrow> registry res" where
  "service_erase i rg =
     (if i \<in> fst ` set (rg_service rg) then Inr (rg\<lparr>rg_service := filter (\<lambda>e. fst e \<noteq> i) (rg_service rg)\<rparr>)
      else Inl InvalidIterator)"

definition service_first :: "nat \<Rightarrow> registry \<Rightarrow> bytes res" where
  "service_first i rg =
     (case find (\<lambda>e. fst e = i) (rg_service rg) of Some (_, name, _) \<Rightarrow> Inr name | None \<Rightarrow> Inl InvalidIterator)"

text \<open>The loop of \<open>handleUnregisterService\<close>, over a copy of the vector of iterators.\<close>

fun unregister_loop :: "(nat \<Rightarrow> nat \<Rightarrow> u8) \<Rightarrow> (nat \<Rightarrow> bool) \<Rightarrow> bytes \<Rightarrow> nat list \<Rightarrow> registry \<Rightarrow>
    ((nat \<times> protocol) list \<times> registry) res" where
  "unregister_loop fill alive address [] rg = Inr ([], rg)"
| "unregister_loop fill alive address (i # its) rg =
     bindE (service_erase i rg) (\<lambda>rg.
     bindE (service_first i rg) (\<lambda>name.
     bindE (registry_publish fill alive rg (RPC_SERVICE_SUBSCRIBE @ name) [VBool False, VString address]) (\<lambda>sends.
     bindE (unregister_loop fill alive address its rg) (\<lambda>(more, rg).
     Inr (sends @ more, rg)))))"

definition handleUnregisterService :: "(nat \<Rightarrow> nat \<Rightarrow> u8) \<Rightarrow> (nat \<Rightarrow> bool) \<Rightarrow> registry \<Rightarrow> sockaddr_in \<Rightarrow>
    ((nat \<times> protocol) list \<times> registry) res" where
  "handleUnregisterService fill alive rg providerAddr =
     (case rg_iters rg (IPv4_insert providerAddr) of
        None \<Rightarrow> Inr ([], rg)
      | Some its \<Rightarrow>
          bindE (unregister_loop fill alive (IPv4_insert providerAddr) its rg) (\<lambda>(sends, rg).
          Inr (sends, rg\<lparr>rg_iters := (rg_iters rg)(IPv4_insert providerAddr := None)\<rparr>)))"

section \<open>The message loop\<close>

text \<open>
  One round of \<open>handleClient\<close>: a request of \<open>None\<close> is a closed connection. The state is the registry, the provider
  address of the connection, the timer manager and the connection's heartbeat timer. The output is
  the response sent to the client and the messages published; \<open>Inl\<close> leaves the loop.
\<close>

type_synonym rg_state = "registry \<times> sockaddr_in option \<times> timer_manager \<times> nat option"
type_synonym rg_output = "(nat \<times> protocol) list + (protocol option \<times> (nat \<times> protocol) list)"

definition registry_round :: "(nat \<Rightarrow> nat \<Rightarrow> u8) \<Rightarrow> u8 \<Rightarrow> (nat \<Rightarrow> bool) \<Rightarrow> nat \<Rightarrow> u64 \<Rightarrow> u64 \<Rightarrow>
    sockaddr_in \<Rightarrow> nat \<Rightarrow> rg_state \<Rightarrow> protocol option \<Rightarrow> (rg_output \<times> rg_state) res" where
  "registry_round fill val0 alive a now aliveTime remote session st request =
     (case st of (rg, pa, tm, ht) \<Rightarrow>
      case request of
        None \<Rightarrow> (case pa of None \<Rightarrow> Inr (Inl [], rg, pa, tm, ht)
                 | Some addr \<Rightarrow> bindE (handleUnregisterService fill alive rg addr) (\<lambda>(sends, rg). Inr (Inl sends, rg, pa, tm, ht)))
      | Some req \<Rightarrow>
        bindE (update tm a now aliveTime ht session) (\<lambda>(ht, tm).
        (case getMsgType req of
           Some HEARTBEAT_PACKET \<Rightarrow> Inr (Inr (Some (handleHeartBeatPacket req), []), rg, pa, tm, ht)
         | Some RPC_PROVIDER \<Rightarrow>
             bindE (handleProvider fill req remote) (\<lambda>addr. Inr (Inr (None, []), rg, Some addr, tm, ht))
         | Some RPC_SERVICE_REGISTER \<Rightarrow>
             bindE (handleServiceRegister fill alive rg req pa)
               (\<lambda>(resp, sends, rg). Inr (Inr (Some resp, sends), rg, pa, tm, ht))
         | Some RPC_SERVICE_DISCOVER \<Rightarrow>
             bindE (handleServiceDiscover fill rg req) (\<lambda>resp. Inr (Inr (Some resp, []), rg, pa, tm, ht))
         | Some RPC_SUBSCRIBE_REQUEST \<Rightarrow>
             bindE (registry_handleSubscribe fill val0 rg req session)
               (\<lambda>(resp, rg). Inr (Inr (Some resp, []), rg, pa, tm, ht))
         | _ \<Rightarrow> Inr (Inr (None, []), rg, pa, tm, ht))))"

text \<open>The registry as the rounds of its connections leave it, in any order.\<close>

inductive rg_reach :: "registry \<Rightarrow> bool" where
  rg_init: "rg_reach new_registry"
| rg_round: "rg_reach rg \<Longrightarrow>
    registry_round fill val0 alive a now aliveTime remote session (rg, pa, tm, ht) request =
      Inr (out, rg', pa', tm', ht') \<Longrightarrow> rg_reach rg'"

section \<open>The pool's end of discovery\<close>

text \<open>
  \<open>RPCConnectionPool::discover\<close> from the point where the response is there
  (\<open>src/rpc/rpc_connection_pool.cc\<close>). \<open>code0\<close> is the uninitialised code of each local \<open>Result\<close>. The
  flag is false when a result with the code \<open>RPC_NO_METHOD\<close> was met.
\<close>

fun discover_loop :: "u16 \<Rightarrow> nat \<Rightarrow> bytearray \<Rightarrow> bytes list \<Rightarrow> (bool \<times> bytes list) res" where
  "discover_loop code0 0 s result = Inr (True, result)"
| "discover_loop code0 (Suc n) s result =
     bindE (get_Result TString s (new_Result code0 (VString []))) (\<lambda>(res, s).
       if r_code res = state_code RPC_NO_METHOD then Inr (False, result)
       else discover_loop code0 n s (result @ [case r_val res of VString a \<Rightarrow> a | _ \<Rightarrow> []]))"

definition discover_read :: "(nat \<Rightarrow> nat \<Rightarrow> u8) \<Rightarrow> u16 \<Rightarrow> protocol \<Rightarrow> (bool \<times> bytes list) res" where
  "discover_read fill code0 response =
     bindE (Serializer_content fill (p_content response)) (\<lambda>s.
     bindE (readStringVint s) (\<lambda>(service_name, s).
     bindE (readUint32 s) (\<lambda>(cnt, s).
     discover_loop code0 (unat cnt) s [])))"

section \<open>Lemmas\<close>

text \<open>The content of the message that announces a provider to the subscribers.\<close>

definition announcement :: "bytes \<Rightarrow> bytes \<Rightarrow> bytes" where
  "announcement name addr = vint.enc_string (RPC_SERVICE_SUBSCRIBE @ name) @
     tuple_enc [VBool True, VString addr]"

lemma registry_publish_eq:
  assumes "length (vint.enc_string key @ tuple_enc data) \<le> string_max_size"
  shows "registry_publish fill alive rg key data =
    Inr (map (\<lambda>(k, c). (c, Create RPC_PUBLISH_REQUEST (vint.enc_string key @ tuple_enc data) 0))
      (filter (\<lambda>(k, c). k = key \<and> alive c) (rg_subscribe rg)))"
proof -
  obtain s1 where s1: "writeStringVint (new_Serializer fill) key = Inr s1"
    "wrote (new_Serializer fill) (vint.enc_string key) s1"
    using ser_write_wrote [OF new_Serializer_inv, of _ "VString key"] by auto
  obtain s2 where s2: "put_tuple s1 data = Inr s2" "wrote s1 (tuple_enc data) s2"
    using put_tuple_wrote [OF wrote_inv [OF s1(2)]] by blast
  show ?thesis
    using s1(1) s2(1) ser_toString_content [OF wrote_trans [OF s1(2) s2(2)] assms]
    by (auto simp: registry_publish_def)
qed

lemma put_Results_wrote:
  "ba_inv s \<Longrightarrow> \<exists>s'. put_each put_Result s rs = Inr s' \<and> wrote s (concat (map result_enc rs)) s'"
proof (induction rs arbitrary: s)
  case Nil
  then show ?case by (simp add: wrote_refl)
next
  case (Cons r rs)
  obtain s1 where s1: "put_Result s r = Inr s1" "wrote s (result_enc r) s1"
    using put_Result_wrote [OF Cons.prems] by blast
  show ?case
    using s1 Cons.IH [OF wrote_inv [OF s1(2)]] wrote_trans [OF s1(2)] by auto
qed

definition discover_enc :: "registry \<Rightarrow> bytes \<Rightarrow> bytes" where
  "discover_enc rg name = vint.enc_string name @
     varint_bytes32 (of_nat (length (discover_results rg name))) @
     concat (map result_enc (discover_results rg name))"

lemma handleServiceDiscover_eq:
  assumes "length (discover_enc rg (p_content req)) \<le> string_max_size"
  shows "handleServiceDiscover fill rg req =
    Inr (Create RPC_SERVICE_DISCOVER_RESPONSE (discover_enc rg (p_content req)) 0)"
proof -
  let ?n = "of_nat (length (discover_results rg (p_content req))) :: u32"
  obtain s1 where s1: "writeStringVint (new_Serializer fill) (p_content req) = Inr s1"
    "wrote (new_Serializer fill) (vint.enc_string (p_content req)) s1"
    using ser_write_wrote [OF new_Serializer_inv, of _ "VString (p_content req)"] by auto
  obtain s2 where s2: "writeUint32 s1 ?n = Inr s2" "wrote s1 (varint_bytes32 ?n) s2"
    using uint32.put_law [OF wrote_inv [OF s1(2)] TrueI] by blast
  obtain s3 where s3: "put_each put_Result s2 (discover_results rg (p_content req)) = Inr s3"
    "wrote s2 (concat (map result_enc (discover_results rg (p_content req)))) s3"
    using put_Results_wrote [OF wrote_inv [OF s2(2)]] by blast
  have "wrote (new_Serializer fill) (discover_enc rg (p_content req)) s3"
    using wrote_trans [OF s1(2) wrote_trans [OF s2(2) s3(2)]] by (simp add: discover_enc_def)
  from ser_toString_content [OF this assms] show ?thesis
    using s1(1) s2(1) s3(1) by (auto simp: handleServiceDiscover_def Let_def)
qed

lemma discover_loop_successes:
  assumes "ba_inv s" "ahead s = concat (map (\<lambda>a. vint.enc_string [] @ vint.enc_string a) as) @ rest"
    "\<forall>a \<in> set as. length a \<le> string_max_size" "code0 \<noteq> state_code RPC_NO_METHOD"
  shows "discover_loop code0 (length as) s acc = Inr (True, acc @ as)"
  using assms(1-3)
proof (induction as arbitrary: s acc)
  case (Cons a as)
  obtain s' where "get_Result TString s (new_Result code0 (VString [])) =
      Inr (\<lparr>r_code = code0, r_msg = [], r_val = VString a\<rparr>, s')" "ba_inv s'"
    "ahead s' = concat (map (\<lambda>a. vint.enc_string [] @ vint.enc_string a) as) @ rest"
    using get_Result_success [OF Cons.prems(1), of "[]" "VString a" _ TString "new_Result code0 (VString [])"] Cons.prems(2,3)
    by (auto simp: sval_ok_def new_Result_def)
  then show ?case using Cons.IH [of s'] Cons.prems(3) assms(4) by simp
qed simp

lemma discover_read_eq:
  assumes "length name \<le> string_max_size"
  shows "\<exists>s. discover_read fill code0 (Create t (vint.enc_string name @ varint_bytes32 n @ rest) i) =
      discover_loop code0 (unat n) s [] \<and>
    ba_inv s \<and> ahead s = rest"
proof -
  obtain s s1 where s: "Serializer_content fill (vint.enc_string name @ varint_bytes32 n @ rest) = Inr s"
    "readStringVint s = Inr (name, s1)" "ba_inv s1" "ahead s1 = varint_bytes32 n @ rest"
    using readStringVint_content [OF assms] by metis
  obtain s2 where s2: "readUint32 s1 = Inr (n, s2)" "consumed s1 (varint_bytes32 n) s2"
    using readUint32_consumed [OF s(3,4)] by blast
  then show ?thesis
    using s consumed_ahead [OF s2(2) s(4)] consumed_inv [OF s2(2)]
    by (auto simp: discover_read_def Create_def)
qed

text \<open>Reading a string where the memory behind the data holds a zero.\<close>

lemma readStringVint_zero:
  assumes "ba_shape s" "ba_pos s < ba_cap s" "ba_mem s ! ba_pos s = 0"
  shows "\<exists>s'. readStringVint s = Inr ([], s')"
proof -
  have "take 1 (drop (ba_pos s) (ba_mem s)) = [0]"
    using assms length_ba_mem [OF assms(1)] by (simp add: take_Suc_conv_app_nth hd_drop_conv_nth take_Suc)
  then obtain s' where "ByteArray_read s 1 = Inr ([0], s')"
    using ByteArray_read_eq [OF assms(1), of 1] assms(2) by auto
  then have "readUint64 s = Inr (0, s')"
    by (simp add: readUint64_def readUint64_loop.simps readFuint8_def obj_word_def)
  then show ?thesis
    by (simp add: readStringVint_def read_resized_def ByteArray_read_def)
qed

section \<open>Invariant\<close>

text \<open>
  Entries are identified by distinct numbers below the next one, and the iterators kept for an
  address are exactly the entries with that address.
\<close>

definition iters_of :: "registry \<Rightarrow> bytes \<Rightarrow> nat list" where
  "iters_of rg addr = (case rg_iters rg addr of None \<Rightarrow> [] | Some its \<Rightarrow> its)"

definition rg_inv :: "registry \<Rightarrow> bool" where
  "rg_inv rg \<longleftrightarrow> distinct (map fst (rg_service rg)) \<and> (\<forall>e \<in> set (rg_service rg). fst e < rg_next rg) \<and>
     (\<forall>addr. set (iters_of rg addr) = {i. \<exists>n. (i, n, addr) \<in> set (rg_service rg)})"

lemma rg_inv_new: "rg_inv new_registry"
  by (simp add: rg_inv_def new_registry_def iters_of_def)

definition rg_add :: "registry \<Rightarrow> bytes \<Rightarrow> bytes \<Rightarrow> registry" where
  "rg_add rg name addr = rg\<lparr>rg_service := rg_service rg @ [(rg_next rg, name, addr)],
     rg_next := Suc (rg_next rg),
     rg_iters := (rg_iters rg)(addr \<mapsto>
       (case rg_iters rg addr of None \<Rightarrow> [] | Some its \<Rightarrow> its) @ [rg_next rg])\<rparr>"

lemma rg_inv_add:
  assumes "rg_inv rg"
  shows "rg_inv (rg_add rg name addr)"
proof -
  have ids: "fst e \<noteq> rg_next rg" if "e \<in> set (rg_service rg)" for e
    using that assms by (auto simp: rg_inv_def)
  have "iters_of (rg_add rg name addr) x = iters_of rg x @ (if x = addr then [rg_next rg] else [])" for x
    by (simp add: iters_of_def rg_add_def)
  then have "set (iters_of (rg_add rg name addr) x) =
      {i. \<exists>n. (i, n, x) \<in> set (rg_service (rg_add rg name addr))}" for x
    using assms by (auto simp: rg_inv_def rg_add_def)
  moreover have "distinct (map fst (rg_service (rg_add rg name addr)))"
    using assms ids by (auto simp: rg_inv_def rg_add_def)
  moreover have "\<forall>e \<in> set (rg_service (rg_add rg name addr)). fst e < rg_next (rg_add rg name addr)"
    using assms by (auto simp: rg_inv_def rg_add_def)
  ultimately show ?thesis unfolding rg_inv_def by blast
qed

lemma services_of_add: "services_of (rg_add rg name addr) n =
    services_of rg n @ (if n = name then [addr] else [])"
  by (simp add: services_of_def rg_add_def)

lemma handleServiceRegister_state:
  "handleServiceRegister fill alive rg req pa = Inr (resp, sends, rg') \<Longrightarrow>
   \<exists>addr. pa = Some addr \<and> rg' = rg_add rg (p_content req) (IPv4_insert addr)"
  by (auto simp: handleServiceRegister_def rg_add_def Let_def split: option.splits)

text \<open>The first round of the loop erases the entry and then looks for it.\<close>

lemma unregister_faults: "unregister_loop fill alive address (i # its) rg = Inl InvalidIterator"
proof -
  have "service_first i (rg\<lparr>rg_service := filter (\<lambda>e. fst e \<noteq> i) (rg_service rg)\<rparr>) = Inl InvalidIterator"
    by (simp add: service_first_def find_None_iff [THEN iffD2])
  then show ?thesis by (simp add: service_erase_def)
qed

lemma handleUnregisterService_eq:
  "handleUnregisterService fill alive rg pa = (case iters_of rg (IPv4_insert pa) of
      [] \<Rightarrow> Inr ([], rg\<lparr>rg_iters := (rg_iters rg)(IPv4_insert pa := None)\<rparr>) | i # its \<Rightarrow> Inl InvalidIterator)"
  by (auto simp: handleUnregisterService_def iters_of_def fun_upd_idem unregister_faults
      simp del: unregister_loop.simps(2) split: option.splits list.splits)

lemma handleUnregisterService_state:
  assumes "handleUnregisterService fill alive rg addr = Inr (sends, rg')" "rg_inv rg"
  shows "rg_inv rg'"
proof -
  have "iters_of (rg\<lparr>rg_iters := (rg_iters rg)(y := None)\<rparr>) = iters_of rg" if "iters_of rg y = []" for y
    using that by (auto simp: iters_of_def split: option.splits)
  then show ?thesis
    using assms by (auto simp: handleUnregisterService_eq rg_inv_def split: list.splits) fastforce
qed

lemma rg_inv_round:
  assumes "rg_inv rg" "registry_round fill val0 alive a now aliveTime remote session (rg, pa, tm, ht) request =
    Inr (out, rg', pa', tm', ht')"
  shows "rg_inv rg'"
proof (cases request)
  case None
  then show ?thesis using assms handleUnregisterService_state
    by (auto simp: registry_round_def split: option.splits)
next
  case (Some req)
  have sub: "rg_inv (rg\<lparr>rg_subscribe := x\<rparr>)" for x
    using assms(1) by (simp add: rg_inv_def iters_of_def)
  obtain ht1 tm1 where "update tm a now aliveTime ht session = Inr (ht1, tm1)"
    using assms(2) Some by (auto simp: registry_round_def)
  then show ?thesis using assms Some sub
    by (auto simp: registry_round_def registry_handleSubscribe_def rg_inv_add
        dest!: handleServiceRegister_state split: option.splits MsgType.splits)
qed

lemma rg_reach_inv: "rg_reach rg \<Longrightarrow> rg_inv rg"
  by (induction rule: rg_reach.induct) (auto simp: rg_inv_new intro: rg_inv_round)

lemma handleServiceRegister_eq:
  assumes "length (vint.enc_string (lit ''success'') @ vint.enc_string (p_content req)) \<le> string_max_size"
    "length (announcement (p_content req) (IPv4_insert pa)) \<le> string_max_size"
  shows "handleServiceRegister fill alive rg req (Some pa) =
      Inr (Create RPC_SERVICE_DISCOVER_RESPONSE
             (vint.enc_string (lit ''success'') @ vint.enc_string (p_content req)) 0,
        map (\<lambda>(k, c). (c, Create RPC_PUBLISH_REQUEST (announcement (p_content req) (IPv4_insert pa)) 0))
        (filter (\<lambda>(k, c). k = RPC_SERVICE_SUBSCRIBE @ p_content req \<and> alive c) (rg_subscribe rg)),
        rg_add rg (p_content req) (IPv4_insert pa))"
proof -
  let ?res = "(Success (VString []))\<lparr>r_val := VString (p_content req)\<rparr>"
  have enc: "result_enc ?res = vint.enc_string (lit ''success'') @ vint.enc_string (p_content req)"
    by (simp add: result_enc_def Success_def)
  obtain s1 where s1: "put_Result (new_Serializer fill) ?res = Inr s1"
    "wrote (new_Serializer fill) (result_enc ?res) s1"
    using put_Result_wrote [OF new_Serializer_inv] by blast
  obtain s2 where s2: "ser_reset s1 = Inr s2" "ser_toString s2 = Inr (result_enc ?res)"
    using ser_toString_content [OF s1(2)] assms(1) enc by auto
  show ?thesis
    using s1(1) s2 registry_publish_eq [OF assms(2) [unfolded announcement_def]]
    by (simp add: handleServiceRegister_def Let_def rg_add_def announcement_def enc)
qed

lemma registerService_result_eq:
  assumes "length name \<le> string_max_size"
  shows "registerService_result fill code0
      (Some (Create t (vint.enc_string (lit ''success'') @ vint.enc_string name) i)) =
    Inr (Some \<lparr>r_code = code0, r_msg = lit ''success'', r_val = VString name\<rparr>)"
proof -
  let ?c = "vint.enc_string (lit ''success'') @ vint.enc_string name"
  obtain s where s: "Serializer_content fill ?c = Inr s" "ba_inv s"
    "ahead s = vint.enc_string (lit ''success'') @ sval_enc (VString name) @ []"
    using Serializer_content_view [of fill ?c] by auto
  have "length (lit ''success'') \<le> string_max_size" "sval_ok TString (VString name)"
    using assms by (simp_all add: sval_ok_def string_max_size_def)
  from get_Result_success [OF s(2,3) this, of "new_Result code0 (VString [])"] show ?thesis
    using s(1) by (auto simp: registerService_result_def new_Result_def)
qed

lemma register_lengths:
  assumes "length name < 1000"
  shows "length (vint.enc_string (lit ''success'') @ vint.enc_string name) \<le> string_max_size"
    "length (announcement name (IPv4_insert pa)) \<le> string_max_size"
proof -
  have "length (vint.enc_string x) \<le> length x + 10" for x
    by (simp add: vint.enc_string_def length_varint64)
  note this [of "lit ''success''"] this [of name] this [of "RPC_SERVICE_SUBSCRIBE @ name"] this [of "IPv4_insert pa"]
  then show "length (vint.enc_string (lit ''success'') @ vint.enc_string name) \<le> string_max_size"
    "length (announcement name (IPv4_insert pa)) \<le> string_max_size"
    using assms length_IPv4_insert [of pa]
    by (simp_all add: announcement_def tuple_enc_def string_max_size_def RPC_SERVICE_SUBSCRIBE_def)
qed

section \<open>Properties\<close>

text \<open>
  The addresses that the pool reads out of the registry's answer, as long as the uninitialised code
  of its local results does not happen to be \<open>RPC_NO_METHOD\<close>.
\<close>

lemma discover_services:
  assumes "services_of rg (p_content req) \<noteq> []" "code0 \<noteq> state_code RPC_NO_METHOD"
    "length (discover_enc rg (p_content req)) \<le> string_max_size"
    "length (services_of rg (p_content req)) < 2 ^ 32"
  shows "\<exists>resp. handleServiceDiscover fill rg req = Inr resp \<and>
    discover_read fill' code0 resp = Inr (True, services_of rg (p_content req))"
proof -
  let ?name = "p_content req" let ?as = "services_of rg (p_content req)"
  let ?body = "concat (map (\<lambda>a. vint.enc_string [] @ vint.enc_string a) ?as)"
  have res: "discover_results rg ?name = map (\<lambda>a. \<lparr>r_code = 0, r_msg = [], r_val = VString a\<rparr>) ?as"
    using assms(1) by (auto simp: discover_results_def split: list.splits)
  then have enc: "discover_enc rg ?name = vint.enc_string ?name @ varint_bytes32 (of_nat (length ?as)) @ ?body"
    by (simp add: discover_enc_def result_enc_def comp_def)
  then have name: "length ?name \<le> string_max_size" and body: "length ?body \<le> string_max_size"
    using assms(3) by (simp_all add: vint.enc_string_def)
  have "length a \<le> string_max_size" if "a \<in> set ?as" for a
  proof -
    have "length a \<le> length (vint.enc_string [] @ vint.enc_string a)" by (simp add: vint.enc_string_def)
    also have "\<dots> \<le> length ?body"
      using that by (auto simp: length_concat intro!: member_le_sum_list)
    finally show ?thesis using body by simp
  qed
  moreover obtain s where "discover_read fill' code0 (Create RPC_SERVICE_DISCOVER_RESPONSE
      (discover_enc rg ?name) 0) = discover_loop code0 (unat (of_nat (length ?as) :: u32)) s []" "ba_inv s" "ahead s = ?body @ []"
    using discover_read_eq [OF name] enc by (metis append_Nil2)
  moreover have "unat (of_nat (length ?as) :: u32) = length ?as"
    using assms(4) by (simp add: unat_of_nat)
  ultimately have "discover_read fill' code0 (Create RPC_SERVICE_DISCOVER_RESPONSE
      (discover_enc rg ?name) 0) = Inr (True, ?as)"
    using discover_loop_successes [of s ?as "[]" code0 "[]"] assms(2) by simp
  then show ?thesis using handleServiceDiscover_eq [OF assms(3)] by blast
qed

definition sample_registry :: registry where
  "sample_registry = new_registry\<lparr>rg_service := [(0, [97], [49]), (1, [98], [50]), (2, [97], [51])],
     rg_next := 3, rg_iters := [[49] \<mapsto> [0], [50] \<mapsto> [1], [51] \<mapsto> [2]]\<rparr>"

lemma services_of_sample: "services_of sample_registry [97] = [[49], [51]]"
  by (simp add: services_of_def sample_registry_def)

lemma length_discover_sample: "length (discover_enc sample_registry [97]) \<le> string_max_size"
  using length_varint64 [of 1] length_varint64 [of 0] length_varint32 [of 2]
  by (simp add: discover_enc_def discover_results_def services_of_sample result_enc_def
      vint.enc_string_def string_max_size_def)

text \<open>
  C17. Registration: a provider's request is answered with the service name, the provider's address
  is listed last under that name and no other listing changes, and every live subscriber of the
  service is sent the announcement \<open>(true, address)\<close>. The answer carries the type of a discovery
  response.
\<close>

theorem register_announces:
  assumes "length (vint.enc_string (lit ''success'') @ vint.enc_string (p_content req)) \<le> string_max_size"
    "length (announcement (p_content req) (IPv4_insert pa)) \<le> string_max_size"
  shows "\<exists>resp rg'. handleServiceRegister fill alive rg req (Some pa) =
      Inr (resp, map (\<lambda>(k, c). (c, Create RPC_PUBLISH_REQUEST (announcement (p_content req) (IPv4_insert pa)) 0))
        (filter (\<lambda>(k, c). k = RPC_SERVICE_SUBSCRIBE @ p_content req \<and> alive c) (rg_subscribe rg)), rg') \<and>
    getMsgType resp = Some RPC_SERVICE_DISCOVER_RESPONSE \<and>
    registerService_result fill' code0 (Some resp) =
      Inr (Some \<lparr>r_code = code0, r_msg = lit ''success'', r_val = VString (p_content req)\<rparr>) \<and>
    (\<forall>n. services_of rg' n = services_of rg n @ (if n = p_content req then [IPv4_insert pa] else []))"
proof -
  have "length (p_content req) \<le> string_max_size" using assms(1) by (simp add: vint.enc_string_def)
  then show ?thesis
    using handleServiceRegister_eq [OF assms, of fill alive rg] registerService_result_eq services_of_add
    by (intro exI conjI) (assumption | simp)+
qed

theorem register_announces_witness:
  "\<exists>resp rg'. handleServiceRegister (\<lambda>_ _. 7) (\<lambda>c. c \<noteq> 2)
      (sample_registry\<lparr>rg_subscribe := [(RPC_SERVICE_SUBSCRIBE @ [97], 1), (RPC_SERVICE_SUBSCRIBE @ [97], 2)]\<rparr>)
      (registerService_request [97]) (Some (new_IPv4 0x7F000001 8080)) =
      Inr (resp, [(1, Create RPC_PUBLISH_REQUEST (announcement [97] (IPv4_insert (new_IPv4 0x7F000001 8080))) 0)], rg') \<and>
    services_of rg' [97] = [[49], [51], IPv4_insert (new_IPv4 0x7F000001 8080)]"
proof -
  let ?pa = "new_IPv4 0x7F000001 8080"
  show ?thesis
    using register_lengths(1) [of "[97]"] register_lengths(2) [of "[97]" ?pa] register_announces [of "registerService_request [97]" ?pa "\<lambda>_ _. 7" "\<lambda>c. c \<noteq> 2"
        "sample_registry\<lparr>rg_subscribe := [(RPC_SERVICE_SUBSCRIBE @ [97], 1), (RPC_SERVICE_SUBSCRIBE @ [97], 2)]\<rparr>"]
      services_of_sample
    by (fastforce simp: registerService_request_def services_of_def)
qed

text \<open>
  C33. In every state the registry can reach, the iterators kept for an address are exactly the
  entries registered with that address. So when a provider that has registered something
  disconnects, \<open>handleUnregisterService\<close> erases the first of its entries and then reads the name
  through the erased iterator: the round ends in undefined behaviour. A provider that registered
  nothing leaves the registry unchanged.
\<close>

theorem provider_disconnect:
  assumes "rg_reach rg"
  shows "(\<forall>addr. set (iters_of rg addr) = {i. \<exists>n. (i, n, addr) \<in> set (rg_service rg)}) \<and>
    ((\<exists>i n. (i, n, IPv4_insert pa) \<in> set (rg_service rg)) \<longrightarrow>
       registry_round fill val0 alive a now aliveTime remote session (rg, Some pa, tm, ht) None =
         Inl InvalidIterator) \<and>
    ((\<forall>i n. (i, n, IPv4_insert pa) \<notin> set (rg_service rg)) \<longrightarrow>
       (\<exists>rg'. registry_round fill val0 alive a now aliveTime remote session (rg, Some pa, tm, ht) None =
         Inr (Inl [], rg', Some pa, tm, ht) \<and> rg_service rg' = rg_service rg))"
proof -
  have its: "set (iters_of rg addr) = {i. \<exists>n. (i, n, addr) \<in> set (rg_service rg)}" for addr
    using rg_reach_inv [OF assms] by (auto simp: rg_inv_def)
  note un = handleUnregisterService_eq [of fill alive rg pa]
  show ?thesis
  proof (cases "iters_of rg (IPv4_insert pa)")
    case Nil
    then show ?thesis using its [of "IPv4_insert pa"] its un by (auto simp: registry_round_def)
  next
    case (Cons i ids)
    then have "\<exists>n. (i, n, IPv4_insert pa) \<in> set (rg_service rg)" using its [of "IPv4_insert pa"] by auto
    then show ?thesis using Cons its un by (auto simp: registry_round_def)
  qed
qed

theorem provider_disconnect_witness:
  "registry_round (\<lambda>_ _. 7) 0 (\<lambda>_. True) 4 10 40000 (new_IPv4 0x7F000001 5000) 1
     (rg_add new_registry [97] (IPv4_insert (new_IPv4 0x7F000001 8080)),
      Some (new_IPv4 0x7F000001 8080), new_TimerManager, None) None = Inl InvalidIterator"
proof -
  let ?pa = "new_IPv4 0x7F000001 8080" and ?req = "registerService_request [97]"
  let ?rg = "rg_add new_registry [97] (IPv4_insert ?pa)"
  have "\<exists>out. registry_round (\<lambda>_ _. 7) 0 (\<lambda>_. True) 4 10 40000 ?pa 1 (new_registry, Some ?pa, new_TimerManager, None)
      (Some ?req) = Inr (out, ?rg, Some ?pa, fst (addTimer new_TimerManager 4 10 40000 (Some (Plain 1)) False), Some 4)"
    using handleServiceRegister_eq [of ?req ?pa "\<lambda>_ _. 7" "\<lambda>_. True" new_registry]
      register_lengths(1) [of "[97]"] register_lengths(2) [of "[97]" ?pa]
    by (simp add: registry_round_def update_def registerService_request_def)
  then have "rg_reach ?rg" using rg_round [OF rg_init] by blast
  from provider_disconnect [OF this, of ?pa "\<lambda>_ _. 7" 0 "\<lambda>_. True" 4 10 40000 "new_IPv4 0x7F000001 5000" 1
      new_TimerManager None]
  show ?thesis by (auto simp: rg_add_def)
qed

text \<open>
  A server announces itself to the registry under its own port: the message that
  \<open>connectRegistry\<close> sends makes \<open>handleProvider\<close> return the remote address with that port.
\<close>

theorem provider_port:
  "\<exists>msg addr. connectRegistry_message fill port = Inr msg \<and> getMsgType msg = Some RPC_PROVIDER \<and>
     handleProvider fill' msg remote = Inr addr \<and> sin_addr addr = sin_addr remote \<and>
     IPv4_getPort addr = ucast (ucast port :: u16)"
proof -
  let ?msg = "Create RPC_PROVIDER (varint_bytes32 port) 0"
  obtain s where s: "writeUint32 (new_Serializer fill) port = Inr s"
    "wrote (new_Serializer fill) (varint_bytes32 port) s"
    using uint32.put_law [OF new_Serializer_inv TrueI] by blast
  have "length (varint_bytes32 port) \<le> string_max_size"
    using length_varint32 [of port] by (simp add: string_max_size_def)
  from ser_toString_content [OF s(2) this]
  have msg: "connectRegistry_message fill port = Inr ?msg"
    using s(1) by (auto simp: connectRegistry_message_def)
  obtain t where t: "Serializer_content fill' (varint_bytes32 port) = Inr t" "ba_inv t"
    "ba_content t = varint_bytes32 port"
    using Serializer_content_view [of fill' "varint_bytes32 port"] by (auto simp: ba_content_def)
  obtain u where u: "ser_reset t = Inr u" "ba_inv u" "ahead u = varint_bytes32 port @ []"
    using ser_reset_view [OF t(2)] t(3) by auto
  have "handleProvider fill' ?msg remote = Inr (IPv4_setPort remote (ucast port))"
    using t(1) u(1) readUint32_consumed [OF u(2,3)] by (auto simp: handleProvider_def)
  then show ?thesis
    using msg by (auto simp: IPv4_setPort_def IPv4_getPort_def)
qed

text \<open>
  Discovery of an unknown service does not report that it is unknown. The registry marks the
  single result with \<open>RPC_NO_METHOD\<close>, but the code is not on the wire and neither is the value, so
  the pool reads the value from behind the data: with zeroed memory there, it returns one
  address, the empty string, instead of no address.
\<close>

theorem discover_unknown_service:
  assumes "services_of rg (p_content req) = []" "code0 \<noteq> state_code RPC_NO_METHOD"
    "length (discover_enc rg (p_content req)) < default_base"
  shows "\<exists>resp. handleServiceDiscover fill rg req = Inr resp \<and>
    discover_read (\<lambda>_ _. 0) code0 resp = Inr (True, [[]])"
proof -
  let ?name = "p_content req" and ?c = "discover_enc rg (p_content req)"
  let ?msg = "lit ''discover service: '' @ p_content req"
  have enc: "?c = vint.enc_string ?name @ varint_bytes32 1 @ vint.enc_string ?msg"
    using assms(1) by (simp add: discover_enc_def discover_results_def result_enc_def)
  have len: "length ?c \<le> string_max_size" using assms(3) by (simp add: string_max_size_def default_base_def)
  then have names: "length ?name \<le> string_max_size" "length ?msg \<le> string_max_size"
    unfolding enc by (simp_all add: vint.enc_string_def)
  obtain s where s: "Serializer_content (\<lambda>_ _. 0) ?c = Inr s" "ba_inv s" "behind s = []" "ahead s = ?c"
    "default_base \<le> ba_cap s" "ba_mem s ! length ?c = 0"
    using Serializer_content_mem [OF assms(3), of "\<lambda>_ _. 0"] assms(3) by auto
  obtain s1 where s1: "readStringVint s = Inr (?name, s1)" "consumed s (vint.enc_string ?name) s1"
    using strVint.get_law [OF s(2), of ?name "varint_bytes32 1 @ vint.enc_string ?msg"] s(4) enc names(1)
    by (auto simp: vint_fits)
  have a1: "ahead s1 = varint_bytes32 1 @ vint.enc_string ?msg"
    using consumed_ahead [OF s1(2)] s(4) enc by simp
  obtain s2 where s2: "readUint32 s1 = Inr (1, s2)" "consumed s1 (varint_bytes32 1) s2"
    using readUint32_consumed [OF consumed_inv [OF s1(2)] a1] by blast
  have a2: "ahead s2 = vint.enc_string ?msg @ []" using consumed_ahead [OF s2(2) a1] by simp
  obtain s3 where s3: "readStringVint s2 = Inr (?msg, s3)" "consumed s2 (vint.enc_string ?msg) s3"
    using strVint.get_law [OF consumed_inv [OF s2(2)] _ a2] names(2) by (auto simp: vint_fits)
  have all: "consumed s ?c s3"
    using consumed_trans [OF s1(2) consumed_trans [OF s2(2) s3(2)]] enc by simp
  have "ba_pos s3 = length ?c"
    using length_behind [OF consumed_inv [OF all]] all s(3) by (simp add: consumed_def)
  moreover have "ba_mem s3 = ba_mem s" using all by (simp add: consumed_def)
  moreover have "ba_cap s3 = ba_cap s"
    using calculation(2) length_ba_mem s(2) consumed_inv [OF all] by (metis ba_inv_shape)
  ultimately obtain s4 where "readStringVint s3 = Inr ([], s4)"
    using readStringVint_zero [of s3] s(5,6) assms(3) ba_inv_shape [OF consumed_inv [OF all]] by auto
  then have "discover_read (\<lambda>_ _. 0) code0 (Create RPC_SERVICE_DISCOVER_RESPONSE ?c 0) = Inr (True, [[]])"
    using s(1) s1(1) s2(1) s3(1) assms(2)
    by (simp add: discover_read_def get_Result_def new_Result_def retag_def)
  then show ?thesis using handleServiceDiscover_eq [OF len] by blast
qed

theorem discover_unknown_service_witness:
  "\<exists>resp. handleServiceDiscover (\<lambda>_ _. 7) sample_registry (Create RPC_SERVICE_DISCOVER [120] 0) = Inr resp \<and>
    discover_read (\<lambda>_ _. 0) 0 resp = Inr (True, [[]])"
proof -
  have none: "services_of sample_registry [120] = []" by (simp add: services_of_def sample_registry_def)
  have "length (vint.enc_string x) \<le> length x + 10" for x
    by (simp add: vint.enc_string_def length_varint64)
  note this [of "[120]"] this [of "lit ''discover service: '' @ [120]"]
  then have "length (discover_enc sample_registry [120]) < default_base"
    using length_varint32 [of 1]
    by (simp add: discover_enc_def discover_results_def none result_enc_def default_base_def)
  then show ?thesis
    using discover_unknown_service [of sample_registry "Create RPC_SERVICE_DISCOVER [120] 0" 0] none by simp
qed

end
