(* ===== verification/Route_Strategy.thy ===== *)
theory Route_Strategy
  imports Address
begin

text \<open>
  Load balancing (\<open>include/rpc/route_strategy.h\<close>). The value of \<open>rand()\<close>, the hash of the host
  name and the interfaces that \<open>ioctl(SIOCGIFCONF)\<close> reports are arguments. A polling strategy
  carries its index, which the constructor leaves uninitialised (\<open>index0\<close>).
\<close>

section \<open>Operations\<close>

datatype Strategy = RANDOM | POLLING | HASHIP

datatype route = RandomRoute | PollingRoute int | HashIPRoute

definition queryStrategy :: "int \<Rightarrow> Strategy \<Rightarrow> route" where
  "queryStrategy index0 s = (case s of RANDOM \<Rightarrow> RandomRoute | POLLING \<Rightarrow> PollingRoute index0 | HASHIP \<Rightarrow> HashIPRoute)"

text \<open>\<open>list[n % list.size()]\<close>.\<close>

definition select_mod :: "nat \<Rightarrow> 'a list \<Rightarrow> 'a res" where
  "select_mod n list = (if list = [] then Inl DivByZero else Inr (list ! (n mod length list)))"

definition select_random :: "nat \<Rightarrow> 'a list \<Rightarrow> 'a res" where
  "select_random rand list = select_mod rand list"

definition select_polling :: "int \<Rightarrow> 'a list \<Rightarrow> ('a \<times> int) res" where
  "select_polling index list =
     (let index = (if int (length list) \<le> index then 0 else index) in
      if 0 \<le> index \<and> index < int (length list) then Inr (list ! nat index, index + 1)
      else Inl OutOfBounds)"

record ifreq =
  ifr_flags :: u16
  ifr_name :: bytes
  ifr_addr :: u32

text \<open>The loop of \<open>GetLocalHost\<close>: \<open>i\<close> counts down, the pointer moves only over IPv4 entries.\<close>

fun local_host_loop :: "nat \<Rightarrow> ifreq list \<Rightarrow> bytes" where
  "local_host_loop (Suc i) (r # rs) =
     (if ifr_flags r = AF_INET
      then if ifr_name r = lit ''eth0'' then dotted (NetworkToHost 4 (ifr_addr r)) else local_host_loop i rs
      else local_host_loop i (r # rs))"
| "local_host_loop _ _ = []"

definition GetLocalHost :: "ifreq list option \<Rightarrow> bytes" where
  "GetLocalHost ifs = (case ifs of None \<Rightarrow> [] | Some rs \<Rightarrow> local_host_loop (length rs) rs)"

definition select_haship :: "bytes \<Rightarrow> (bytes \<Rightarrow> nat) \<Rightarrow> nat \<Rightarrow> 'a list \<Rightarrow> 'a res" where
  "select_haship host hash rand list =
     (if host = [] then select_random rand list else select_mod (hash host) list)"

definition route_select :: "bytes \<Rightarrow> (bytes \<Rightarrow> nat) \<Rightarrow> nat \<Rightarrow> route \<Rightarrow> 'a list \<Rightarrow> ('a \<times> route) res" where
  "route_select host hash rand r list =
     (case r of
        RandomRoute \<Rightarrow> bindE (select_random rand list) (\<lambda>x. Inr (x, r))
      | PollingRoute i \<Rightarrow> bindE (select_polling i list) (\<lambda>(x, i). Inr (x, PollingRoute i))
      | HashIPRoute \<Rightarrow> bindE (select_haship host hash rand list) (\<lambda>x. Inr (x, r)))"

text \<open>A number of consecutive selections from the same list.\<close>

fun selections :: "nat \<Rightarrow> int \<Rightarrow> 'a list \<Rightarrow> 'a list res" where
  "selections 0 i list = Inr []"
| "selections (Suc n) i list =
     bindE (select_polling i list) (\<lambda>(x, i). bindE (selections n i list) (\<lambda>xs. Inr (x # xs)))"

section \<open>Properties\<close>

lemma select_mod_in: "list \<noteq> [] \<Longrightarrow> \<exists>x \<in> set list. select_mod n list = Inr x"
  by (simp add: select_mod_def)

lemma selections_eq:
  assumes "list \<noteq> []"
  shows "i \<le> length list \<Longrightarrow>
    selections n (int i) list = Inr (map (\<lambda>k. list ! ((i + k) mod length list)) [0..<n])"
proof (induction n arbitrary: i)
  case (Suc n)
  let ?j = "i mod length list"
  have "?j < length list" "?j = (if length list \<le> i then 0 else i)"
    using assms Suc.prems by (auto simp: le_antisym)
  then have sel: "select_polling (int i) list = Inr (list ! ?j, int (Suc ?j))"
    by (auto simp: select_polling_def Let_def)
  have idx: "list ! ((Suc ?j + k) mod length list) = list ! ((i + Suc k) mod length list)" for k
    by (metis add_Suc add_Suc_right mod_add_left_eq)
  show ?case
    using sel Suc.IH [of "Suc ?j"] \<open>?j < length list\<close> idx
    by (simp add: upt_conv_Cons map_Suc_upt [symmetric] del: upt_Suc of_nat_Suc)
qed simp

text \<open>
  Polling is fair: from any index the strategy can have reached, as many consecutive
  selections as there are entries return every entry exactly once, in circular order.
\<close>

theorem polling_round_robin:
  assumes "0 \<le> i" "i \<le> int (length list)" "list \<noteq> []"
  shows "selections (length list) i list = Inr (rotate (nat i) list)"
proof -
  have "map (\<lambda>k. list ! ((nat i + k) mod length list)) [0..<length list] = rotate (nat i) list"
    by (rule nth_equalityI) (simp_all add: nth_rotate)
  then show ?thesis using selections_eq [OF assms(3), of "nat i" "length list"] assms(1,2) by simp
qed

theorem polling_round_robin_witness: "selections 3 1 [10, 20, 30 :: nat] = Inr [20, 30, 10]"
  using polling_round_robin [of 1 "[10, 20, 30 :: nat]"] by (simp add: numeral_3_eq_3)

text \<open>
  Selection fails only on an empty list or a bad index: random and hash selection return an
  entry of any non-empty list and divide by zero on an empty one; polling goes out of bounds on an
  empty list, and also on any list if the index that the constructor left uninitialised is negative.
\<close>

theorem select_faults:
  "(case select_random rand list of Inr x \<Rightarrow> x \<in> set list | Inl f \<Rightarrow> list = [] \<and> f = DivByZero) \<and>
   (case select_haship host hash rand list of Inr x \<Rightarrow> x \<in> set list | Inl f \<Rightarrow> list = [] \<and> f = DivByZero) \<and>
   (case route_select host hash rand (queryStrategy index0 POLLING) list of
      Inr (x, r) \<Rightarrow> x \<in> set list \<and> 0 \<le> (case r of PollingRoute i \<Rightarrow> i | _ \<Rightarrow> -1)
    | Inl f \<Rightarrow> f = OutOfBounds \<and> (list = [] \<or> index0 < 0))"
  by (auto simp: select_random_def select_haship_def select_mod_def route_select_def queryStrategy_def
      select_polling_def Let_def)

end
