(* ===== verification/Rpc_Pool.thy ===== *)
theory Rpc_Pool
  imports Rpc_Client Registry Route_Strategy "HOL-Library.List_Lexorder"
begin

text \<open>
  The connection pool (\<open>include/rpc/rpc_connection_pool.h\<close>, \<open>src/rpc/rpc_connection_pool.cc\<close>): its
  connection to the registry, discovery, the subscription that keeps the address lists up to date,
  and calls through cached clients.

  Clients and channels are numbers; \<open>method_map_\<close> and \<open>service_map_\<close> are lists in the order of their
  keys. Each definition is a section that runs without another fiber of the pool in between. What
  comes from outside, such as the response taken out of a channel or the result of a client's call, is an
  argument.
\<close>

section \<open>State\<close>

text \<open>
  The callbacks in \<open>subscribe_handle_\<close>: the lambda that \<open>discover\<close> registers for a service, or one of
  the user.
\<close>

datatype pool_callback = ServiceChanged bytes | UserCallback nat

datatype pool_effect = PoolSubmitSend | PoolSubmitRecv | CloseClient nat | RegistryDelEvent
  | RegistryClose | RunUser nat bytearray

record pool =
  po_timeout_ms :: u64
  po_registry :: bool
  po_connected :: bool
  po_method_map :: "(bytes \<times> nat) list"
  po_recv :: "nat \<Rightarrow> protocol option channel"
  po_subscribe_handle :: "bytes \<rightharpoonup> pool_callback"
  po_service_map :: "(bytes \<times> nat) list"
  po_address_map :: "bytes \<rightharpoonup> bytes list"
  po_is_closed :: bool
  po_auto_heartbeat :: bool
  po_is_heartclose :: bool
  po_channel :: "protocol option channel"
  po_heartbeat_timer :: "nat option"
  po_timers :: timer_manager

definition pool_channel_capacity :: nat where "pool_channel_capacity = 1"

text \<open>\<open>closed0\<close> and \<open>heart0\<close> are the flags that the constructor does not initialise.\<close>

definition new_RPCConnectionPool :: "bool \<Rightarrow> bool \<Rightarrow> timer_manager \<Rightarrow> u64 \<Rightarrow> pool" where
  "new_RPCConnectionPool closed0 heart0 tm timeout_ms =
     \<lparr>po_timeout_ms = timeout_ms, po_registry = False, po_connected = False, po_method_map = [],
      po_recv = (\<lambda>_. new_Channel 1), po_subscribe_handle = Map.empty, po_service_map = [],
      po_address_map = Map.empty, po_is_closed = closed0, po_auto_heartbeat = True,
      po_is_heartclose = heart0, po_channel = new_Channel pool_channel_capacity,
      po_heartbeat_timer = None, po_timers = tm\<rparr>"

section \<open>The connection to the registry\<close>

text \<open>\<open>connected\<close> tells whether a socket could be created and connected.\<close>

definition pool_connect :: "bool \<Rightarrow> nat \<Rightarrow> u64 \<Rightarrow> nat \<Rightarrow> pool \<Rightarrow> bool \<times> pool_effect list \<times> pool" where
  "pool_connect connected a now cb p =
     (if \<not> connected then (False, [], p)
      else let p = p\<lparr>po_registry := True, po_connected := True, po_channel := new_Channel pool_channel_capacity,
                     po_is_closed := False, po_is_heartclose := False\<rparr>;
               p = (if po_auto_heartbeat p
                    then p\<lparr>po_timers := fst (addTimer (po_timers p) a now 30000 (Some (Plain cb)) True),
                           po_heartbeat_timer := Some a\<rparr>
                    else p)
           in (True, [PoolSubmitSend, PoolSubmitRecv], p))"

definition pool_close :: "pool \<Rightarrow> (pool_effect list \<times> pool) res" where
  "pool_close p =
     (if po_is_closed p then Inr ([], p)
      else let p = p\<lparr>po_is_closed := True, po_is_heartclose := True,
                     po_channel := snd (ch_close (po_channel p))\<rparr> in
        bindE (case po_heartbeat_timer p of None \<Rightarrow> Inr p
               | Some t \<Rightarrow> bindE (cancel (po_timers p) t)
                   (\<lambda>(_, tm). Inr (p\<lparr>po_timers := tm, po_heartbeat_timer := None\<rparr>)))
          (\<lambda>p. if \<not> po_registry p then Inl NullDeref
               else Inr (map (\<lambda>(n, c). CloseClient c) (po_service_map p) @ [RegistryDelEvent, RegistryClose],
                         p\<lparr>po_connected := False\<rparr>)))"

definition pool_send :: "nat \<Rightarrow> protocol \<Rightarrow> pool \<Rightarrow> pool" where
  "pool_send f request p = p\<lparr>po_channel := snd (push f (Some request) (po_channel p))\<rparr>"

text \<open>The callback of the heartbeat timer.\<close>

definition pool_heartbeat :: "nat \<Rightarrow> pool \<Rightarrow> (pool_effect list \<times> pool) res" where
  "pool_heartbeat f p =
     bindE (if po_is_heartclose p then pool_close p else Inr ([], p)) (\<lambda>(eff, p).
     Inr (eff, pool_send f HeartBeat p))"

text \<open>A round of \<open>handleSend\<close> on what was taken out of the channel; \<open>None\<close> ends the loop.\<close>

definition pool_handleSend_round :: "pool \<Rightarrow> protocol option \<Rightarrow> protocol list option" where
  "pool_handleSend_round p request =
     (if ch_isClosed (po_channel p) then None else Some (case request of None \<Rightarrow> [] | Some r \<Rightarrow> [r]))"

section \<open>Subscriptions\<close>

definition pool_subscribe :: "(nat \<Rightarrow> nat \<Rightarrow> u8) \<Rightarrow> nat \<Rightarrow> bytes \<Rightarrow> pool_callback \<Rightarrow> pool \<Rightarrow> pool res" where
  "pool_subscribe fill f key fun p =
     (if po_subscribe_handle p key \<noteq> None then Inl AssertFail
      else let p = p\<lparr>po_subscribe_handle := (po_subscribe_handle p)(key \<mapsto> fun)\<rparr> in
        bindE (writeStringVint (new_Serializer fill) key) (\<lambda>s.
        bindE (ser_reset s) (\<lambda>s.
        bindE (ser_toString s) (\<lambda>content.
        Inr (pool_send f (Create RPC_SUBSCRIBE_REQUEST content 0) p)))))"

text \<open>The lambda of \<open>discover\<close>. A missing list is created by \<open>address_map_[name]\<close>.\<close>

definition address_list :: "pool \<Rightarrow> bytes \<Rightarrow> bytes list" where
  "address_list p name = (case po_address_map p name of None \<Rightarrow> [] | Some as \<Rightarrow> as)"

definition service_changed :: "bytes \<Rightarrow> bytearray \<Rightarrow> pool \<Rightarrow> pool res" where
  "service_changed name s p =
     bindE (ser_read s TBool (VBool True)) (\<lambda>(service_launch, s).
     bindE (ser_read s TString (VString [])) (\<lambda>(addr, s).
     let addr = (case addr of VString a \<Rightarrow> a | _ \<Rightarrow> []) in
     Inr (if service_launch \<noteq> VBool True
          then p\<lparr>po_address_map := (po_address_map p)(name \<mapsto> address_list p name @ [addr])\<rparr>
          else case po_address_map p name of
            None \<Rightarrow> p
          | Some addrs \<Rightarrow> p\<lparr>po_address_map := (po_address_map p)(name \<mapsto> remove1 addr addrs)\<rparr>)))"

definition pool_handlePublish :: "(nat \<Rightarrow> nat \<Rightarrow> u8) \<Rightarrow> protocol \<Rightarrow> pool \<Rightarrow> (pool_effect list \<times> pool) res" where
  "pool_handlePublish fill response p =
     bindE (Serializer_content fill (p_content response)) (\<lambda>s.
     bindE (readStringVint s) (\<lambda>(key, s).
     (case po_subscribe_handle p key of
        None \<Rightarrow> Inr ([], p)
      | Some (ServiceChanged name) \<Rightarrow> bindE (service_changed name s p) (\<lambda>p. Inr ([], p))
      | Some (UserCallback cb) \<Rightarrow> Inr ([RunUser cb s], p))))"

section \<open>Incoming messages\<close>

definition handleServiceDiscoverResponse :: "(nat \<Rightarrow> nat \<Rightarrow> u8) \<Rightarrow> nat \<Rightarrow> protocol \<Rightarrow> pool \<Rightarrow> pool res" where
  "handleServiceDiscoverResponse fill f response p =
     bindE (Serializer_content fill (p_content response)) (\<lambda>s.
     bindE (readStringVint s) (\<lambda>(service_name, s).
     Inr (case map_of (po_method_map p) service_name of
            None \<Rightarrow> p
          | Some ch \<Rightarrow> p\<lparr>po_recv := (po_recv p)(ch := snd (push f (Some response) (po_recv p ch)))\<rparr>)))"

text \<open>A round of \<open>handleRecv\<close>; the flag is false when the loop is left.\<close>

definition pool_recv_round :: "(nat \<Rightarrow> nat \<Rightarrow> u8) \<Rightarrow> nat \<Rightarrow> pool \<Rightarrow> protocol option \<Rightarrow>
    (bool \<times> pool_effect list \<times> pool) res" where
  "pool_recv_round fill f p request =
     (case request of
        None \<Rightarrow> bindE (pool_close p) (\<lambda>(eff, p). Inr (False, eff, p))
      | Some req \<Rightarrow>
        let p = p\<lparr>po_is_heartclose := False\<rparr> in
        (case getMsgType req of
           Some HEARTBEAT_PACKET \<Rightarrow> Inr (True, [], p\<lparr>po_is_heartclose := False\<rparr>)
         | Some RPC_PUBLISH_REQUEST \<Rightarrow>
             bindE (pool_handlePublish fill req p) (\<lambda>(eff, p).
             Inr (True, eff, pool_send f (Create RPC_PUBLISH_RESPONSE [] 0) p))
         | Some RPC_SERVICE_DISCOVER_RESPONSE \<Rightarrow>
             bindE (handleServiceDiscoverResponse fill f req p) (\<lambda>p. Inr (True, [], p))
         | _ \<Rightarrow> Inr (True, [], p)))"

section \<open>Discovery\<close>

text \<open>
  \<open>discover\<close> up to the wait on the new channel \<open>ch\<close>: the iterator into \<open>method_map_\<close> and the request; \<open>None\<close>
  when there is no connection.
\<close>

definition discover_begin :: "nat \<Rightarrow> nat \<Rightarrow> bytes \<Rightarrow> pool \<Rightarrow> ((bytes \<times> nat) \<times> protocol \<times> pool) option" where
  "discover_begin f ch name p =
     (if \<not> po_registry p \<or> \<not> po_connected p then None
      else let m = map_emplace (po_method_map p) (name, ch);
               request = Create RPC_SERVICE_DISCOVER name 0 in
        Some ((name, the (map_of m name)), request,
          pool_send f request (p\<lparr>po_recv := (po_recv p)(ch := new_Channel 1), po_method_map := m\<rparr>)))"

text \<open>The rest, on the response that came out of the channel.\<close>

definition discover_end :: "(nat \<Rightarrow> nat \<Rightarrow> u8) \<Rightarrow> u16 \<Rightarrow> nat \<Rightarrow> bytes \<Rightarrow> bytes \<times> nat \<Rightarrow> protocol option \<Rightarrow>
    pool \<Rightarrow> (bytes list \<times> pool) res" where
  "discover_end fill code0 f name it response p =
     (if map_of (po_method_map p) (fst it) \<noteq> Some (snd it) then Inl InvalidIterator
      else let p = p\<lparr>po_method_map := filter (\<lambda>e. e \<noteq> it) (po_method_map p)\<rparr> in
        (case response of
           None \<Rightarrow> Inr ([], p)
         | Some resp \<Rightarrow>
             bindE (discover_read fill code0 resp) (\<lambda>(flag, result).
             if \<not> flag then Inr ([], p)
             else let key = RPC_SERVICE_SUBSCRIBE @ name in
               if po_subscribe_handle p key = None
               then bindE (pool_subscribe fill f key (ServiceChanged name) p) (\<lambda>p. Inr (result, p))
               else Inr (result, p))))"

definition discover :: "(nat \<Rightarrow> nat \<Rightarrow> u8) \<Rightarrow> u16 \<Rightarrow> nat \<Rightarrow> nat \<Rightarrow> (pool \<Rightarrow> protocol option \<times> pool) \<Rightarrow> bytes \<Rightarrow>
    pool \<Rightarrow> (bytes list \<times> pool) res" where
  "discover fill code0 f ch wait name p =
     (case discover_begin f ch name p of
        None \<Rightarrow> Inr ([], p)
      | Some (it, request, p) \<Rightarrow>
          (case wait p of (response, p) \<Rightarrow> discover_end fill code0 f name it response p))"

section \<open>Calls\<close>

text \<open>
  What \<open>call\<close> gets from elsewhere: the result of the call through a client, the printed remote
  address of a client, \<open>rand()\<close>, \<open>Address::LookupAny\<close>, and the client that could be connected to an
  address. The result starts with an uninitialised code and value.
\<close>

record pool_env =
  pe_call :: "nat \<Rightarrow> bytes \<Rightarrow> rpc_result"
  pe_remote :: "nat \<Rightarrow> bytes"
  pe_rand :: nat
  pe_lookup :: "bytes \<Rightarrow> nat option"
  pe_connect :: "nat \<Rightarrow> nat option"

text \<open>The part of \<open>call\<close> that removes a client whose connection is closed.\<close>

definition drop_client :: "pool_env \<Rightarrow> bytes \<Rightarrow> nat \<Rightarrow> pool \<Rightarrow> pool" where
  "drop_client env name client p =
     p\<lparr>po_address_map := (po_address_map p)(name \<mapsto> remove1 (pe_remote env client) (address_list p name)),
       po_service_map := filter (\<lambda>e. fst e \<noteq> name) (po_service_map p)\<rparr>"

text \<open>The part that connects to one of the addresses.\<close>

definition call_connect :: "pool_env \<Rightarrow> bytes \<Rightarrow> rpc_result \<Rightarrow> pool \<Rightarrow> (rpc_result \<times> pool) res" where
  "call_connect env name result p =
     bindE (route_select [] (\<lambda>_. 0) (pe_rand env) (queryStrategy 0 RANDOM) (address_list p name)) (\<lambda>(ip, _).
     Inr (case pe_lookup env ip of
            None \<Rightarrow> (result\<lparr>r_code := state_code RPC_FAIL, r_msg := lit ''call fail''\<rparr>, p)
          | Some address \<Rightarrow>
             (case pe_connect env address of
                None \<Rightarrow> (result\<lparr>r_code := state_code RPC_FAIL, r_msg := lit ''call fail''\<rparr>, p)
              | Some client \<Rightarrow>
                  (pe_call env client name,
                   p\<lparr>po_service_map := map_emplace (po_service_map p) (name, client)\<rparr>))))"

definition call_new :: "pool_env \<Rightarrow> (bytes \<Rightarrow> pool \<Rightarrow> (bytes list \<times> pool) res) \<Rightarrow> bytes \<Rightarrow> rpc_result \<Rightarrow>
    pool \<Rightarrow> (rpc_result \<times> pool) res" where
  "call_new env disc name result p =
     (let p = p\<lparr>po_address_map := (po_address_map p)(name \<mapsto> address_list p name)\<rparr> in
      if address_list p name \<noteq> [] then call_connect env name result p
      else if \<not> po_registry p \<or> \<not> po_connected p
      then Inr (result\<lparr>r_code := state_code RPC_CLOSED, r_msg := lit ''registry closed''\<rparr>, p)
      else bindE (disc name p) (\<lambda>(addrs, p).
        let p = p\<lparr>po_address_map := (po_address_map p)(name \<mapsto> addrs)\<rparr> in
        if addrs = [] then Inr (result\<lparr>r_code := state_code RPC_NO_METHOD, r_msg := lit ''no method '' @ name\<rparr>, p)
        else call_connect env name result p))"

definition pool_call :: "pool_env \<Rightarrow> (bytes \<Rightarrow> pool \<Rightarrow> (bytes list \<times> pool) res) \<Rightarrow> bytes \<Rightarrow> rpc_result \<Rightarrow>
    pool \<Rightarrow> (rpc_result \<times> pool) res" where
  "pool_call env disc name result p =
     (case map_of (po_service_map p) name of
        Some client \<Rightarrow>
          let result = pe_call env client name in
          if r_code result \<noteq> state_code RPC_CLOSED then Inr (result, p)
          else call_new env disc name result (drop_client env name client p)
      | None \<Rightarrow> call_new env disc name result p)"

section \<open>Executions\<close>

text \<open>The sections of the pool in any order, from a successful connect on.\<close>

inductive pool_reach :: "pool \<Rightarrow> bool" where
  pool_start: "pool_connect True a now cb (new_RPCConnectionPool closed0 heart0 tm ms) = (ok, eff, p) \<Longrightarrow>
    pool_reach p"
| pool_recv: "pool_reach p \<Longrightarrow> pool_recv_round fill f p request = Inr (go, eff, p') \<Longrightarrow> pool_reach p'"
| pool_beat: "pool_reach p \<Longrightarrow> pool_heartbeat f p = Inr (eff, p') \<Longrightarrow> pool_reach p'"
| pool_shut: "pool_reach p \<Longrightarrow> pool_close p = Inr (eff, p') \<Longrightarrow> pool_reach p'"
| pool_sub: "pool_reach p \<Longrightarrow> pool_subscribe fill f key cb p = Inr p' \<Longrightarrow> pool_reach p'"
| pool_disc: "pool_reach p \<Longrightarrow> discover_begin f ch name p = Some (it, request, p') \<Longrightarrow> pool_reach p'"
| pool_found: "pool_reach p \<Longrightarrow> discover_end fill code0 f name it response p = Inr (addrs, p') \<Longrightarrow>
    pool_reach (p'\<lparr>po_address_map := (po_address_map p')(name \<mapsto> addrs)\<rparr>)"
| pool_drop: "pool_reach p \<Longrightarrow> pool_reach (drop_client env name client p)"
| pool_client: "pool_reach p \<Longrightarrow> call_connect env name result p = Inr (result', p') \<Longrightarrow> pool_reach p'"

section \<open>Lemmas\<close>

lemma map_emplace_new:
  assumes "k \<notin> fst ` set m"
  shows "map_of (map_emplace m (k, v)) k = Some v" "filter (\<lambda>e. e \<noteq> (k, v)) (map_emplace m (k, v)) = m"
  using assms by (induction m) (auto simp: filter_id_conv rev_image_eqI)

lemma pool_send_fields [simp]:
  "po_subscribe_handle (pool_send f r p) = po_subscribe_handle p" "po_address_map (pool_send f r p) = po_address_map p"
  "po_method_map (pool_send f r p) = po_method_map p" "po_recv (pool_send f r p) = po_recv p"
  "po_is_closed (pool_send f r p) = po_is_closed p" "po_is_heartclose (pool_send f r p) = po_is_heartclose p"
  "po_registry (pool_send f r p) = po_registry p" "po_connected (pool_send f r p) = po_connected p"
  by (simp_all add: pool_send_def)

lemma pool_subscribe_eq:
  assumes "po_subscribe_handle p key = None" "length (vint.enc_string key) \<le> string_max_size"
  shows "pool_subscribe fill f key cb p = Inr (pool_send f (Create RPC_SUBSCRIBE_REQUEST (vint.enc_string key) 0)
    (p\<lparr>po_subscribe_handle := (po_subscribe_handle p)(key \<mapsto> cb)\<rparr>))"
proof -
  obtain s where s: "writeStringVint (new_Serializer fill) key = Inr s"
    "wrote (new_Serializer fill) (vint.enc_string key) s"
    using ser_write_wrote [OF new_Serializer_inv, of _ "VString key"] by auto
  then show ?thesis
    using assms ser_toString_content [OF s(2)] by (auto simp: pool_subscribe_def Let_def)
qed

lemma service_changed_online:
  assumes "ba_inv s" "ahead s = tuple_enc [VBool True, VString addr]" "length addr \<le> string_max_size"
  shows "service_changed name s p = Inr (case po_address_map p name of None \<Rightarrow> p
    | Some addrs \<Rightarrow> p\<lparr>po_address_map := (po_address_map p)(name \<mapsto> remove1 addr addrs)\<rparr>)"
proof -
  have "ahead s = sval_enc (VBool True) @ sval_enc (VString addr) @ []"
    using assms(2) by (simp add: tuple_enc_def)
  moreover have "sval_ok TBool (VBool True)" by (simp add: sval_ok_def)
  ultimately obtain s1 where s1: "ser_read s TBool (VBool True) = Inr (VBool True, s1)"
    "ba_inv s1" "ahead s1 = sval_enc (VString addr) @ []"
    using ser_read_consumed [OF assms(1)] consumed_ahead consumed_inv by blast
  have "sval_ok TString (VString addr)" using assms(3) by (simp add: sval_ok_def)
  then obtain s2 where "ser_read s1 TString (VString []) = Inr (VString addr, s2)"
    using ser_read_consumed [OF s1(2) _ s1(3)] by blast
  then show ?thesis using s1(1) by (simp add: service_changed_def Let_def split: option.split)
qed

lemma service_changed_flags:
  "service_changed name s p = Inr p' \<Longrightarrow>
   po_is_heartclose p' = po_is_heartclose p \<and> po_is_closed p' = po_is_closed p"
  by (auto simp: service_changed_def Let_def split: if_splits option.splits)

lemma pool_handlePublish_flags:
  assumes "pool_handlePublish fill r p = Inr (eff, p')"
  shows "po_is_heartclose p' = po_is_heartclose p \<and> po_is_closed p' = po_is_closed p"
proof -
  obtain s key s1 where "Serializer_content fill (p_content r) = Inr s" "readStringVint s = Inr (key, s1)"
    using assms by (auto simp: pool_handlePublish_def)
  then show ?thesis using assms
    by (auto simp: pool_handlePublish_def service_changed_flags
        split: option.splits pool_callback.splits)
qed

lemma pool_subscribe_flags:
  "pool_subscribe fill f key cb p = Inr p' \<Longrightarrow>
   po_is_heartclose p' = po_is_heartclose p \<and> po_is_closed p' = po_is_closed p"
  by (auto simp: pool_subscribe_def Let_def split: if_splits)

lemma pool_close_flags: "pool_close p = Inr (eff, p') \<Longrightarrow> po_is_closed p'"
  by (auto simp: pool_close_def Let_def split: if_splits option.splits)

lemma pool_recv_round_flags:
  assumes "pool_recv_round fill f p request = Inr (go, eff, p')"
  shows "po_is_heartclose p' \<longrightarrow> po_is_closed p'"
proof (cases request)
  case None
  then show ?thesis using assms pool_close_flags by (auto simp: pool_recv_round_def)
next
  case (Some req)
  then show ?thesis
    using assms pool_handlePublish_flags [of fill req "p\<lparr>po_is_heartclose := False\<rparr>"]
    by (auto simp: pool_recv_round_def handleServiceDiscoverResponse_def Let_def
        split: option.splits MsgType.splits)
qed

lemma discover_end_flags:
  assumes "discover_end fill code0 f name it response p = Inr (addrs, p')"
  shows "po_is_heartclose p' = po_is_heartclose p \<and> po_is_closed p' = po_is_closed p"
  using assms by (auto simp: discover_end_def Let_def dest!: pool_subscribe_flags split: if_splits option.splits)

lemma pool_reach_flags: "pool_reach p \<Longrightarrow> po_is_heartclose p \<longrightarrow> po_is_closed p"
proof (induction rule: pool_reach.induct)
  case (pool_beat p f eff p')
  then show ?case using pool_close_flags by (auto simp: pool_heartbeat_def split: if_splits)
next
  case (pool_recv p fill f request go eff p')
  then show ?case using pool_recv_round_flags by blast
next
  case (pool_found p fill code0 f name it response addrs p')
  then show ?case using discover_end_flags by simp
qed (auto simp: pool_connect_def discover_begin_def drop_client_def call_connect_def Let_def
    dest: pool_subscribe_flags pool_close_flags split: if_splits option.splits)

section \<open>A sample pool\<close>

text \<open>
  A pool connected to its registry that knows two providers of the service "a"; the client
  number 1 is connected to the first of them and dead.
\<close>

definition sample_pool :: pool where
  "sample_pool = (snd (snd (pool_connect True 4 10 1 (new_RPCConnectionPool False False new_TimerManager 0))))
     \<lparr>po_address_map := [[97] \<mapsto> [[49], [51]]],
      po_subscribe_handle := [RPC_SERVICE_SUBSCRIBE @ [97] \<mapsto> ServiceChanged [97]]\<rparr>"

definition sample_env :: pool_env where
  "sample_env = \<lparr>pe_call = (\<lambda>c name. if c = 1 then new_Result (state_code RPC_CLOSED) (VInt32 0)
       else Success (VInt32 (of_nat c))),
     pe_remote = (\<lambda>_. [49]), pe_rand = 7, pe_lookup = (\<lambda>a. Some (length a)), pe_connect = (\<lambda>i. Some (i + 2))\<rparr>"

section \<open>Properties\<close>

text \<open>A discovery, from the request to the addresses.\<close>

lemma discovery:
  assumes "po_registry p" "po_connected p" "name \<notin> fst ` set (po_method_map p)"
    "po_subscribe_handle p (RPC_SERVICE_SUBSCRIBE @ name) = None"
    "services_of rg name \<noteq> []" "code0 \<noteq> state_code RPC_NO_METHOD"
    "length (discover_enc rg name) \<le> string_max_size" "length (services_of rg name) < 2 ^ 32"
    "length (vint.enc_string (RPC_SERVICE_SUBSCRIBE @ name)) \<le> string_max_size"
  shows "\<exists>it req p1 resp p2 p3. discover_begin f ch name p = Some (it, req, p1) \<and>
    handleServiceDiscover fill' rg req = Inr resp \<and>
    pool_recv_round fill g p1 (Some resp) = Inr (True, [], p2) \<and>
    fst (pop f (po_recv p2 ch)) = Popped (Some resp) \<and>
    discover_end fill code0 f name it (Some resp) p2 = Inr (services_of rg name, p3) \<and>
    po_method_map p3 = po_method_map p \<and>
    po_subscribe_handle p3 (RPC_SERVICE_SUBSCRIBE @ name) = Some (ServiceChanged name)"
proof -
  let ?req = "Create RPC_SERVICE_DISCOVER name 0" and ?m = "map_emplace (po_method_map p) (name, ch)"
  let ?resp = "Create RPC_SERVICE_DISCOVER_RESPONSE (discover_enc rg name) 0"
  let ?pa = "pool_send f ?req (p\<lparr>po_recv := (po_recv p)(ch := new_Channel 1), po_method_map := ?m\<rparr>)"
  let ?pb = "?pa\<lparr>po_is_heartclose := False\<rparr>"
  let ?pc = "?pb\<lparr>po_recv := (po_recv ?pb)(ch := snd (push g (Some ?resp) (new_Channel 1)))\<rparr>"
  let ?pd = "?pc\<lparr>po_method_map := po_method_map p\<rparr>"
  note m = map_emplace_new [OF assms(3), of ch]
  have start: "discover_begin f ch name p = Some ((name, ch), ?req, ?pa)"
    using assms(1,2) m(1) by (simp add: discover_begin_def Let_def)
  have resp: "handleServiceDiscover fill' rg ?req = Inr ?resp"
    using handleServiceDiscover_eq [of rg ?req] assms(7) by simp
  have read: "discover_read fill code0 ?resp = Inr (True, services_of rg name)"
    using discover_services [of rg ?req code0 fill' fill] assms(5-8) resp by simp
  have name: "length name \<le> string_max_size"
    using assms(7) by (simp add: discover_enc_def vint.enc_string_def)
  have "handleServiceDiscoverResponse fill g ?resp ?pb = Inr ?pc"
    using readStringVint_content [OF name, of fill] m(1)
    by (force simp: handleServiceDiscoverResponse_def discover_enc_def)
  then have recv: "pool_recv_round fill g ?pa (Some ?resp) = Inr (True, [], ?pc)"
    by (simp add: pool_recv_round_def Let_def)
  have pop: "fst (pop f (po_recv ?pc ch)) = Popped (Some ?resp)"
    by (simp add: box.fresh_delivers [unfolded One_nat_def])
  have "discover_end fill code0 f name (name, ch) (Some ?resp) ?pc =
      Inr (services_of rg name, pool_send f (Create RPC_SUBSCRIBE_REQUEST
        (vint.enc_string (RPC_SERVICE_SUBSCRIBE @ name)) 0)
        (?pd\<lparr>po_subscribe_handle := (po_subscribe_handle ?pd)(RPC_SERVICE_SUBSCRIBE @ name \<mapsto> ServiceChanged name)\<rparr>))"
    using m read assms(4,9) pool_subscribe_eq [of ?pd "RPC_SERVICE_SUBSCRIBE @ name" fill f "ServiceChanged name"]
    by (simp add: discover_end_def Let_def)
  with start resp recv pop show ?thesis by fastforce
qed

text \<open>
  C4. Discovery works across the pool and the registry: the request of \<open>discover\<close>, answered by the
  registry and handed to the waiting channel by the pool's receive loop, yields the addresses
  registered under the name, in the order of registration; the table of waiting discoveries is as
  before, and the pool is subscribed to changes of the service.
\<close>

theorem pool_discovers:
  assumes "po_registry p" "po_connected p" "name \<notin> fst ` set (po_method_map p)"
    "po_subscribe_handle p (RPC_SERVICE_SUBSCRIBE @ name) = None"
    "services_of rg name \<noteq> []" "code0 \<noteq> state_code RPC_NO_METHOD"
    "length (discover_enc rg name) \<le> string_max_size" "length (services_of rg name) < 2 ^ 32"
    "length (vint.enc_string (RPC_SERVICE_SUBSCRIBE @ name)) \<le> string_max_size"
  shows "\<exists>it req p1 resp p2 p3. discover_begin f ch name p = Some (it, req, p1) \<and>
    handleServiceDiscover fill' rg req = Inr resp \<and>
    pool_recv_round fill g p1 (Some resp) = Inr (True, [], p2) \<and>
    fst (pop f (po_recv p2 ch)) = Popped (Some resp) \<and>
    discover_end fill code0 f name it (Some resp) p2 = Inr (services_of rg name, p3) \<and>
    po_method_map p3 = po_method_map p \<and>
    po_subscribe_handle p3 (RPC_SERVICE_SUBSCRIBE @ name) = Some (ServiceChanged name)"
  using discovery [OF assms] .

theorem pool_discovers_witness:
  "\<exists>it req p1 resp p2 p3. discover_begin 1 5 [97] (sample_pool\<lparr>po_subscribe_handle := Map.empty\<rparr>) = Some (it, req, p1) \<and>
    handleServiceDiscover (\<lambda>_ _. 7) sample_registry req = Inr resp \<and>
    pool_recv_round (\<lambda>_ _. 9) 2 p1 (Some resp) = Inr (True, [], p2) \<and>
    discover_end (\<lambda>_ _. 9) 0 1 [97] it (Some resp) p2 = Inr ([[49], [51]], p3)"
proof -
  let ?p = "sample_pool\<lparr>po_subscribe_handle := Map.empty\<rparr>"
  have p: "po_registry ?p" "po_connected ?p" "[97] \<notin> fst ` set (po_method_map ?p)"
    "po_subscribe_handle ?p (RPC_SERVICE_SUBSCRIBE @ [97]) = None"
    by (simp_all add: sample_pool_def pool_connect_def new_RPCConnectionPool_def Let_def)
  have len: "length (vint.enc_string (RPC_SERVICE_SUBSCRIBE @ [97])) \<le> string_max_size"
    using length_varint64 [of 26] by (simp add: vint.enc_string_def RPC_SERVICE_SUBSCRIBE_def string_max_size_def)
  have rg: "services_of sample_registry [97] \<noteq> []" "length (services_of sample_registry [97]) < 2 ^ 32"
    "(0 :: u16) \<noteq> state_code RPC_NO_METHOD"
    by (simp_all add: services_of_sample)
  show ?thesis
    using pool_discovers [OF p rg(1) rg(3) length_discover_sample rg(2) len, of 1 5 "\<lambda>_ _. 7" "\<lambda>_ _. 9" 2]
    unfolding services_of_sample by blast
qed

text \<open>
  C40. The pool takes the news of a provider the wrong way round: when the registry announces a new
  provider to a subscribed pool, the pool removes the provider's address from the list of the
  service instead of adding it. A provider that is new stays unknown, and one that registers again
  disappears.
\<close>

theorem announced_provider_removed:
  assumes "po_subscribe_handle p (RPC_SERVICE_SUBSCRIBE @ p_content req) = Some (ServiceChanged (p_content req))"
    "po_address_map p (p_content req) = Some addrs" "length (p_content req) < 1000"
    "rg_subscribe rg = [(RPC_SERVICE_SUBSCRIBE @ p_content req, session)]" "alive session"
  shows "\<exists>resp msg rg' p'. handleServiceRegister fill' alive rg req (Some pa) = Inr (resp, [(session, msg)], rg') \<and>
    services_of rg' (p_content req) = services_of rg (p_content req) @ [IPv4_insert pa] \<and>
    pool_recv_round fill f p (Some msg) = Inr (True, [], p') \<and>
    po_address_map p' = (po_address_map p)(p_content req \<mapsto> remove1 (IPv4_insert pa) addrs)"
proof -
  let ?name = "p_content req" and ?addr = "IPv4_insert pa" and ?p = "p\<lparr>po_is_heartclose := False\<rparr>"
  let ?msg = "Create RPC_PUBLISH_REQUEST (announcement ?name ?addr) 0"
  note len = register_lengths [OF assms(3)]
  have reg: "\<exists>resp. handleServiceRegister fill' alive rg req (Some pa) =
      Inr (resp, [(session, ?msg)], rg_add rg ?name ?addr)"
    using handleServiceRegister_eq [OF len] assms(4,5) by simp
  have "length (RPC_SERVICE_SUBSCRIBE @ ?name) \<le> string_max_size" and addr: "length ?addr \<le> string_max_size"
    using assms(3) length_IPv4_insert [of pa] by (simp_all add: string_max_size_def RPC_SERVICE_SUBSCRIBE_def)
  then obtain s s1 where s: "Serializer_content fill (announcement ?name ?addr) = Inr s"
    "readStringVint s = Inr (RPC_SERVICE_SUBSCRIBE @ ?name, s1)" "ba_inv s1"
    "ahead s1 = tuple_enc [VBool True, VString ?addr]"
    unfolding announcement_def using readStringVint_content by metis
  have "pool_handlePublish fill ?msg ?p = Inr ([], ?p\<lparr>po_address_map :=
      (po_address_map p)(?name \<mapsto> remove1 ?addr addrs)\<rparr>)"
    using s assms(1,2) service_changed_online [OF s(3,4) addr] by (simp add: pool_handlePublish_def)
  then have "\<exists>p'. pool_recv_round fill f p (Some ?msg) = Inr (True, [], p') \<and>
      po_address_map p' = (po_address_map p)(?name \<mapsto> remove1 ?addr addrs)"
    by (simp add: pool_recv_round_def Let_def)
  then show ?thesis using reg services_of_add [of rg ?name ?addr ?name] by auto
qed

theorem announced_provider_removed_witness:
  "\<exists>resp msg rg' p'. handleServiceRegister (\<lambda>_ _. 7) (\<lambda>_. True)
      (sample_registry\<lparr>rg_subscribe := [(RPC_SERVICE_SUBSCRIBE @ [97], 3)]\<rparr>) (registerService_request [97])
      (Some (new_IPv4 0x7F000001 8080)) = Inr (resp, [(3, msg)], rg') \<and>
    pool_recv_round (\<lambda>_ _. 9) 2 sample_pool (Some msg) = Inr (True, [], p') \<and>
    po_address_map p' [97] = Some (remove1 (IPv4_insert (new_IPv4 0x7F000001 8080)) [[49], [51]])"
proof -
  let ?req = "registerService_request [97]"
  have "p_content ?req = [97]" by (simp add: registerService_request_def)
  moreover have "po_subscribe_handle sample_pool (RPC_SERVICE_SUBSCRIBE @ [97]) = Some (ServiceChanged [97])"
    "po_address_map sample_pool [97] = Some [[49], [51]]"
    by (simp_all add: sample_pool_def)
  ultimately obtain resp msg rg' p' where "handleServiceRegister (\<lambda>_ _. 7) (\<lambda>_. True)
      (sample_registry\<lparr>rg_subscribe := [(RPC_SERVICE_SUBSCRIBE @ [97], 3)]\<rparr>) ?req
      (Some (new_IPv4 0x7F000001 8080)) = Inr (resp, [(3, msg)], rg')"
    "pool_recv_round (\<lambda>_ _. 9) 2 sample_pool (Some msg) = Inr (True, [], p')"
    "po_address_map p' = (po_address_map sample_pool)([97] \<mapsto>
      remove1 (IPv4_insert (new_IPv4 0x7F000001 8080)) [[49], [51]])"
    using announced_provider_removed [of sample_pool ?req "[[49], [51]]"
        "sample_registry\<lparr>rg_subscribe := [(RPC_SERVICE_SUBSCRIBE @ [97], 3)]\<rparr>" 3 "\<lambda>_. True" "\<lambda>_ _. 7"
        "new_IPv4 0x7F000001 8080" "\<lambda>_ _. 9" 2]
    by auto
  then show ?thesis by (metis fun_upd_same)
qed

text \<open>
  C25. A call whose cached connection is closed fails over: the address of the dead connection leaves
  the list, one of the remaining addresses is connected to, the result is that of the call through
  the new client, and the new client is cached for the next call.
\<close>

theorem pool_fails_over:
  assumes "map_of (po_service_map p) name = Some client" "r_code (pe_call env client name) = state_code RPC_CLOSED"
    "distinct (address_list p name)" "\<exists>a \<in> set (address_list p name). a \<noteq> pe_remote env client"
    "\<forall>a. a \<noteq> pe_remote env client \<longrightarrow> (\<exists>i c. pe_lookup env a = Some i \<and> pe_connect env i = Some c)"
  shows "\<exists>a i c p'. pool_call env disc name result p = Inr (pe_call env c name, p') \<and>
    a \<in> set (address_list p name) - {pe_remote env client} \<and> pe_lookup env a = Some i \<and> pe_connect env i = Some c \<and>
    map_of (po_service_map p') name = Some c \<and>
    set (address_list p' name) = set (address_list p name) - {pe_remote env client}"
proof -
  let ?p = "drop_client env name client p" let ?q = "?p\<lparr>po_address_map := (po_address_map ?p)(name \<mapsto> address_list ?p name)\<rparr>"
  have as: "address_list ?p name = remove1 (pe_remote env client) (address_list p name)" "address_list ?q name = address_list ?p name"
    by (simp_all add: drop_client_def address_list_def)
  have set: "set (address_list ?p name) = set (address_list p name) - {pe_remote env client}"
    using as assms(3) by simp
  then have ne: "address_list ?p name \<noteq> []" using assms(4) by force
  obtain a where a: "a \<in> set (address_list ?p name)" "select_mod (pe_rand env) (address_list ?p name) = Inr a"
    using select_mod_in [OF ne] by blast
  then obtain i c where i: "pe_lookup env a = Some i" "pe_connect env i = Some c"
    using assms(5) set by blast
  have "name \<notin> fst ` set (po_service_map ?q)" by (auto simp: drop_client_def)
  note new = map_emplace_new(1) [OF this, of c]
  let ?r = "?q\<lparr>po_service_map := map_emplace (po_service_map ?q) (name, c)\<rparr>"
  have "address_list ?r name = address_list ?p name" "map_of (po_service_map ?r) name = Some c"
    using new as(2) by (simp_all add: address_list_def)
  moreover have "pool_call env disc name result p = Inr (pe_call env c name, ?r)"
    using assms(1,2) ne as a i
    by (simp add: pool_call_def call_new_def call_connect_def route_select_def queryStrategy_def
        select_random_def Let_def)
  ultimately show ?thesis using a(1) i set by metis
qed

theorem pool_fails_over_witness:
  "\<exists>c p'. pool_call sample_env (\<lambda>_ p. Inl NullDeref) [97] (new_Result 9 (VInt32 0))
      (sample_pool\<lparr>po_service_map := [([97], 1)]\<rparr>) = Inr (Success (VInt32 (of_nat c)), p') \<and>
    map_of (po_service_map p') [97] = Some c \<and> set (address_list p' [97]) = {[51]}"
proof -
  let ?p = "sample_pool\<lparr>po_service_map := [([97], 1)]\<rparr>"
  have addrs: "address_list ?p [97] = [[49], [51]]" by (simp add: sample_pool_def address_list_def)
  have env: "pe_remote sample_env c = [49]" "pe_lookup sample_env a = Some (length a)"
    "pe_connect sample_env i = Some (i + 2)" "r_code (pe_call sample_env 1 name) = state_code RPC_CLOSED"
    "pe_call sample_env (i + 2) name = Success (VInt32 (of_nat (i + 2)))" for c a i name
    by (simp_all add: sample_env_def new_Result_def)
  have "map_of (po_service_map ?p) [97] = Some 1" "distinct (address_list ?p [97])"
    "\<exists>a \<in> set (address_list ?p [97]). a \<noteq> pe_remote sample_env 1"
    "\<forall>a. a \<noteq> pe_remote sample_env 1 \<longrightarrow> (\<exists>i c. pe_lookup sample_env a = Some i \<and> pe_connect sample_env i = Some c)"
    unfolding env addrs by simp_all
  from pool_fails_over [OF this(1) env(4) this(2-4), of "\<lambda>_ p. Inl NullDeref" "new_Result 9 (VInt32 0)"]
  obtain i c p' where "pool_call sample_env (\<lambda>_ p. Inl NullDeref) [97] (new_Result 9 (VInt32 0)) ?p =
      Inr (pe_call sample_env c [97], p')" "pe_connect sample_env i = Some c"
    "map_of (po_service_map p') [97] = Some c" "set (address_list p' [97]) = {[49], [51]} - {[49]}"
    unfolding addrs env(1) list.set by blast
  moreover have "{[49], [51]} - {[49]} = {[51 :: u8]}" by auto
  ultimately show ?thesis using env(3,5) by (metis option.inject)
qed

text \<open>
  The pool never notices that the registry went silent: unlike the client, its heartbeat does
  not set the flag that a missing answer leaves standing. In every reachable state of an open pool
  the heartbeat just sends another packet.
\<close>

theorem pool_heartbeat_blind:
  assumes "pool_reach p" "\<not> po_is_closed p"
  shows "pool_heartbeat f p = Inr ([], pool_send f HeartBeat p) \<and> \<not> po_is_closed (pool_send f HeartBeat p)"
  using pool_reach_flags [OF assms(1)] assms(2) by (auto simp: pool_heartbeat_def)

theorem pool_heartbeat_blind_witness:
  "\<exists>ok eff p. pool_connect True 4 10 1 (new_RPCConnectionPool False True new_TimerManager 0) = (ok, eff, p) \<and>
    pool_heartbeat 1 p = Inr ([], pool_send 1 HeartBeat p)"
proof -
  obtain ok eff p where p: "pool_connect True 4 10 1 (new_RPCConnectionPool False True new_TimerManager 0) = (ok, eff, p)"
    "\<not> po_is_closed p"
    by (simp add: pool_connect_def new_RPCConnectionPool_def Let_def)
  then show ?thesis using pool_heartbeat_blind [OF pool_start [OF p(1)] p(2), of 1] by blast
qed

end
