(* ===== verification/Sync.thy ===== *)
theory Sync
  imports Prelude
begin

text \<open>
  Scoped locks and the fiber mutex (\<open>include/mutex.h\<close>, \<open>src/mutex.cc\<close>).

  A scoped lock is its flag; each of its operations returns the calls it makes on the mutex. The
  fiber mutex \<open>CoMutex\<close> is a step relation: every fiber has a program counter named after the lines
  of \<open>CoMutex::lock\<close> and \<open>CoMutex::unlock\<close>, and one step is one access to shared state, so that
  the steps of different fibers interleave the way threads let them. A parked fiber runs again
  only after it has been submitted to the scheduler.
\<close>

section \<open>Scoped locks\<close>

datatype mutex_call = MLock | MUnlock | MTry bool

text \<open>The calls a scope makes between its constructor and its destructor; \<open>OpTry\<close> carries the
  result of the mutex's \<open>trylock\<close>.\<close>

datatype scope_op = OpLock | OpUnlock | OpTry bool

definition ScopedLock_new :: "mutex_call list \<times> bool" where
  "ScopedLock_new = ([MLock], True)"

definition ScopedLock_lock :: "bool \<Rightarrow> mutex_call list \<times> bool" where
  "ScopedLock_lock locked = (if \<not> locked then ([MLock], True) else ([], locked))"

definition ScopedLock_unlock :: "bool \<Rightarrow> mutex_call list \<times> bool" where
  "ScopedLock_unlock locked = (if locked then ([MUnlock], False) else ([], locked))"

definition ScopedLock_trylock :: "bool \<Rightarrow> bool \<Rightarrow> mutex_call list \<times> bool" where
  "ScopedLock_trylock ok locked = (if \<not> locked then ([MTry ok], ok) else ([], locked))"

definition ScopedLock_delete :: "bool \<Rightarrow> mutex_call list" where
  "ScopedLock_delete locked = [MUnlock]"

text \<open>\<open>ReadScopeLock\<close> and \<open>WriteScopeLock\<close> have the same code, but their destructor calls the
  guarded \<open>unlock\<close>; they have no \<open>trylock\<close>.\<close>

definition RWScopeLock_delete :: "bool \<Rightarrow> mutex_call list" where
  "RWScopeLock_delete locked = fst (ScopedLock_unlock locked)"

fun do_op :: "scope_op \<Rightarrow> bool \<Rightarrow> mutex_call list \<times> bool" where
  "do_op OpLock l = ScopedLock_lock l"
| "do_op OpUnlock l = ScopedLock_unlock l"
| "do_op (OpTry ok) l = ScopedLock_trylock ok l"

fun scope_body :: "scope_op list \<Rightarrow> bool \<Rightarrow> mutex_call list \<times> bool" where
  "scope_body [] l = ([], l)"
| "scope_body (u # us) l =
     (case do_op u l of (cs, l') \<Rightarrow> case scope_body us l' of (cs', l'') \<Rightarrow> (cs @ cs', l''))"

definition scope_calls :: "(bool \<Rightarrow> mutex_call list) \<Rightarrow> scope_op list \<Rightarrow> mutex_call list" where
  "scope_calls del us =
     (case ScopedLock_new of (cs, l) \<Rightarrow>
      case scope_body us l of (cs', l') \<Rightarrow> cs @ cs' @ del l')"

text \<open>
  What a sequence of calls does to the caller's hold on the mutex: \<open>None\<close> when it locks a mutex it
  holds or releases one it does not hold.
\<close>

fun hold :: "bool \<Rightarrow> mutex_call list \<Rightarrow> bool option" where
  "hold h [] = Some h"
| "hold h (MLock # cs) = (if h then None else hold True cs)"
| "hold h (MUnlock # cs) = (if h then hold False cs else None)"
| "hold h (MTry ok # cs) = (if h then None else hold ok cs)"

lemma hold_append: "hold h (cs @ ds) = (case hold h cs of None \<Rightarrow> None | Some h' \<Rightarrow> hold h' ds)"
  by (induction h cs rule: hold.induct) auto

lemma hold_body: "hold l (fst (scope_body us l)) = Some (snd (scope_body us l))"
proof (induction us arbitrary: l)
  case (Cons u us)
  have "hold l (fst (do_op u l)) = Some (snd (do_op u l))"
    by (cases u) (simp_all add: ScopedLock_lock_def ScopedLock_unlock_def ScopedLock_trylock_def)
  then show ?case using Cons.IH by (auto simp: hold_append split: prod.splits) (metis fst_conv snd_conv)
qed simp

section \<open>The fiber mutex\<close>

text \<open>
  Where a fiber is in \<open>CoMutex::lock\<close> (\<open>Lock9\<close> to \<open>Lock24\<close>, by line), in the critical section
  (\<open>In\<close>) or in \<open>CoMutex::unlock\<close>; the argument is the fiber taken from the wait queue.
\<close>

datatype cm_pc = Out | Lock9 | Lock13 | Lock14 | Lock15 | Lock18 | Lock20 | Lock21 | Lock22 | Lock24 | In
  | Unlock27 | Unlock28 | Unlock30 | Unlock34 "nat option" | Unlock35 "nat option" | Unlock37 "nat option"

text \<open>
  Fibers are named by what \<open>Fiber::GetFiberId()\<close> gives in them: fibers made from a function have ids from 1 on, a
  thread without fibers gives 0, and the main fiber of a thread gives an uninitialised number. \<open>cm_ready\<close> are the fibers submitted to the scheduler.
  Nothing initialises \<open>fiber_id_\<close>, so its first value is the argument \<open>id0\<close>.
\<close>

record comutex =
  cm_mutex :: bool
  cm_guard :: bool
  cm_fiber_id :: nat
  cm_waitQueue :: "nat list"
  cm_pc :: "nat \<Rightarrow> cm_pc"
  cm_ready :: "nat set"

definition new_CoMutex :: "nat \<Rightarrow> comutex" where
  "new_CoMutex id0 = \<lparr>cm_mutex = False, cm_guard = False, cm_fiber_id = id0, cm_waitQueue = [],
     cm_pc = (\<lambda>_. Out), cm_ready = {}\<rparr>"

definition cm_goto :: "nat \<Rightarrow> cm_pc \<Rightarrow> comutex \<Rightarrow> comutex" where
  "cm_goto f pc m = m\<lparr>cm_pc := (cm_pc m)(f := pc)\<rparr>"

definition trylock :: "nat \<Rightarrow> cm_pc \<Rightarrow> cm_pc \<Rightarrow> comutex \<Rightarrow> comutex" where
  "trylock f yes no m = (if cm_mutex m then cm_goto f no m else cm_goto f yes (m\<lparr>cm_mutex := True\<rparr>))"

definition CoMutex_lock :: "nat \<Rightarrow> comutex \<Rightarrow> comutex option" where
  "CoMutex_lock f m =
     (case cm_pc m f of
        Lock9 \<Rightarrow> Some (if f = cm_fiber_id m then cm_goto f In m else cm_goto f Lock13 m)
      | Lock13 \<Rightarrow> Some (trylock f Lock24 Lock14 m)
      | Lock14 \<Rightarrow> Some (trylock f Lock15 Lock18 m)
      | Lock15 \<Rightarrow> Some (cm_goto f In (m\<lparr>cm_fiber_id := f\<rparr>))
      | Lock18 \<Rightarrow> if cm_guard m then None else Some (cm_goto f Lock20 (m\<lparr>cm_guard := True\<rparr>))
      | Lock20 \<Rightarrow> Some (cm_goto f Lock21 (m\<lparr>cm_waitQueue := cm_waitQueue m @ [f]\<rparr>))
      | Lock21 \<Rightarrow> Some (cm_goto f Lock22 (m\<lparr>cm_guard := False\<rparr>))
      | Lock22 \<Rightarrow> if f \<in> cm_ready m then Some (cm_goto f Lock13 (m\<lparr>cm_ready := cm_ready m - {f}\<rparr>)) else None
      | Lock24 \<Rightarrow> Some (cm_goto f In (m\<lparr>cm_fiber_id := f\<rparr>))
      | _ \<Rightarrow> None)"

definition CoMutex_unlock :: "nat \<Rightarrow> comutex \<Rightarrow> comutex option" where
  "CoMutex_unlock f m =
     (case cm_pc m f of
        Unlock27 \<Rightarrow> if cm_guard m then None else Some (cm_goto f Unlock28 (m\<lparr>cm_guard := True\<rparr>))
      | Unlock28 \<Rightarrow> Some (cm_goto f Unlock30 (m\<lparr>cm_fiber_id := 0\<rparr>))
      | Unlock30 \<Rightarrow> (case cm_waitQueue m of [] \<Rightarrow> Some (cm_goto f (Unlock34 None) m)
          | g # q \<Rightarrow> Some (cm_goto f (Unlock34 (Some g)) (m\<lparr>cm_waitQueue := q\<rparr>)))
      | Unlock34 w \<Rightarrow> Some (cm_goto f (Unlock35 w) (m\<lparr>cm_mutex := False\<rparr>))
      | Unlock35 w \<Rightarrow> Some (cm_goto f (Unlock37 w) (m\<lparr>cm_guard := False\<rparr>))
      | Unlock37 w \<Rightarrow> Some (cm_goto f Out (m\<lparr>cm_ready := cm_ready m \<union> set_option w\<rparr>))
      | _ \<Rightarrow> None)"

text \<open>One step of fiber \<open>f\<close>: it calls \<open>lock\<close> when it is outside and \<open>unlock\<close> when it is inside.\<close>

definition cm_exec :: "nat \<Rightarrow> comutex \<Rightarrow> comutex option" where
  "cm_exec f m =
     (case cm_pc m f of
        Out \<Rightarrow> Some (cm_goto f Lock9 m)
      | In \<Rightarrow> Some (cm_goto f Unlock27 m)
      | _ \<Rightarrow> (case CoMutex_lock f m of Some m' \<Rightarrow> Some m' | None \<Rightarrow> CoMutex_unlock f m))"

text \<open>What the callers \<open>F\<close> can reach.\<close>

inductive cm_reach :: "nat set \<Rightarrow> nat \<Rightarrow> comutex \<Rightarrow> bool" for F id0 where
  cm_init: "cm_reach F id0 (new_CoMutex id0)"
| cm_step: "cm_reach F id0 m \<Longrightarrow> f \<in> F \<Longrightarrow> cm_exec f m = Some m' \<Longrightarrow> cm_reach F id0 m'"

text \<open>A schedule: the fibers that move, in order.\<close>

fun cm_run :: "nat list \<Rightarrow> comutex \<Rightarrow> comutex option" where
  "cm_run [] m = Some m"
| "cm_run (f # fs) m = (case cm_exec f m of None \<Rightarrow> None | Some m' \<Rightarrow> cm_run fs m')"

lemma cm_run_reach: "cm_reach F id0 m \<Longrightarrow> set fs \<subseteq> F \<Longrightarrow> cm_run fs m = Some m' \<Longrightarrow> cm_reach F id0 m'"
proof (induction fs arbitrary: m)
  case (Cons f fs)
  then obtain m1 where "cm_exec f m = Some m1" "cm_run fs m1 = Some m'"
    by (auto split: option.splits)
  then show ?case using Cons.IH [OF cm_step [OF Cons.prems(1), of f m1]] Cons.prems(2) by simp
qed simp

section \<open>Mutual exclusion\<close>

fun holds_mutex :: "cm_pc \<Rightarrow> bool" where
  "holds_mutex Lock15 = True"
| "holds_mutex Lock24 = True"
| "holds_mutex In = True"
| "holds_mutex Unlock27 = True"
| "holds_mutex Unlock28 = True"
| "holds_mutex Unlock30 = True"
| "holds_mutex (Unlock34 w) = True"
| "holds_mutex _ = False"

fun owns :: "cm_pc \<Rightarrow> bool" where
  "owns In = True"
| "owns Unlock27 = True"
| "owns Unlock28 = True"
| "owns _ = False"

lemma owns_holds: "owns pc \<Longrightarrow> holds_mutex pc"
  by (cases pc) simp_all

definition cm_owner :: "nat set \<Rightarrow> comutex \<Rightarrow> bool" where
  "cm_owner F m \<longleftrightarrow> (cm_fiber_id m \<in> F \<longrightarrow> owns (cm_pc m (cm_fiber_id m))) \<and>
     (\<forall>f. owns (cm_pc m f) \<longrightarrow> f = cm_fiber_id m)"

definition cm_inv :: "nat set \<Rightarrow> comutex \<Rightarrow> bool" where
  "cm_inv F m \<longleftrightarrow> (cm_mutex m \<longleftrightarrow> (\<exists>f. holds_mutex (cm_pc m f))) \<and>
     (\<forall>f g. holds_mutex (cm_pc m f) \<longrightarrow> holds_mutex (cm_pc m g) \<longrightarrow> f = g) \<and> cm_owner F m"

lemmas cm_defs = cm_goto_def trylock_def CoMutex_lock_def CoMutex_unlock_def cm_exec_def

lemma cm_inv_owner: "cm_inv F m \<Longrightarrow> cm_fiber_id m \<in> F \<Longrightarrow> holds_mutex (cm_pc m (cm_fiber_id m))"
  by (simp add: cm_inv_def cm_owner_def owns_holds)

text \<open>A fiber moves without taking or releasing the mutex; it takes it; it releases it.\<close>

lemma cm_inv_move:
  assumes "cm_inv F m" "holds_mutex pc = holds_mutex (cm_pc m f)" "cm_pc m' = (cm_pc m)(f := pc)"
    "cm_mutex m' = cm_mutex m" "cm_owner F m'"
  shows "cm_inv F m'"
proof -
  have "holds_mutex (cm_pc m' g) = holds_mutex (cm_pc m g)" for g using assms(2,3) by simp
  then show ?thesis using assms(1,4,5) by (auto simp: cm_inv_def)
qed

lemma cm_inv_take:
  assumes "cm_inv F m" "\<not> cm_mutex m" "pc = Lock15 \<or> pc = Lock24" "cm_pc m' = (cm_pc m)(f := pc)" "cm_mutex m'"
    "cm_fiber_id m' = cm_fiber_id m"
  shows "cm_inv F m'"
proof -
  have none: "\<not> holds_mutex (cm_pc m g)" for g using assms(1,2) by (auto simp: cm_inv_def)
  then have "cm_fiber_id m \<notin> F" using cm_inv_owner [OF assms(1)] by auto
  moreover have "\<not> owns (cm_pc m g)" for g using none [of g] owns_holds by blast
  ultimately show ?thesis using none assms(3-6) by (auto simp: cm_inv_def cm_owner_def)
qed

lemma cm_inv_release:
  assumes "cm_inv F m" "cm_pc m f = Unlock34 w" "\<not> holds_mutex pc" "cm_pc m' = (cm_pc m)(f := pc)"
    "\<not> cm_mutex m'" "cm_fiber_id m' = cm_fiber_id m"
  shows "cm_inv F m'"
proof -
  have one: "holds_mutex (cm_pc m g) \<Longrightarrow> g = f" for g using assms(1,2) by (auto simp: cm_inv_def)
  have "cm_fiber_id m \<notin> F"
  proof
    assume id: "cm_fiber_id m \<in> F"
    then have "cm_fiber_id m = f" using cm_inv_owner [OF assms(1)] one by simp
    then show False using id assms(1,2) by (auto simp: cm_inv_def cm_owner_def)
  qed
  moreover have "\<not> owns (cm_pc m' g)" for g
    using one [of g] assms(3,4) owns_holds by (cases "g = f") auto
  ultimately show ?thesis using one assms(3-6) by (auto simp: cm_inv_def cm_owner_def)
qed

text \<open>The owner recorded in \<open>fiber_id_\<close> stays, is entered, or is cleared.\<close>

lemma cm_owner_keep:
  "cm_owner F m \<Longrightarrow> cm_pc m' = (cm_pc m)(f := pc) \<Longrightarrow> cm_fiber_id m' = cm_fiber_id m \<Longrightarrow>
   owns pc = owns (cm_pc m f) \<Longrightarrow> cm_owner F m'"
  unfolding cm_owner_def by (metis fun_upd_apply)

lemma cm_owner_enter:
  assumes "cm_inv F m" "holds_mutex (cm_pc m f)" "cm_pc m' = (cm_pc m)(f := In)" "cm_fiber_id m' = f"
  shows "cm_owner F m'"
proof -
  have "\<not> owns (cm_pc m g)" if "g \<noteq> f" for g
    using assms(1,2) that owns_holds unfolding cm_inv_def by blast
  then show ?thesis using assms(3,4) by (simp add: cm_owner_def)
qed

lemma cm_owner_leave:
  assumes "cm_inv F m" "owns (cm_pc m f)" "cm_pc m' = (cm_pc m)(f := pc)" "\<not> owns pc" "cm_fiber_id m' \<notin> F"
  shows "cm_owner F m'"
proof -
  have "\<not> owns (cm_pc m g)" if "g \<noteq> f" for g
    using assms(1,2) that unfolding cm_inv_def cm_owner_def by metis
  then show ?thesis using assms(3-5) by (simp add: cm_owner_def)
qed

lemma cm_inv_step:
  assumes "cm_inv F m" "f \<in> F" "0 \<notin> F" "cm_exec f m = Some m'"
  shows "cm_inv F m'"
proof -
  have owner: "cm_owner F m" using assms(1) by (simp add: cm_inv_def)
  have move: ?thesis if "holds_mutex (cm_pc m' f) = holds_mutex (cm_pc m f)" "cm_mutex m' = cm_mutex m"
    "cm_pc m' = (cm_pc m)(f := cm_pc m' f)" "cm_owner F m'"
    using cm_inv_move [OF assms(1) that(1,3,2,4)] .
  have keep: ?thesis if "holds_mutex (cm_pc m' f) = holds_mutex (cm_pc m f)" "cm_mutex m' = cm_mutex m"
    "cm_pc m' = (cm_pc m)(f := cm_pc m' f)" "cm_fiber_id m' = cm_fiber_id m" "owns (cm_pc m' f) = owns (cm_pc m f)"
    using move [OF that(1-3)] cm_owner_keep [OF owner that(3-5)] by blast
  have take: ?thesis if "\<not> cm_mutex m" "cm_pc m' f = Lock15 \<or> cm_pc m' f = Lock24" "cm_mutex m'"
    "cm_pc m' = (cm_pc m)(f := cm_pc m' f)" "cm_fiber_id m' = cm_fiber_id m"
    using cm_inv_take [OF assms(1) that(1,2,4,3,5)] .
  show ?thesis
  proof (cases "cm_pc m f")
    case Lock9
    then have "f \<noteq> cm_fiber_id m" using owner assms(2) unfolding cm_owner_def by (metis owns.simps(5))
    then show ?thesis using assms(4) Lock9 by (intro keep) (auto simp: cm_defs)
  next
    case Lock13
    then show ?thesis
      using assms(4) by (cases "cm_mutex m"; intro keep take) (auto simp: cm_defs)
  next
    case Lock14
    then show ?thesis
      using assms(4) by (cases "cm_mutex m"; intro keep take) (auto simp: cm_defs)
  next
    case Lock15
    then show ?thesis
      using assms(4) by (intro move cm_owner_enter [OF assms(1), of f]) (auto simp: cm_defs)
  next
    case Lock24
    then show ?thesis
      using assms(4) by (intro move cm_owner_enter [OF assms(1), of f]) (auto simp: cm_defs)
  next
    case Unlock28
    then show ?thesis
      using assms(4) by (intro move cm_owner_leave [OF assms(1), of f _ Unlock30]) (use assms(3) in \<open>auto simp: cm_defs\<close>)
  next
    case (Unlock34 w)
    then show ?thesis
      using assms(4) by (intro cm_inv_release [OF assms(1) Unlock34, of "Unlock35 w"]) (auto simp: cm_defs)
  qed (use assms(4) in \<open>(intro keep; auto simp: cm_defs split: if_splits list.splits)+\<close>)
qed

lemma cm_inv_new: "id0 \<notin> F \<Longrightarrow> cm_inv F (new_CoMutex id0)"
  by (simp add: cm_inv_def cm_owner_def new_CoMutex_def)

lemma cm_reach_inv: "cm_reach F id0 m \<Longrightarrow> 0 \<notin> F \<Longrightarrow> id0 \<notin> F \<Longrightarrow> cm_inv F m"
  by (induction rule: cm_reach.induct) (auto simp: cm_inv_new intro: cm_inv_step)

section \<open>Properties\<close>

text \<open>
  C8. Mutual exclusion: let fibers made from functions lock and unlock the mutex in pairs, and let the uninitialised
  \<open>fiber_id_\<close> be the id of none of them. However their steps interleave, no two of them are in the critical section at once,
  and the one inside is the fiber recorded in \<open>fiber_id_\<close>.
\<close>

theorem comutex_exclusion:
  assumes "cm_reach F id0 m" "0 \<notin> F" "id0 \<notin> F" "cm_pc m f = In" "cm_pc m g = In"
  shows "f = g \<and> cm_fiber_id m = f \<and> cm_mutex m"
proof -
  have "cm_inv F m" by (rule cm_reach_inv [OF assms(1-3)])
  moreover have "owns (cm_pc m f)" "owns (cm_pc m g)" using assms(4,5) by simp_all
  ultimately show ?thesis using owns_holds unfolding cm_inv_def cm_owner_def by metis
qed

definition cm_sample :: "comutex" where
  "cm_sample = \<lparr>cm_mutex = True, cm_guard = False, cm_fiber_id = 1, cm_waitQueue = [],
     cm_pc = (\<lambda>_. Out)(1 := In, 2 := Lock14), cm_ready = {}\<rparr>"

theorem comutex_exclusion_witness:
  "cm_reach {1, 2} 77 cm_sample \<and> cm_pc cm_sample 1 = In \<and> cm_fiber_id cm_sample = 1"
proof -
  have "cm_run [1, 1, 1, 1, 2, 2, 2] (new_CoMutex 77) = Some cm_sample"
    by (simp add: cm_defs new_CoMutex_def cm_sample_def fun_upd_twist)
  from cm_run_reach [OF cm_init _ this] have "cm_reach {1, 2} 77 cm_sample" by simp
  moreover from this have "cm_fiber_id cm_sample = 1"
    using comutex_exclusion [of "{1, 2}" 77 cm_sample 1 1] by (simp add: cm_sample_def)
  ultimately show ?thesis by (simp add: cm_sample_def)
qed

text \<open>
  Both conditions are needed. If the memory of a new mutex happens to hold a fiber's id, this fiber enters
  without taking the mutex, and another one enters beside it. A thread without fibers, whose id is 0, enters so whenever the mutex has been
  released: \<open>fiber_id_\<close> is then 0.
\<close>

theorem uninitialised_owner_enters:
  assumes "f \<noteq> g" "{f, g} \<subseteq> F"
  shows "\<exists>m. cm_reach F f m \<and> cm_pc m f = In \<and> cm_pc m g = In"
proof -
  have "cm_run [f, f, g, g, g, g] (new_CoMutex f) = Some ((new_CoMutex f)\<lparr>cm_mutex := True, cm_fiber_id := g,
      cm_pc := (\<lambda>_. Out)(f := In, g := In)\<rparr>)"
    using assms(1) by (simp add: cm_defs new_CoMutex_def)
  from cm_run_reach [OF cm_init _ this] assms show ?thesis by fastforce
qed

theorem no_fiber_skips_lock:
  assumes "cm_pc m 0 = Lock9" "cm_fiber_id m = 0"
  shows "CoMutex_lock 0 m = Some (cm_goto 0 In m)"
  using assms by (simp add: CoMutex_lock_def)

text \<open>
  A wake-up can be lost: there is a schedule in which a fiber finds the mutex taken, the holder
  releases it while the wait queue is still empty, and the fiber then queues itself and parks. The
  mutex is free, nobody is going to unlock it, and the fiber cannot move.
\<close>

theorem comutex_lost_wakeup:
  "\<exists>m. cm_reach {1, 2} 0 m \<and> \<not> cm_mutex m \<and> cm_waitQueue m = [2] \<and> cm_exec 2 m = None \<and>
    cm_pc m = (\<lambda>_. Out)(2 := Lock22)"
proof -
  let ?m = "(new_CoMutex 0)\<lparr>cm_waitQueue := [2], cm_pc := (\<lambda>_. Out)(2 := Lock22)\<rparr>"
  have "cm_run ([1, 1, 1, 1] @ [2, 2, 2, 2] @ [1, 1, 1, 1, 1, 1, 1] @ [2, 2, 2]) (new_CoMutex 0) = Some ?m"
    by (simp add: cm_defs new_CoMutex_def fun_eq_iff)
  from cm_run_reach [OF cm_init _ this] have "cm_reach {1, 2} 0 ?m" by simp
  then show ?thesis
    by (intro exI [of _ ?m]) (simp add: cm_defs new_CoMutex_def)
qed

text \<open>
  A scope that ends after an explicit \<open>unlock()\<close> unlocks once more. If another fiber took the
  mutex in between, this releases it under that fiber, and a third one can enter: two fibers are in
  the critical section.
\<close>

theorem double_unlock_breaks_exclusion:
  "\<exists>m m'. cm_reach {2} 0 m \<and> cm_pc m 1 = Out \<and> cm_pc m 2 = In \<and>
    cm_run [1, 1, 1, 1, 1, 1, 3, 3, 3, 3] (cm_goto 1 Unlock27 m) = Some m' \<and>
    cm_pc m' 2 = In \<and> cm_pc m' 3 = In"
proof -
  let ?m = "\<lparr>cm_mutex = True, cm_guard = False, cm_fiber_id = 2, cm_waitQueue = [],
    cm_pc = (\<lambda>_. Out)(2 := In), cm_ready = {}\<rparr>"
  have "cm_run [2, 2, 2, 2] (new_CoMutex 0) = Some ?m"
    by (simp add: cm_defs new_CoMutex_def)
  from cm_run_reach [OF cm_init _ this] have "cm_reach {2} 0 ?m" by simp
  moreover have "cm_run [1, 1, 1, 1, 1, 1, 3, 3, 3, 3] (cm_goto 1 Unlock27 ?m) =
      Some (?m\<lparr>cm_fiber_id := 3, cm_pc := (\<lambda>_. Out)(2 := In, 3 := In)\<rparr>)"
    by (simp add: cm_defs fun_eq_iff)
  ultimately show ?thesis by (intro exI [of _ ?m] exI conjI) (assumption | simp)+
qed

text \<open>
  A read or write scope releases exactly what it holds, whatever was locked and unlocked
  inside it. A \<open>ScopedLock\<close> does so only if it holds the mutex when it ends: after an explicit
  \<open>unlock()\<close> its destructor releases the mutex a second time, which is not the scope's any more.
\<close>

theorem scope_release:
  "hold False (scope_calls RWScopeLock_delete us) = Some False \<and>
   hold False (scope_calls ScopedLock_delete us) = (if snd (scope_body us True) then Some False else None)"
  using hold_body [of True us]
  by (auto simp: scope_calls_def ScopedLock_new_def hold_append ScopedLock_delete_def
      RWScopeLock_delete_def ScopedLock_unlock_def split: prod.splits)

end
