(* ===== verification/Locks.thy ===== *)
theory Locks
  imports Prelude "HOL-Library.Multiset"
begin

text \<open>
  The thread locks of \<open>include/mutex.h\<close>: \<open>Mutex\<close>, \<open>SpinLock\<close>, \<open>RWMutex\<close> and the scopes \<open>ReadScopeLock\<close> and
  \<open>WriteScopeLock\<close> that guard the timers and the IO contexts.

  The pthread objects behind them are the states of who holds what. A call that has to wait gives \<open>None\<close>: it happens
  at a later moment. Releasing what the thread does not hold is undefined, the fault \<open>LogicError\<close>. A thread that asks for a read-write
  lock which it holds for writing gets the error \<open>EDEADLK\<close>; the code ignores the result, so that the call returns and has
  changed nothing.
\<close>

section \<open>Exclusive locks\<close>

text \<open>\<open>Mutex\<close> and \<open>SpinLock\<close> are the thread that holds them; locking twice waits for ever.\<close>

type_synonym excl = "nat option"

definition Mutex_lock :: "nat \<Rightarrow> excl \<Rightarrow> excl option" where
  "Mutex_lock t m = (case m of None \<Rightarrow> Some (Some t) | Some _ \<Rightarrow> None)"

definition Mutex_trylock :: "nat \<Rightarrow> excl \<Rightarrow> bool \<times> excl" where
  "Mutex_trylock t m = (case m of None \<Rightarrow> (True, Some t) | Some _ \<Rightarrow> (False, m))"

definition Mutex_unlock :: "nat \<Rightarrow> excl \<Rightarrow> excl res" where
  "Mutex_unlock t m = (if m = Some t then Inr None else Inl LogicError)"

definition SpinLock_lock :: "nat \<Rightarrow> excl \<Rightarrow> excl option" where
  "SpinLock_lock t m = (case m of None \<Rightarrow> Some (Some t) | Some _ \<Rightarrow> None)"

definition SpinLock_trylock :: "nat \<Rightarrow> excl \<Rightarrow> bool \<times> excl" where
  "SpinLock_trylock t m = (case m of None \<Rightarrow> (True, Some t) | Some _ \<Rightarrow> (False, m))"

definition SpinLock_unlock :: "nat \<Rightarrow> excl \<Rightarrow> excl res" where
  "SpinLock_unlock t m = (if m = Some t then Inr None else Inl LogicError)"

section \<open>The read-write lock\<close>

record rwmutex =
  rw_readers :: "nat multiset"
  rw_writer :: "nat option"

definition new_RWMutex :: rwmutex where
  "new_RWMutex = \<lparr>rw_readers = {#}, rw_writer = None\<rparr>"

definition RWMutex_rlock :: "nat \<Rightarrow> rwmutex \<Rightarrow> rwmutex option" where
  "RWMutex_rlock t m =
     (if rw_writer m = Some t then Some m
      else if rw_writer m = None then Some (m\<lparr>rw_readers := add_mset t (rw_readers m)\<rparr>) else None)"

definition RWMutex_wlock :: "nat \<Rightarrow> rwmutex \<Rightarrow> rwmutex option" where
  "RWMutex_wlock t m =
     (if rw_writer m = Some t then Some m
      else if rw_writer m = None \<and> rw_readers m = {#} then Some (m\<lparr>rw_writer := Some t\<rparr>) else None)"

definition RWMutex_unlock :: "nat \<Rightarrow> rwmutex \<Rightarrow> rwmutex res" where
  "RWMutex_unlock t m =
     (if rw_writer m = Some t then Inr (m\<lparr>rw_writer := None\<rparr>)
      else if t \<in># rw_readers m then Inr (m\<lparr>rw_readers := rw_readers m - {#t#}\<rparr>)
      else Inl LogicError)"

section \<open>Scopes\<close>

text \<open>A scope is the thread that runs it, its class and the flag \<open>is_lock_\<close>.\<close>

datatype scope_class = ReadScope | WriteScope

record rw_scope =
  sc_thread :: nat
  sc_class :: scope_class
  is_lock :: bool

definition ReadScopeLock_new :: "nat \<Rightarrow> rwmutex \<Rightarrow> (rw_scope \<times> rwmutex) option" where
  "ReadScopeLock_new t m =
     map_option (\<lambda>m. (\<lparr>sc_thread = t, sc_class = ReadScope, is_lock = True\<rparr>, m)) (RWMutex_rlock t m)"

definition WriteScopeLock_new :: "nat \<Rightarrow> rwmutex \<Rightarrow> (rw_scope \<times> rwmutex) option" where
  "WriteScopeLock_new t m =
     map_option (\<lambda>m. (\<lparr>sc_thread = t, sc_class = WriteScope, is_lock = True\<rparr>, m)) (RWMutex_wlock t m)"

definition ReadScopeLock_lock :: "rw_scope \<Rightarrow> rwmutex \<Rightarrow> (rw_scope \<times> rwmutex) option" where
  "ReadScopeLock_lock s m =
     (if is_lock s then Some (s, m) else map_option (\<lambda>m. (s\<lparr>is_lock := True\<rparr>, m)) (RWMutex_rlock (sc_thread s) m))"

definition WriteScopeLock_lock :: "rw_scope \<Rightarrow> rwmutex \<Rightarrow> (rw_scope \<times> rwmutex) option" where
  "WriteScopeLock_lock s m =
     (if is_lock s then Some (s, m) else map_option (\<lambda>m. (s\<lparr>is_lock := True\<rparr>, m)) (RWMutex_wlock (sc_thread s) m))"

definition ReadScopeLock_unlock :: "rw_scope \<Rightarrow> rwmutex \<Rightarrow> (rw_scope \<times> rwmutex) res" where
  "ReadScopeLock_unlock s m =
     (if is_lock s then bindE (RWMutex_unlock (sc_thread s) m) (\<lambda>m. Inr (s\<lparr>is_lock := False\<rparr>, m)) else Inr (s, m))"

definition WriteScopeLock_unlock :: "rw_scope \<Rightarrow> rwmutex \<Rightarrow> (rw_scope \<times> rwmutex) res" where
  "WriteScopeLock_unlock s m =
     (if is_lock s then bindE (RWMutex_unlock (sc_thread s) m) (\<lambda>m. Inr (s\<lparr>is_lock := False\<rparr>, m)) else Inr (s, m))"

text \<open>The calls of a scope's class; the destructor is its \<open>unlock\<close>.\<close>

definition scope_relock :: "rw_scope \<Rightarrow> rwmutex \<Rightarrow> (rw_scope \<times> rwmutex) option" where
  "scope_relock s m = (case sc_class s of ReadScope \<Rightarrow> ReadScopeLock_lock s m | WriteScope \<Rightarrow> WriteScopeLock_lock s m)"

definition scope_unlock :: "rw_scope \<Rightarrow> rwmutex \<Rightarrow> (rw_scope \<times> rwmutex) res" where
  "scope_unlock s m = (case sc_class s of ReadScope \<Rightarrow> ReadScopeLock_unlock s m | WriteScope \<Rightarrow> WriteScopeLock_unlock s m)"

text \<open>
  Threads enter scopes, lock and unlock inside them and leave them, in any order, except that a thread which holds the lock for
  writing does not ask for it again.
\<close>

inductive scopes_reach :: "rw_scope list \<Rightarrow> rwmutex \<Rightarrow> bool" where
  no_scope: "scopes_reach [] new_RWMutex"
| enter: "scopes_reach ss m \<Longrightarrow> rw_writer m \<noteq> Some t \<Longrightarrow>
    ReadScopeLock_new t m = Some (s, m') \<or> WriteScopeLock_new t m = Some (s, m') \<Longrightarrow> scopes_reach (ss @ [s]) m'"
| relock: "scopes_reach (xs @ s # ys) m \<Longrightarrow> is_lock s \<or> rw_writer m \<noteq> Some (sc_thread s) \<Longrightarrow>
    scope_relock s m = Some (s', m') \<Longrightarrow> scopes_reach (xs @ s' # ys) m'"
| release: "scopes_reach (xs @ s # ys) m \<Longrightarrow> scope_unlock s m = Inr (s', m') \<Longrightarrow> scopes_reach (xs @ s' # ys) m'"
| leave: "scopes_reach (xs @ s # ys) m \<Longrightarrow> scope_unlock s m = Inr (s', m') \<Longrightarrow> scopes_reach (xs @ ys) m'"

section \<open>The lock and its scopes agree\<close>

definition holders :: "scope_class \<Rightarrow> rw_scope list \<Rightarrow> nat multiset" where
  "holders c ss = mset (map sc_thread (filter (\<lambda>s. is_lock s \<and> sc_class s = c) ss))"

lemma holders_simps [simp]:
  "holders c [] = {#}"
  "holders c (s # ss) = (if is_lock s \<and> sc_class s = c then {#sc_thread s#} else {#}) + holders c ss"
  "holders c (xs @ ys) = holders c xs + holders c ys"
  by (simp_all add: holders_def)

definition rw_agrees :: "rw_scope list \<Rightarrow> rwmutex \<Rightarrow> bool" where
  "rw_agrees ss m \<longleftrightarrow> rw_readers m = holders ReadScope ss \<and>
     holders WriteScope ss = (case rw_writer m of None \<Rightarrow> {#} | Some t \<Rightarrow> {#t#}) \<and>
     (rw_writer m \<noteq> None \<longrightarrow> rw_readers m = {#})"

lemmas scope_defs = ReadScopeLock_new_def WriteScopeLock_new_def scope_relock_def scope_unlock_def ReadScopeLock_lock_def
  WriteScopeLock_lock_def ReadScopeLock_unlock_def WriteScopeLock_unlock_def RWMutex_rlock_def RWMutex_wlock_def RWMutex_unlock_def

lemma enter_agrees:
  assumes "rw_agrees ss m" "rw_writer m \<noteq> Some t"
    "ReadScopeLock_new t m = Some (s, m') \<or> WriteScopeLock_new t m = Some (s, m')"
  shows "rw_agrees (ss @ [s]) m'"
  using assms(3)
proof
  assume "ReadScopeLock_new t m = Some (s, m')"
  then have "rw_writer m = None" "s = \<lparr>sc_thread = t, sc_class = ReadScope, is_lock = True\<rparr>"
    "m' = m\<lparr>rw_readers := add_mset t (rw_readers m)\<rparr>"
    using assms(2) by (simp_all add: scope_defs split: if_splits)
  then show ?thesis using assms(1) by (simp add: rw_agrees_def)
next
  assume "WriteScopeLock_new t m = Some (s, m')"
  then have "rw_writer m = None" "rw_readers m = {#}" "s = \<lparr>sc_thread = t, sc_class = WriteScope, is_lock = True\<rparr>"
    "m' = m\<lparr>rw_writer := Some t\<rparr>"
    using assms(2) by (simp_all add: scope_defs split: if_splits)
  then show ?thesis using assms(1) by (simp add: rw_agrees_def)
qed

lemma relock_agrees:
  assumes "rw_agrees (xs @ s # ys) m" "is_lock s \<or> rw_writer m \<noteq> Some (sc_thread s)" "scope_relock s m = Some (s', m')"
  shows "rw_agrees (xs @ s' # ys) m'"
proof (cases "is_lock s")
  case True
  then have "s' = s" "m' = m" using assms(3) by (simp_all add: scope_defs split: scope_class.splits)
  then show ?thesis using assms(1) by simp
next
  case False
  show ?thesis
  proof (cases "sc_class s")
    case ReadScope
    then have "rw_writer m = None" "s' = s\<lparr>is_lock := True\<rparr>" "m' = m\<lparr>rw_readers := add_mset (sc_thread s) (rw_readers m)\<rparr>"
      using assms(2,3) False by (simp_all add: scope_defs split: if_splits)
    then show ?thesis using assms(1) ReadScope False by (simp add: rw_agrees_def)
  next
    case WriteScope
    then have "rw_writer m = None" "rw_readers m = {#}" "s' = s\<lparr>is_lock := True\<rparr>" "m' = m\<lparr>rw_writer := Some (sc_thread s)\<rparr>"
      using assms(2,3) False by (simp_all add: scope_defs split: if_splits)
    then show ?thesis using assms(1) WriteScope False by (simp add: rw_agrees_def)
  qed
qed

text \<open>The scope that is unlocked is one that the lock counts.\<close>

lemma unlock_agrees:
  assumes "rw_agrees (xs @ s # ys) m"
  shows "\<exists>s' m'. scope_unlock s m = Inr (s', m') \<and> \<not> is_lock s' \<and> rw_agrees (xs @ s' # ys) m' \<and> rw_agrees (xs @ ys) m'"
proof (cases "is_lock s")
  case False
  then have "scope_unlock s m = Inr (s, m)" by (simp add: scope_defs split: scope_class.split)
  moreover have "rw_agrees (xs @ ys) m" using assms False by (auto simp: rw_agrees_def)
  ultimately show ?thesis using assms False by blast
next
  case True
  then show ?thesis
  proof (cases "sc_class s")
    case ReadScope
    then have "sc_thread s \<in># rw_readers m" "rw_writer m = None" using assms True by (auto simp: rw_agrees_def)
    moreover from this have "scope_unlock s m = Inr (s\<lparr>is_lock := False\<rparr>, m\<lparr>rw_readers := rw_readers m - {#sc_thread s#}\<rparr>)"
      using ReadScope True by (simp add: scope_defs)
    ultimately show ?thesis using ReadScope True assms by (simp add: rw_agrees_def)
  next
    case WriteScope
    then have "rw_writer m = Some (sc_thread s)" "holders WriteScope xs + holders WriteScope ys = {#}"
      using assms True by (auto simp: rw_agrees_def add_mset_eq_single split: option.splits)
    moreover from this(1) have "scope_unlock s m = Inr (s\<lparr>is_lock := False\<rparr>, m\<lparr>rw_writer := None\<rparr>)"
      using WriteScope True by (simp add: scope_defs)
    ultimately show ?thesis using WriteScope True assms by (simp add: rw_agrees_def)
  qed
qed

lemma scopes_reach_agrees: "scopes_reach ss m \<Longrightarrow> rw_agrees ss m"
proof (induction rule: scopes_reach.induct)
  case no_scope
  show ?case by (simp add: rw_agrees_def new_RWMutex_def)
next
  case (release xs s ys m s' m')
  then show ?case using unlock_agrees [OF release.IH] by simp
next
  case (leave xs s ys m s' m')
  then show ?case using unlock_agrees [OF leave.IH] by simp
qed (blast intro: enter_agrees relock_agrees)+

text \<open>
  C21. However threads enter, lock, unlock and leave read and write scopes, as long as no thread asks again for the lock while it
  holds it for writing: a scope is always entitled to the release it makes, and while
  a write scope holds the lock no other scope holds it; when all scopes have let go, the lock is free again.
\<close>

theorem rw_scopes_exclude:
  assumes "scopes_reach (xs @ s # ys) m"
  shows "(\<exists>s' m'. scope_unlock s m = Inr (s', m')) \<and>
    (is_lock s \<and> sc_class s = WriteScope \<longrightarrow> list_all (\<lambda>s. \<not> is_lock s) (xs @ ys)) \<and>
    (list_all (\<lambda>s. \<not> is_lock s) (xs @ s # ys) \<longrightarrow> m = new_RWMutex)"
proof -
  note inv = scopes_reach_agrees [OF assms]
  have none: "holders c zs = {#} \<longleftrightarrow> (\<forall>z \<in> set zs. is_lock z \<longrightarrow> sc_class z \<noteq> c)" for c zs
    by (auto simp: holders_def filter_empty_conv)
  have unlocked: "list_all (\<lambda>s. \<not> is_lock s) zs \<longleftrightarrow> holders ReadScope zs = {#} \<and> holders WriteScope zs = {#}" for zs
    unfolding none by (auto simp: list_all_iff) (metis scope_class.exhaust)
  have "is_lock s \<and> sc_class s = WriteScope \<longrightarrow> list_all (\<lambda>s. \<not> is_lock s) (xs @ ys)"
    using inv unfolding unlocked by (auto simp: rw_agrees_def add_mset_eq_single split: option.splits)
  moreover have "list_all (\<lambda>s. \<not> is_lock s) (xs @ s # ys) \<longrightarrow> m = new_RWMutex"
    using inv unfolding unlocked by (auto simp: rw_agrees_def new_RWMutex_def split: option.splits)
  ultimately show ?thesis using unlock_agrees [OF inv] by blast
qed

theorem rw_scopes_exclude_witness:
  "\<exists>m. scopes_reach [\<lparr>sc_thread = 1, sc_class = WriteScope, is_lock = True\<rparr>] m \<and>
     (\<exists>s' m'. scope_unlock \<lparr>sc_thread = 1, sc_class = WriteScope, is_lock = True\<rparr> m = Inr (s', m'))"
proof -
  have "scopes_reach ([] @ [\<lparr>sc_thread = 1, sc_class = WriteScope, is_lock = True\<rparr>]) \<lparr>rw_readers = {#}, rw_writer = Some 1\<rparr>"
    by (rule enter [OF no_scope, of 1]) (simp_all add: scope_defs new_RWMutex_def)
  then show ?thesis using rw_scopes_exclude [of "[]" _ "[]"] by (metis append_Nil)
qed

text \<open>
  A scope inside a write scope of the same thread takes nothing, but believes that it has: when it ends, it releases the lock of
  the outer scope, another thread can enter, and the release of the outer scope is of something its thread does not hold.
\<close>

theorem nested_scope_frees_lock:
  assumes "rw_writer m = Some t" "rw_readers m = {#}" "u \<noteq> t" "ReadScopeLock_new t m = Some (inner, m1) \<or> WriteScopeLock_new t m = Some (inner, m1)"
  shows "\<exists>m2 s m3. scope_unlock inner m1 = Inr (inner\<lparr>is_lock := False\<rparr>, m2) \<and> WriteScopeLock_new u m2 = Some (s, m3) \<and>
    scope_unlock \<lparr>sc_thread = t, sc_class = WriteScope, is_lock = True\<rparr> m3 = Inl LogicError"
proof -
  have inner: "m1 = m" "sc_thread inner = t" "is_lock inner"
    using assms(1,4) by (auto simp: scope_defs)
  then have "scope_unlock inner m1 = Inr (inner\<lparr>is_lock := False\<rparr>, m\<lparr>rw_writer := None\<rparr>)"
    using assms(1) by (simp add: scope_defs split: scope_class.split)
  then show ?thesis using assms(2,3) by (simp add: scope_defs)
qed

theorem nested_scope_frees_lock_witness:
  "\<exists>inner m1 m2 s m3. WriteScopeLock_new 1 \<lparr>rw_readers = {#}, rw_writer = Some 1\<rparr> = Some (inner, m1) \<and>
    scope_unlock inner m1 = Inr (inner\<lparr>is_lock := False\<rparr>, m2) \<and> WriteScopeLock_new 2 m2 = Some (s, m3)"
proof -
  let ?m = "\<lparr>rw_readers = {#}, rw_writer = Some 1\<rparr> :: rwmutex"
  have "WriteScopeLock_new 1 ?m = Some (\<lparr>sc_thread = 1, sc_class = WriteScope, is_lock = True\<rparr>, ?m)"
    by (simp add: scope_defs)
  then show ?thesis using nested_scope_frees_lock [of ?m 1 2] by fastforce
qed

end
