(* ===== verification/Scheduler.thy ===== *)
theory Scheduler
  imports Prelude
begin

text \<open>
  Fibers and the scheduler that runs them on several threads (\<open>src/fiber.cc\<close>, \<open>include/fiber.h\<close>,
  \<open>src/scheduler.cc\<close>, \<open>include/scheduler.h\<close>).

  Fibers are numbers; the heap \<open>sd_fibers\<close> holds the objects. A thread is at one of the points of the
  loop of \<open>Scheduler::Run\<close> that other threads can observe, and an event moves one thread from one
  point to the next, so an execution is a list of events. The saved machine context is not
  modelled; what matters of it is whether a fiber that gives up its thread has been switched out
  already.
\<close>

section \<open>Fibers\<close>

datatype fstate = INIT | HOLD | EXEC | FTERM | READY | EXCEPT

record fiber =
  fb_stack :: bool
  fb_state :: fstate
  fb_func :: "nat option"

text \<open>\<open>Fiber::Fiber(func, stack_size)\<close>, which needs a main fiber in the thread.\<close>

definition new_Fiber :: "bool \<Rightarrow> nat \<Rightarrow> nat \<Rightarrow> fiber res" where
  "new_Fiber has_main func stack_size =
     (if \<not> has_main \<or> stack_size = 0 then Inl AssertFail
      else Inr \<lparr>fb_stack = True, fb_state = INIT, fb_func = Some func\<rparr>)"

definition main_Fiber :: fiber where
  "main_Fiber = \<lparr>fb_stack = False, fb_state = EXEC, fb_func = None\<rparr>"

definition delete_Fiber :: "fiber \<Rightarrow> unit res" where
  "delete_Fiber fb =
     (if fb_stack fb
      then if fb_state fb \<in> {INIT, FTERM, EXCEPT} then Inr () else Inl AssertFail
      else if fb_state fb = EXEC \<and> fb_func fb = None then Inr () else Inl AssertFail)"

definition Fiber_Resume :: "fiber \<Rightarrow> fiber res" where
  "Fiber_Resume fb = (if fb_state fb = EXEC then Inl AssertFail else Inr (fb\<lparr>fb_state := EXEC\<rparr>))"

definition Fiber_Reset :: "nat option \<Rightarrow> fiber \<Rightarrow> fiber res" where
  "Fiber_Reset func fb =
     (if fb_stack fb \<and> fb_state fb \<in> {INIT, FTERM, EXCEPT}
      then Inr (fb\<lparr>fb_func := func, fb_state := INIT\<rparr>) else Inl AssertFail)"

text \<open>How a running fiber gives up its thread; an exception that leaves the function stops the process.\<close>

datatype stop = YieldToHold | YieldToReady | Finish | Throw

fun Fiber_stop :: "stop \<Rightarrow> fiber \<Rightarrow> fiber res" where
  "Fiber_stop YieldToHold fb = Inr (fb\<lparr>fb_state := HOLD\<rparr>)"
| "Fiber_stop YieldToReady fb = Inr (fb\<lparr>fb_state := READY\<rparr>)"
| "Fiber_stop Finish fb = Inr (fb\<lparr>fb_func := None, fb_state := FTERM\<rparr>)"
| "Fiber_stop Throw fb = Inl AssertFail"

definition isTerminate :: "fiber \<Rightarrow> bool" where
  "isTerminate fb \<longleftrightarrow> fb_state fb = FTERM \<or> fb_state fb = EXCEPT"

section \<open>The task queue\<close>

datatype task = TaskFiber nat int | TaskFunc nat int

fun task_thread :: "task \<Rightarrow> int" where
  "task_thread (TaskFiber f t) = t"
| "task_thread (TaskFunc c t) = t"

fun task_fiber :: "task \<Rightarrow> nat option" where
  "task_fiber (TaskFiber f t) = Some f"
| "task_fiber (TaskFunc c t) = None"

text \<open>\<open>SubmitNoLock\<close>: whether the queue was empty, and the queue. A null task is not queued.\<close>

definition SubmitNoLock :: "task option \<Rightarrow> task list \<Rightarrow> bool \<times> task list" where
  "SubmitNoLock t q = (q = [], q @ (case t of None \<Rightarrow> [] | Some t \<Rightarrow> [t]))"

text \<open>
  The search loop of \<open>Run\<close> on thread \<open>self\<close>: whether to notify others, the task taken and the rest.
  The comparison with \<open>end()\<close> after the loop uses the iterator of the erased task, which is not the
  end; so a task taken always notifies.
\<close>

definition runnable :: "(nat \<Rightarrow> fiber) \<Rightarrow> int \<Rightarrow> task \<Rightarrow> bool" where
  "runnable fibers self t \<longleftrightarrow> (task_thread t = - 1 \<or> task_thread t = self) \<and>
     (case task_fiber t of None \<Rightarrow> True | Some f \<Rightarrow> fb_state (fibers f) \<noteq> EXEC)"

fun take_task :: "(nat \<Rightarrow> fiber) \<Rightarrow> int \<Rightarrow> task list \<Rightarrow> bool \<times> task option \<times> task list" where
  "take_task fibers self [] = (False, None, [])"
| "take_task fibers self (t # q) =
     (if task_thread t \<noteq> - 1 \<and> task_thread t \<noteq> self
      then case take_task fibers self q of (tickle, r, q') \<Rightarrow> (True, r, t # q')
      else if (case task_fiber t of None \<Rightarrow> False | Some f \<Rightarrow> fb_state (fibers f) = EXEC)
      then case take_task fibers self q of (tickle, r, q') \<Rightarrow> (tickle, r, t # q')
      else (True, Some t, q))"

section \<open>Threads\<close>

text \<open>
  Where a thread is: searching the queue, with a fiber or a function just taken (line 102), running a fiber,
  running it although its state is no longer \<open>EXEC\<close> because the context is not switched yet, and
  back in \<open>Run\<close>. The flag tells whether the fiber is the thread's own one, which runs functions and
  is kept in the local variable \<open>fiber\<close>, here \<open>sd_spare\<close>.
\<close>

datatype sd_pc = Searching | Taken nat | TakenFunc nat | Running bool nat | Switching bool nat | Back bool nat

record scheduler =
  sd_tasks :: "task list"
  sd_fibers :: "nat \<Rightarrow> fiber"
  sd_next :: nat
  sd_pc :: "nat \<Rightarrow> sd_pc"
  sd_spare :: "nat \<Rightarrow> nat option"

definition new_scheduler :: scheduler where
  "new_scheduler = \<lparr>sd_tasks = [], sd_fibers = (\<lambda>_. main_Fiber), sd_next = 0, sd_pc = (\<lambda>_. Searching),
     sd_spare = (\<lambda>_. None)\<rparr>"

definition set_fiber :: "nat \<Rightarrow> fiber \<Rightarrow> scheduler \<Rightarrow> scheduler" where
  "set_fiber f fb s = s\<lparr>sd_fibers := (sd_fibers s)(f := fb)\<rparr>"

definition set_spare :: "nat \<Rightarrow> nat option \<Rightarrow> scheduler \<Rightarrow> scheduler" where
  "set_spare t g s = s\<lparr>sd_spare := (sd_spare s)(t := g)\<rparr>"

definition sd_goto :: "nat \<Rightarrow> sd_pc \<Rightarrow> scheduler \<Rightarrow> scheduler" where
  "sd_goto t pc s = s\<lparr>sd_pc := (sd_pc s)(t := pc)\<rparr>"

definition Submit :: "task option \<Rightarrow> scheduler \<Rightarrow> scheduler" where
  "Submit t s = s\<lparr>sd_tasks := snd (SubmitNoLock t (sd_tasks s))\<rparr>"

text \<open>
  The steps of \<open>Run\<close>: taking a task, resuming its fiber, its stop, and what follows the switch back. A thread that finds no task, or whose fiber
  has ended meanwhile, goes through the idle fiber before it searches again; this does not change the state kept here.
\<close>

definition run_take :: "nat \<Rightarrow> scheduler \<Rightarrow> scheduler" where
  "run_take t s =
     (case take_task (sd_fibers s) (int t) (sd_tasks s) of
        (_, None, q) \<Rightarrow> s
      | (_, Some (TaskFiber f _), q) \<Rightarrow> sd_goto t (Taken f) (s\<lparr>sd_tasks := q\<rparr>)
      | (_, Some (TaskFunc c _), q) \<Rightarrow> sd_goto t (TakenFunc c) (s\<lparr>sd_tasks := q\<rparr>))"

definition run_resume :: "nat \<Rightarrow> nat \<Rightarrow> scheduler \<Rightarrow> scheduler res" where
  "run_resume t f s =
     (if isTerminate (sd_fibers s f) then Inr (sd_goto t Searching s)
      else bindE (Fiber_Resume (sd_fibers s f)) (\<lambda>fb. Inr (sd_goto t (Running False f) (set_fiber f fb s))))"

definition run_resume_func :: "nat \<Rightarrow> nat \<Rightarrow> scheduler \<Rightarrow> scheduler res" where
  "run_resume_func t c s =
     (case sd_spare s t of
        Some g \<Rightarrow>
          bindE (Fiber_Reset (Some c) (sd_fibers s g)) (\<lambda>fb.
          bindE (Fiber_Resume fb) (\<lambda>fb. Inr (sd_goto t (Running True g) (set_fiber g fb s))))
      | None \<Rightarrow>
          let g = sd_next s in
          bindE (new_Fiber True c (128 * 1024)) (\<lambda>fb.
          bindE (Fiber_Resume fb) (\<lambda>fb.
          Inr (sd_goto t (Running True g) (set_spare t (Some g) (set_fiber g fb (s\<lparr>sd_next := Suc g\<rparr>)))))))"

definition run_stop :: "stop \<Rightarrow> nat \<Rightarrow> bool \<Rightarrow> nat \<Rightarrow> scheduler \<Rightarrow> scheduler res" where
  "run_stop y t own f s =
     bindE (Fiber_stop y (sd_fibers s f)) (\<lambda>fb. Inr (sd_goto t (Switching own f) (set_fiber f fb s)))"

definition run_back :: "nat \<Rightarrow> bool \<Rightarrow> nat \<Rightarrow> scheduler \<Rightarrow> scheduler res" where
  "run_back t own f s =
     (let fb = sd_fibers s f; s = sd_goto t Searching s in
      if fb_state fb = READY
      then Inr ((if own then set_spare t None else id) (Submit (Some (TaskFiber f (- 1))) s))
      else if \<not> own then Inr s
      else if isTerminate fb then bindE (Fiber_Reset None fb) (\<lambda>fb. Inr (set_fiber f fb s))
      else Inr (set_spare t None s))"

text \<open>\<open>Stopping\<close>; \<open>active\<close> counts the threads that run a task.\<close>

definition sd_Stopping :: "bool \<Rightarrow> task list \<Rightarrow> nat \<Rightarrow> bool" where
  "sd_Stopping stop tasks active \<longleftrightarrow> stop \<and> tasks = [] \<and> active = 0"

section \<open>Executions\<close>

datatype sd_event = STake nat | SResume nat | SStop nat stop | SSwitch nat | SBack nat | SSubmit task

text \<open>\<open>None\<close> when the thread is not at the point the event needs.\<close>

fun sd_exec :: "sd_event \<Rightarrow> scheduler \<Rightarrow> scheduler res option" where
  "sd_exec (STake t) s = (case sd_pc s t of Searching \<Rightarrow> Some (Inr (run_take t s)) | _ \<Rightarrow> None)"
| "sd_exec (SResume t) s = (case sd_pc s t of Taken f \<Rightarrow> Some (run_resume t f s)
     | TakenFunc c \<Rightarrow> Some (run_resume_func t c s) | _ \<Rightarrow> None)"
| "sd_exec (SStop t y) s = (case sd_pc s t of Running own f \<Rightarrow> Some (run_stop y t own f s) | _ \<Rightarrow> None)"
| "sd_exec (SSwitch t) s = (case sd_pc s t of Switching own f \<Rightarrow> Some (Inr (sd_goto t (Back own f) s)) | _ \<Rightarrow> None)"
| "sd_exec (SBack t) s = (case sd_pc s t of Back own f \<Rightarrow> Some (run_back t own f s) | _ \<Rightarrow> None)"
| "sd_exec (SSubmit k) s = Some (Inr (Submit (Some k) s))"

fun sd_run :: "sd_event list \<Rightarrow> scheduler \<Rightarrow> scheduler res option" where
  "sd_run [] s = Some (Inr s)"
| "sd_run (e # es) s =
     (case sd_exec e s of None \<Rightarrow> None | Some (Inl f) \<Rightarrow> Some (Inl f) | Some (Inr s') \<Rightarrow> sd_run es s')"

text \<open>
  The executions in which a fiber's stop, its switch and the rest of the round are one step, and a fiber
  is submitted only while it is not queued or taken, and stays queued only if it stops in \<open>HOLD\<close>.
\<close>

definition queued :: "scheduler \<Rightarrow> nat list" where
  "queued s = List.map_filter task_fiber (sd_tasks s)"

inductive sd_ideal :: "scheduler \<Rightarrow> bool" where
  ideal_new: "sd_ideal new_scheduler"
| ideal_take: "sd_ideal s \<Longrightarrow> sd_exec (STake t) s = Some (Inr s') \<Longrightarrow> sd_ideal s'"
| ideal_resume: "sd_ideal s \<Longrightarrow> sd_exec (SResume t) s = Some (Inr s') \<Longrightarrow> sd_ideal s'"
| ideal_stop: "sd_ideal s \<Longrightarrow> sd_run [SStop t y, SSwitch t, SBack t] s = Some (Inr s') \<Longrightarrow>
    \<forall>own f. sd_pc s t = Running own f \<longrightarrow> f \<in> set (queued s) \<longrightarrow> y = YieldToHold \<Longrightarrow> sd_ideal s'"
| ideal_func: "sd_ideal s \<Longrightarrow> sd_exec (SSubmit (TaskFunc c th)) s = Some (Inr s') \<Longrightarrow> sd_ideal s'"
| ideal_wake: "sd_ideal s \<Longrightarrow> sd_exec (SSubmit (TaskFiber f th)) s = Some (Inr s') \<Longrightarrow> f < sd_next s \<Longrightarrow>
    f \<notin> set (queued s) \<Longrightarrow> \<forall>t. sd_pc s t \<noteq> Taken f \<Longrightarrow> fb_state (sd_fibers s f) \<in> {HOLD, EXEC} \<Longrightarrow> sd_ideal s'"

section \<open>Lemmas\<close>

lemma take_task_spec:
  "case take_task fibers self q of
     (tickle, None, q') \<Rightarrow> q' = q \<and> (\<forall>u \<in> set q. \<not> runnable fibers self u) \<and>
       (tickle \<longleftrightarrow> (\<exists>u \<in> set q. task_thread u \<noteq> - 1 \<and> task_thread u \<noteq> self))
   | (tickle, Some t, q') \<Rightarrow> tickle \<and> (\<exists>q1 q2. q = q1 @ t # q2 \<and> q' = q1 @ q2 \<and> runnable fibers self t \<and>
       (\<forall>u \<in> set q1. \<not> runnable fibers self u))"
proof (induction q)
  case (Cons u q)
  obtain tickle r q' where r: "take_task fibers self q = (tickle, r, q')" by (metis prod_cases3)
  show ?case
  proof (cases "runnable fibers self u")
    case True
    then have "take_task fibers self (u # q) = (True, Some u, q)"
      by (auto simp: runnable_def split: option.splits)
    then show ?thesis using True by (auto intro: exI [of _ "[]"])
  next
    case False
    then have step: "take_task fibers self (u # q) =
        (task_thread u \<noteq> - 1 \<and> task_thread u \<noteq> self \<or> tickle, r, u # q')"
      using r by (auto simp: runnable_def split: option.splits)
    show ?thesis
    proof (cases r)
      case None
      then show ?thesis using Cons.IH r step False by auto
    next
      case (Some t)
      then obtain q1 q2 where "q = q1 @ t # q2" "q' = q1 @ q2" "runnable fibers self t" "tickle"
        "\<forall>u \<in> set q1. \<not> runnable fibers self u"
        using Cons.IH r by auto
      then show ?thesis using Some step False
        by (simp del: take_task.simps) (intro exI [of _ "u # q1"] exI [of _ q2]; simp)
    qed
  qed
qed simp

abbreviation state_of :: "scheduler \<Rightarrow> nat \<Rightarrow> fstate" where
  "state_of s f \<equiv> fb_state (sd_fibers s f)"

text \<open>
  Queued fibers are distinct and not taken, taken ones are parked, running ones are in \<open>EXEC\<close> on one
  thread, and the fiber that a thread keeps for itself is fresh or running there.
\<close>

definition queue_ok :: "scheduler \<Rightarrow> bool" where
  "queue_ok s \<longleftrightarrow> distinct (queued s) \<and>
     (\<forall>f \<in> set (queued s). f < sd_next s \<and> state_of s f \<in> {HOLD, READY, EXEC} \<and> (\<forall>t. sd_pc s t \<noteq> Taken f))"

definition taken_ok :: "scheduler \<Rightarrow> bool" where
  "taken_ok s \<longleftrightarrow> (\<forall>t f. sd_pc s t = Taken f \<longrightarrow> f < sd_next s \<and> state_of s f \<in> {HOLD, READY} \<and>
     (\<forall>t'. sd_pc s t' = Taken f \<longrightarrow> t' = t))"

definition running_ok :: "scheduler \<Rightarrow> bool" where
  "running_ok s \<longleftrightarrow> (\<forall>t own f. sd_pc s t = Running own f \<longrightarrow> f < sd_next s \<and> state_of s f = EXEC \<and>
     (own \<longleftrightarrow> sd_spare s t = Some f) \<and> (\<forall>t' own'. sd_pc s t' = Running own' f \<longrightarrow> t' = t))"

definition spare_ok :: "scheduler \<Rightarrow> bool" where
  "spare_ok s \<longleftrightarrow> (\<forall>t g. sd_spare s t = Some g \<longrightarrow> g < sd_next s \<and>
     (state_of s g = INIT \<or> sd_pc s t = Running True g) \<and> (\<forall>t'. sd_spare s t' = Some g \<longrightarrow> t' = t))"

definition sd_inv :: "scheduler \<Rightarrow> bool" where
  "sd_inv s \<longleftrightarrow> queue_ok s \<and> taken_ok s \<and> running_ok s \<and> spare_ok s \<and> (\<forall>f < sd_next s. fb_stack (sd_fibers s f))"

lemmas sd_ok_defs = sd_inv_def queue_ok_def taken_ok_def running_ok_def spare_ok_def
lemmas sd_update_defs = sd_goto_def set_fiber_def set_spare_def Submit_def SubmitNoLock_def

lemma inv_queued:
  "sd_inv s \<Longrightarrow> f \<in> set (queued s) \<Longrightarrow> f < sd_next s \<and> state_of s f \<in> {HOLD, READY, EXEC} \<and> sd_pc s t \<noteq> Taken f"
  unfolding sd_inv_def queue_ok_def by blast

lemma inv_taken: "sd_inv s \<Longrightarrow> sd_pc s t = Taken f \<Longrightarrow> f < sd_next s \<and> state_of s f \<in> {HOLD, READY}"
  unfolding sd_inv_def taken_ok_def by blast

lemma inv_running:
  "sd_inv s \<Longrightarrow> sd_pc s t = Running own f \<Longrightarrow> f < sd_next s \<and> state_of s f = EXEC \<and> (own \<longleftrightarrow> sd_spare s t = Some f)"
  unfolding sd_inv_def running_ok_def by blast

lemma inv_spare:
  "sd_inv s \<Longrightarrow> sd_spare s t = Some g \<Longrightarrow> g < sd_next s \<and> (state_of s g = INIT \<or> sd_pc s t = Running True g)"
  unfolding sd_inv_def spare_ok_def by blast

lemma inv_spare_state: "sd_inv s \<Longrightarrow> sd_spare s t = Some g \<Longrightarrow> state_of s g = INIT \<or> state_of s g = EXEC"
  using inv_spare inv_running by blast

lemma inv_unique:
  assumes "sd_inv s"
  shows "sd_pc s t = Taken f \<Longrightarrow> sd_pc s t' = Taken f \<Longrightarrow> t' = t"
    "sd_pc s t = Running own f \<Longrightarrow> sd_pc s t' = Running own' f \<Longrightarrow> t' = t"
    "sd_spare s t = Some f \<Longrightarrow> sd_spare s t' = Some f \<Longrightarrow> t' = t"
  using assms unfolding sd_inv_def taken_ok_def running_ok_def spare_ok_def by blast+

lemma sd_inv_new: "sd_inv new_scheduler"
  by (simp add: sd_ok_defs new_scheduler_def queued_def)

lemma queued_submit [simp]: "queued (Submit (Some k) s) = queued s @ (case task_fiber k of None \<Rightarrow> [] | Some f \<Rightarrow> [f])"
  by (simp add: queued_def Submit_def SubmitNoLock_def List.map_filter_def split: option.split)

lemma sd_inv_submit:
  assumes "sd_inv s" "task_fiber k = None \<or> (\<exists>f. task_fiber k = Some f \<and> f < sd_next s \<and> f \<notin> set (queued s) \<and>
    (\<forall>t. sd_pc s t \<noteq> Taken f) \<and> state_of s f \<in> {HOLD, READY, EXEC})"
  shows "sd_inv (Submit (Some k) s)"
proof -
  have same: "sd_pc (Submit (Some k) s) = sd_pc s" "sd_fibers (Submit (Some k) s) = sd_fibers s"
    "sd_spare (Submit (Some k) s) = sd_spare s" "sd_next (Submit (Some k) s) = sd_next s"
    by (simp_all add: Submit_def)
  have "queue_ok (Submit (Some k) s)"
    using assms unfolding sd_inv_def queue_ok_def same queued_submit by (auto split: option.splits)
  then show ?thesis using assms(1) unfolding sd_inv_def taken_ok_def running_ok_def spare_ok_def same by blast
qed

text \<open>A thread that runs nothing moves to a point where it runs nothing; fibers may leave the queue.\<close>

lemma sd_inv_move:
  assumes "sd_inv s" "\<And>own g. sd_pc s t \<noteq> Running own g" "\<And>own g. pc \<noteq> Running own g"
    "distinct (queued (s\<lparr>sd_tasks := q\<rparr>))" "set (queued (s\<lparr>sd_tasks := q\<rparr>)) \<subseteq> set (queued s)"
    "\<And>f. pc = Taken f \<Longrightarrow> f < sd_next s \<and> state_of s f \<in> {HOLD, READY} \<and>
       f \<notin> set (queued (s\<lparr>sd_tasks := q\<rparr>)) \<and> (\<forall>t'. sd_pc s t' \<noteq> Taken f)"
  shows "sd_inv (sd_goto t pc (s\<lparr>sd_tasks := q\<rparr>))" (is "sd_inv ?s")
proof -
  have eqs: "sd_pc ?s = (sd_pc s)(t := pc)" "sd_spare ?s = sd_spare s" "sd_next ?s = sd_next s"
    "sd_fibers ?s = sd_fibers s" "queued ?s = queued (s\<lparr>sd_tasks := q\<rparr>)"
    by (simp_all add: sd_goto_def queued_def)
  have "queue_ok ?s"
    using assms(4,5,6) inv_queued [OF assms(1)] unfolding queue_ok_def eqs by (auto split: if_splits)
  moreover have "taken_ok ?s"
    using assms(6) inv_taken [OF assms(1)] inv_unique(1) [OF assms(1)] unfolding taken_ok_def eqs
    by (auto split: if_splits)
  moreover have "running_ok ?s"
    using assms(3) inv_running [OF assms(1)] inv_unique(2) [OF assms(1)] unfolding running_ok_def eqs
    by (auto split: if_splits)
  moreover have "spare_ok ?s"
    using assms(2) inv_spare [OF assms(1)] inv_unique(3) [OF assms(1)] unfolding spare_ok_def eqs
    by (metis fun_upd_other)
  ultimately show ?thesis using assms(1) unfolding sd_inv_def by (simp add: eqs)
qed

lemma sd_inv_take:
  assumes "sd_inv s" "sd_pc s t = Searching"
  shows "sd_inv (run_take t s)"
proof (cases "take_task (sd_fibers s) (int t) (sd_tasks s)")
  case (fields tickle r q')
  show ?thesis
  proof (cases r)
    case None
    then show ?thesis using assms(1) fields by (simp add: run_take_def)
  next
    case (Some k)
    then obtain q1 q2 where q: "sd_tasks s = q1 @ k # q2" "q' = q1 @ q2" "runnable (sd_fibers s) (int t) k"
      using take_task_spec [where fibers = "sd_fibers s" and self = "int t" and q = "sd_tasks s"] fields by auto
    let ?q1 = "List.map_filter task_fiber q1" and ?q2 = "List.map_filter task_fiber q2"
    have q': "queued (s\<lparr>sd_tasks := q'\<rparr>) = ?q1 @ ?q2"
      "queued s = ?q1 @ (case task_fiber k of None \<Rightarrow> [] | Some f \<Rightarrow> [f]) @ ?q2"
      using q by (simp_all add: queued_def List.map_filter_def split: option.split)
    moreover have "distinct (queued s)" using assms(1) by (simp add: sd_inv_def queue_ok_def)
    ultimately have dist: "distinct (queued (s\<lparr>sd_tasks := q'\<rparr>))" "set (queued (s\<lparr>sd_tasks := q'\<rparr>)) \<subseteq> set (queued s)"
      by auto
    have "\<exists>pc. run_take t s = sd_goto t pc (s\<lparr>sd_tasks := q'\<rparr>) \<and> (pc = (case k of TaskFiber f _ \<Rightarrow> Taken f | TaskFunc c _ \<Rightarrow> TakenFunc c))"
      using fields Some by (simp add: run_take_def split: task.split)
    then obtain pc where pc: "run_take t s = sd_goto t pc (s\<lparr>sd_tasks := q'\<rparr>)"
      "pc = (case k of TaskFiber f _ \<Rightarrow> Taken f | TaskFunc c _ \<Rightarrow> TakenFunc c)" by blast
    show ?thesis unfolding pc(1)
    proof (rule sd_inv_move [OF assms(1) _ _ dist])
      fix f
      assume "pc = Taken f"
      then have "task_fiber k = Some f" using pc(2) by (cases k) auto
      moreover from this have "f \<in> set (queued s)" "f \<notin> set (queued (s\<lparr>sd_tasks := q'\<rparr>))" "state_of s f \<noteq> EXEC"
        using q' q(3) \<open>distinct (queued s)\<close> by (auto simp: runnable_def)
      ultimately show "f < sd_next s \<and> state_of s f \<in> {HOLD, READY} \<and> f \<notin> set (queued (s\<lparr>sd_tasks := q'\<rparr>)) \<and>
          (\<forall>t'. sd_pc s t' \<noteq> Taken f)"
        using inv_queued [OF assms(1)] by blast
    qed (use assms(2) pc(2) in \<open>auto split: task.splits\<close>)
  qed
qed

lemma queued_upd [simp]:
  "queued (sd_goto t pc s) = queued s" "queued (set_fiber f fb s) = queued s" "queued (set_spare t g s) = queued s"
  "queued (s\<lparr>sd_next := n\<rparr>) = queued s"
  by (simp_all add: queued_def sd_update_defs)

text \<open>
  A fiber that is neither queued, taken, running nor kept gets the state \<open>EXEC\<close> and a thread that was not
  running anything.
\<close>

lemma sd_inv_start:
  assumes "sd_inv s" "f < n" "sd_next s \<le> n" "n = sd_next s \<or> n = Suc (sd_next s) \<and> f = sd_next s" "fb_stack fb" "fb_state fb = EXEC"
    "f \<notin> set (queued s)" "\<And>t' own. sd_pc s t' \<noteq> Running own f" "\<And>t'. sd_pc s t' = Taken f \<Longrightarrow> t' = t"
    "\<And>own g. sd_pc s t \<noteq> Running own g"
    "\<And>t'. t' \<noteq> t \<Longrightarrow> sd_spare s t' \<noteq> Some f" "sd_spare s t = None \<or> sd_spare s t = g" "own \<longleftrightarrow> g = Some f"
    "g = sd_spare s t \<or> own"
  shows "sd_inv (sd_goto t (Running own f) (set_spare t g (set_fiber f fb (s\<lparr>sd_next := n\<rparr>))))" (is "sd_inv ?s")
proof -
  have pc: "sd_pc ?s = (sd_pc s)(t := Running own f)" "sd_spare ?s = (sd_spare s)(t := g)" "sd_next ?s = n"
    "sd_fibers ?s = (sd_fibers s)(f := fb)" "queued ?s = queued s"
    by (simp_all add: sd_goto_def set_spare_def set_fiber_def queued_def)
  have lt: "x < sd_next s \<Longrightarrow> x < n" for x using assms(3) by simp
  have "queue_ok ?s"
    using assms(1,7) inv_queued [OF assms(1)] lt unfolding queue_ok_def pc sd_inv_def
    by (auto split: if_splits)
  moreover have "taken_ok ?s"
    using assms(9) inv_taken [OF assms(1)] inv_unique(1) [OF assms(1)] lt unfolding taken_ok_def pc
    by (auto split: if_splits)
  moreover have "running_ok ?s"
    using assms(2,6,8,13) inv_running [OF assms(1)] inv_unique(2) [OF assms(1)] lt unfolding running_ok_def pc
    by (auto split: if_splits)
  moreover have "spare_ok ?s"
    unfolding spare_ok_def pc
  proof (intro allI impI)
    fix t' g'
    assume g': "((sd_spare s)(t := g)) t' = Some g'"
    have other: "g' \<noteq> f \<and> sd_spare s t' = Some g'" if "\<not> (t' = t \<and> own)"
      using that g' assms(11,13,14) by (cases "t' = t") auto
    have "g' < n"
      using other g' assms(2,13) inv_spare [OF assms(1)] lt by (cases "t' = t \<and> own") auto
    moreover have "fb_state (((sd_fibers s)(f := fb)) g') = INIT \<or> ((sd_pc s)(t := Running own f)) t' = Running True g'"
      using other g' assms(10,13) inv_spare [OF assms(1)] by (cases "t' = t \<and> own"; cases "t' = t") auto
    moreover have "t'' = t'" if "((sd_spare s)(t := g)) t'' = Some g'" for t''
      using that g' assms(11,13,14) other inv_unique(3) [OF assms(1)] by (metis fun_upd_apply option.inject)
    ultimately show "g' < n \<and> (fb_state (((sd_fibers s)(f := fb)) g') = INIT \<or>
        ((sd_pc s)(t := Running own f)) t' = Running True g') \<and>
        (\<forall>t''. ((sd_spare s)(t := g)) t'' = Some g' \<longrightarrow> t'' = t')" by blast
  qed
  moreover have "\<forall>x < n. fb_stack (sd_fibers ?s x)"
    using assms(1,4,5) unfolding sd_inv_def pc by (auto simp: less_Suc_eq)
  ultimately show ?thesis unfolding sd_inv_def by (simp add: pc)
qed

lemma taken_resumes:
  assumes "sd_inv s" "sd_pc s t = Taken f"
  shows "run_resume t f s = Inr (sd_goto t (Running False f) (set_fiber f ((sd_fibers s f)\<lparr>fb_state := EXEC\<rparr>) s))"
  using inv_taken [OF assms] by (auto simp: run_resume_def Fiber_Resume_def isTerminate_def)

lemma sd_inv_resume:
  assumes "sd_inv s" "sd_pc s t = Taken f" "run_resume t f s = Inr s'"
  shows "sd_inv s'"
proof -
  let ?fb = "(sd_fibers s f)\<lparr>fb_state := EXEC\<rparr>"
  have f: "f < sd_next s" "state_of s f \<in> {HOLD, READY}" using inv_taken [OF assms(1,2)] by auto
  have spare: "sd_spare s t' \<noteq> Some f" for t' using inv_spare_state [OF assms(1)] f(2) by fastforce
  have "sd_inv (sd_goto t (Running False f) (set_spare t (sd_spare s t) (set_fiber f ?fb (s\<lparr>sd_next := sd_next s\<rparr>))))"
  proof (rule sd_inv_start [OF assms(1) f(1)])
    show "fb_stack ?fb" using assms(1) f(1) by (simp add: sd_inv_def)
    show "f \<notin> set (queued s)" using inv_queued [OF assms(1), of f t] assms(2) by blast
    show "sd_pc s t' \<noteq> Running own f" for t' own using inv_running [OF assms(1), of t' own f] f(2) by auto
    show "t' = t" if "sd_pc s t' = Taken f" for t' using inv_unique(1) [OF assms(1,2) that] .
  qed (use assms(2) spare in auto)
  moreover have "set_spare t (sd_spare s t) (set_fiber f ?fb (s\<lparr>sd_next := sd_next s\<rparr>)) = set_fiber f ?fb s"
    by (simp add: set_spare_def set_fiber_def)
  ultimately show ?thesis using taken_resumes [OF assms(1,2)] assms(3) by simp
qed

lemma sd_inv_resume_func:
  assumes "sd_inv s" "sd_pc s t = TakenFunc c" "run_resume_func t c s = Inr s'"
  shows "sd_inv s'"
proof (cases "sd_spare s t")
  case None
  let ?fb = "\<lparr>fb_stack = True, fb_state = EXEC, fb_func = Some c\<rparr>" and ?f = "sd_next s"
  have "s' = sd_goto t (Running True ?f) (set_spare t (Some ?f) (set_fiber ?f ?fb (s\<lparr>sd_next := Suc ?f\<rparr>)))"
    using assms(3) None by (simp add: run_resume_func_def new_Fiber_def Fiber_Resume_def Let_def)
  moreover have "?f \<notin> set (queued s)" "sd_pc s t' \<noteq> Taken ?f" "sd_pc s t' \<noteq> Running own ?f" "sd_spare s t' \<noteq> Some ?f"
    for t' own
    using inv_queued [OF assms(1)] inv_taken [OF assms(1)] inv_running [OF assms(1)] inv_spare [OF assms(1)] by blast+
  then have "sd_inv (sd_goto t (Running True ?f) (set_spare t (Some ?f) (set_fiber ?f ?fb (s\<lparr>sd_next := Suc ?f\<rparr>))))"
    by (intro sd_inv_start [OF assms(1)]) (use assms(2) None in auto)
  ultimately show ?thesis by simp
next
  case (Some g)
  let ?fb = "(sd_fibers s g)\<lparr>fb_func := Some c, fb_state := EXEC\<rparr>"
  have g: "g < sd_next s" "state_of s g = INIT" "fb_stack (sd_fibers s g)"
    using inv_spare [OF assms(1) Some] assms(1,2) by (auto simp: sd_inv_def)
  then have "s' = sd_goto t (Running True g) (set_fiber g ?fb s)"
    using assms(3) Some by (simp add: run_resume_func_def Fiber_Reset_def Fiber_Resume_def)
  moreover have "set_spare t (Some g) (set_fiber g ?fb (s\<lparr>sd_next := sd_next s\<rparr>)) = set_fiber g ?fb s"
    using Some by (simp add: set_spare_def set_fiber_def fun_upd_idem)
  moreover have "g \<notin> set (queued s)" "sd_pc s t' \<noteq> Taken g" "sd_pc s t' \<noteq> Running own g" for t' own
    using inv_queued [OF assms(1)] inv_taken [OF assms(1)] inv_running [OF assms(1)] g(2) by fastforce+
  then have "sd_inv (sd_goto t (Running True g) (set_spare t (Some g) (set_fiber g ?fb (s\<lparr>sd_next := sd_next s\<rparr>))))"
    by (intro sd_inv_start [OF assms(1)]) (use assms(2) Some g inv_unique(3) [OF assms(1)] in auto)
  ultimately show ?thesis by simp
qed

text \<open>A thread's fiber stops, and the thread keeps it only if it is fresh again.\<close>

lemma sd_inv_end:
  assumes "sd_inv s" "sd_pc s t = Running own f" "fb_stack fb" "fb_state fb \<noteq> EXEC"
    "f \<in> set (queued s) \<Longrightarrow> fb_state fb = HOLD"
    "g = (if own then if fb_state fb = INIT then Some f else None else sd_spare s t)"
  shows "sd_inv (sd_goto t Searching (set_spare t g (set_fiber f fb s)))" (is "sd_inv ?s")
proof -
  have eqs: "sd_pc ?s = (sd_pc s)(t := Searching)" "sd_spare ?s = (sd_spare s)(t := g)" "sd_next ?s = sd_next s"
    "sd_fibers ?s = (sd_fibers s)(f := fb)" "queued ?s = queued s"
    by (simp_all add: sd_goto_def set_spare_def set_fiber_def queued_def)
  have f: "f < sd_next s" "state_of s f = EXEC" "own \<longleftrightarrow> sd_spare s t = Some f" using inv_running [OF assms(1,2)] by auto
  have nt: "sd_pc s t' \<noteq> Taken f" for t' using inv_taken [OF assms(1)] f(2) by fastforce
  have sp: "sd_spare s t' \<noteq> Some f" if "t' \<noteq> t" for t'
    using that inv_spare [OF assms(1)] f(2) inv_unique(2) [OF assms(1,2)] by fastforce
  have "queue_ok ?s"
    using assms(1,5) inv_queued [OF assms(1)] unfolding queue_ok_def eqs sd_inv_def by auto
  moreover have "taken_ok ?s"
    using nt inv_taken [OF assms(1)] inv_unique(1) [OF assms(1)] unfolding taken_ok_def eqs by (auto split: if_splits)
  moreover have "running_ok ?s"
    using inv_running [OF assms(1)] inv_unique(2) [OF assms(1)] inv_unique(2) [OF assms(1,2)] unfolding running_ok_def eqs
    by (auto split: if_splits)
  moreover have "spare_ok ?s"
    unfolding spare_ok_def eqs
  proof (intro allI impI)
    fix t' g'
    assume g': "((sd_spare s)(t := g)) t' = Some g'"
    show "g' < sd_next s \<and> (fb_state (((sd_fibers s)(f := fb)) g') = INIT \<or>
        ((sd_pc s)(t := Searching)) t' = Running True g') \<and>
        (\<forall>t''. ((sd_spare s)(t := g)) t'' = Some g' \<longrightarrow> t'' = t')"
    proof (cases "t' = t \<and> own")
      case True
      then show ?thesis using g' f sp assms(6) by (auto split: if_splits)
    next
      case False
      then have sg: "sd_spare s t' = Some g'" "g' \<noteq> f" using g' assms(6) f(3) sp by (auto split: if_splits)
      moreover have "sd_pc s t' = Running True g' \<Longrightarrow> t' \<noteq> t" using assms(2) sg(2) by auto
      moreover have "t'' = t'" if "((sd_spare s)(t := g)) t'' = Some g'" for t''
        using that sg(2) assms(6) inv_unique(3) [OF assms(1) sg(1), of t''] by (cases "t'' = t"; cases own) (auto split: if_splits)
      ultimately show ?thesis using inv_spare [OF assms(1) sg(1)] by auto
    qed
  qed
  moreover have "\<forall>x < sd_next s. fb_stack (sd_fibers ?s x)" using assms(1,3) unfolding sd_inv_def eqs by auto
  ultimately show ?thesis unfolding sd_inv_def by (simp add: eqs)
qed

lemma spare_same: "set_spare t (sd_spare s t) s = s"
  by (simp add: set_spare_def)

lemma sd_inv_stop:
  assumes "sd_inv s" "sd_pc s t = Running own f" "sd_run [SStop t y, SSwitch t, SBack t] s = Some (Inr s')"
    "f \<in> set (queued s) \<Longrightarrow> y = YieldToHold"
  shows "sd_inv s'"
proof -
  have f: "f < sd_next s" "fb_stack (sd_fibers s f)" using inv_running [OF assms(1,2)] assms(1) by (auto simp: sd_inv_def)
  have fin: "sd_inv (sd_goto t Searching (set_spare t (if own then if fb_state fb = INIT then Some f else None
      else sd_spare s t) (set_fiber f fb s)))" if "fb_stack fb" "fb_state fb \<noteq> EXEC" "f \<in> set (queued s) \<Longrightarrow> fb_state fb = HOLD" for fb
    using sd_inv_end [OF assms(1,2) that refl] .
  show ?thesis
  proof (cases y)
    case YieldToHold
    then have "s' = sd_goto t Searching (set_spare t (if own then None else sd_spare s t)
        (set_fiber f ((sd_fibers s f)\<lparr>fb_state := HOLD\<rparr>) s))"
      using assms(2,3) by (auto simp: run_stop_def run_back_def isTerminate_def sd_update_defs Let_def)
    then show ?thesis using fin [of "(sd_fibers s f)\<lparr>fb_state := HOLD\<rparr>"] f by (cases own) simp_all
  next
    case YieldToReady
    let ?fb = "(sd_fibers s f)\<lparr>fb_state := READY\<rparr>"
    let ?s = "sd_goto t Searching (set_spare t (if own then None else sd_spare s t) (set_fiber f ?fb s))"
    have q: "f \<notin> set (queued s)" using assms(4) YieldToReady by auto
    have s': "s' = Submit (Some (TaskFiber f (- 1))) ?s"
      using assms(2,3) YieldToReady by (auto simp: run_stop_def run_back_def sd_update_defs Let_def)
    have inv: "sd_inv ?s" using fin [of ?fb] f q by (cases own) simp_all
    have "sd_pc ?s t' \<noteq> Taken f" for t'
      using inv_taken [OF assms(1), of t' f] inv_running [OF assms(1,2)] by (auto simp: sd_update_defs)
    then show ?thesis
      unfolding s' using q f inv by (intro sd_inv_submit) (auto simp: sd_update_defs queued_def)
  next
    case Finish
    let ?fb = "(sd_fibers s f)\<lparr>fb_func := None, fb_state := (if own then INIT else FTERM)\<rparr>"
    have q: "f \<notin> set (queued s)" using assms(4) Finish by auto
    have "s' = sd_goto t Searching (set_spare t (if own then Some f else sd_spare s t) (set_fiber f ?fb s))"
      using assms(2,3) Finish f(2) inv_running [OF assms(1,2)]
      by (auto simp: run_stop_def run_back_def isTerminate_def Fiber_Reset_def sd_update_defs Let_def fun_upd_idem)
    then show ?thesis using fin [of ?fb] f q by (cases own) simp_all
  next
    case Throw
    then show ?thesis using assms(2,3) by (simp add: run_stop_def)
  qed
qed

lemma sd_ideal_inv: "sd_ideal s \<Longrightarrow> sd_inv s"
proof (induction rule: sd_ideal.induct)
  case (ideal_take s t s')
  then show ?case using sd_inv_take by (auto split: sd_pc.splits)
next
  case (ideal_resume s t s')
  then consider f where "sd_pc s t = Taken f" "run_resume t f s = Inr s'"
    | c where "sd_pc s t = TakenFunc c" "run_resume_func t c s = Inr s'"
    by (auto split: sd_pc.splits)
  then show ?case using sd_inv_resume sd_inv_resume_func ideal_resume.IH by cases blast+
next
  case (ideal_stop s t y s')
  then obtain own f where "sd_pc s t = Running own f" by (auto split: sd_pc.splits)
  then show ?case using sd_inv_stop ideal_stop by blast
next
  case (ideal_func s c th s')
  then show ?case using sd_inv_submit [of s "TaskFunc c th"] by auto
next
  case (ideal_wake s f th s')
  then show ?case using sd_inv_submit [of s "TaskFiber f th"] by auto
qed (rule sd_inv_new)

section \<open>Properties\<close>

text \<open>
  C7. A fiber runs on one thread at a time: when stopping, switching back and the rest of the round
  are one step, and no fiber is submitted while it is queued or taken, no two threads run the same
  fiber, and the assertion in \<open>Resume\<close> never fails.
\<close>

theorem fiber_runs_once:
  assumes "sd_ideal s"
  shows "(sd_pc s t = Running own f \<longrightarrow> sd_pc s t' = Running own' f \<longrightarrow> t = t') \<and>
    (sd_pc s t = Taken f \<longrightarrow> (\<exists>s'. sd_exec (SResume t) s = Some (Inr s') \<and> sd_pc s' t = Running False f))"
proof -
  have inv: "sd_inv s" by (rule sd_ideal_inv [OF assms])
  show ?thesis
    using inv_unique(2) [OF inv, of t own f t' own'] taken_resumes [OF inv, of t f]
    by (auto simp: sd_goto_def)
qed

definition parked :: scheduler where
  "parked = \<lparr>sd_tasks = [], sd_fibers = (\<lambda>_. main_Fiber)(0 := \<lparr>fb_stack = True, fb_state = HOLD, fb_func = Some 7\<rparr>),
     sd_next = 1, sd_pc = (\<lambda>_. Searching), sd_spare = (\<lambda>_. None)\<rparr>"

lemmas sd_step_defs = run_take_def run_resume_def run_resume_func_def run_stop_def run_back_def new_Fiber_def
  Fiber_Resume_def Fiber_Reset_def isTerminate_def sd_update_defs

lemma parked_ideal: "sd_ideal parked"
proof -
  let ?fb = "\<lparr>fb_stack = True, fb_state = EXEC, fb_func = Some 7\<rparr>"
  let ?a = "new_scheduler\<lparr>sd_tasks := [TaskFunc 7 (- 1)]\<rparr>"
  let ?b = "new_scheduler\<lparr>sd_pc := (\<lambda>_. Searching)(1 := TakenFunc 7)\<rparr>"
  let ?c = "\<lparr>sd_tasks = [], sd_fibers = (\<lambda>_. main_Fiber)(0 := ?fb), sd_next = 1,
    sd_pc = (\<lambda>_. Searching)(1 := Running True 0), sd_spare = (\<lambda>_. None)(1 := Some 0)\<rparr>"
  have "sd_ideal ?a"
    by (rule ideal_func [OF ideal_new, of 7 "- 1"]) (simp add: sd_update_defs new_scheduler_def)
  then have "sd_ideal ?b"
    by (rule ideal_take [of _ 1]) (simp add: sd_step_defs new_scheduler_def)
  then have "sd_ideal ?c"
    by (rule ideal_resume [of _ 1]) (simp add: sd_step_defs new_scheduler_def Let_def)
  then show ?thesis
    by (rule ideal_stop [of _ 1 YieldToHold]) (simp_all add: sd_step_defs parked_def Let_def fun_eq_iff)
qed

theorem fiber_runs_once_witness:
  "\<exists>s s'. sd_run [SSubmit (TaskFiber 0 (- 1)), STake 2] parked = Some (Inr s) \<and> sd_pc s 2 = Taken 0 \<and>
    sd_exec (SResume 2) s = Some (Inr s') \<and> sd_pc s' 2 = Running False 0"
proof -
  let ?a = "parked\<lparr>sd_tasks := [TaskFiber 0 (- 1)]\<rparr>" and ?b = "parked\<lparr>sd_pc := (\<lambda>_. Searching)(2 := Taken 0)\<rparr>"
  have "sd_ideal ?a"
    by (rule ideal_wake [OF parked_ideal, of 0 "- 1"])
      (simp_all add: sd_update_defs parked_def queued_def List.map_filter_def)
  moreover have step: "sd_exec (STake 2) ?a = Some (Inr ?b)" by (simp add: sd_step_defs parked_def)
  ultimately have "sd_ideal ?b" by (rule ideal_take)
  moreover have "sd_run [SSubmit (TaskFiber 0 (- 1)), STake 2] parked = Some (Inr ?b)"
    using step by (simp add: Submit_def SubmitNoLock_def parked_def)
  ultimately show ?thesis using fiber_runs_once [of ?b 2 False 0 2 False] by auto
qed

text \<open>
  Two races of the scheduler. A fiber that was submitted before it parks can be taken and
  resumed by another thread as soon as its state is \<open>HOLD\<close>, while its own thread has not saved its
  context yet: two threads are inside the same fiber. And a fiber that is submitted twice is taken
  by two threads, the second of which fails the assertion in \<open>Resume\<close>.
\<close>

theorem scheduler_races:
  "(\<exists>s. sd_run [SSubmit (TaskFunc 7 (- 1)), STake 1, SResume 1, SSubmit (TaskFiber 0 (- 1)),
      SStop 1 YieldToHold, STake 2, SResume 2] new_scheduler = Some (Inr s) \<and>
    sd_pc s 1 = Switching True 0 \<and> sd_pc s 2 = Running False 0) \<and>
   sd_run [SSubmit (TaskFunc 7 (- 1)), STake 1, SResume 1, SStop 1 YieldToHold, SSwitch 1, SBack 1,
      SSubmit (TaskFiber 0 (- 1)), SSubmit (TaskFiber 0 (- 1)), STake 1, STake 2, SResume 1, SResume 2]
      new_scheduler = Some (Inl AssertFail)"
  by (simp add: sd_step_defs new_scheduler_def Let_def)

text \<open>
  A thread takes the first task of the queue that it may run, that is, one that is not pinned to another
  thread and whose fiber is not running, and leaves all others in their order; it finds none only
  if there is none. Others are notified if a task was taken or one is pinned to another thread.
\<close>

theorem first_runnable_task_taken:
  "case take_task fibers self q of
     (tickle, None, q') \<Rightarrow> q' = q \<and> (\<forall>u \<in> set q. \<not> runnable fibers self u) \<and>
       (tickle \<longleftrightarrow> (\<exists>u \<in> set q. task_thread u \<noteq> - 1 \<and> task_thread u \<noteq> self))
   | (tickle, Some t, q') \<Rightarrow> tickle \<and> (\<exists>q1 q2. q = q1 @ t # q2 \<and> q' = q1 @ q2 \<and> runnable fibers self t \<and>
       (\<forall>u \<in> set q1. \<not> runnable fibers self u))"
  by (rule take_task_spec)

theorem first_runnable_task_taken_witness:
  "\<exists>q1 q2. take_task (\<lambda>_. main_Fiber) 1 [TaskFiber 0 (- 1), TaskFunc 5 2, TaskFunc 6 (- 1), TaskFunc 7 (- 1)] =
      (True, Some (TaskFunc 6 (- 1)), q1 @ q2) \<and>
    [TaskFiber 0 (- 1), TaskFunc 5 2, TaskFunc 6 (- 1), TaskFunc 7 (- 1)] = q1 @ TaskFunc 6 (- 1) # q2"
proof -
  let ?q = "[TaskFiber 0 (- 1), TaskFunc 5 2, TaskFunc 6 (- 1), TaskFunc 7 (- 1)]"
  have "take_task (\<lambda>_. main_Fiber) 1 ?q =
      (True, Some (TaskFunc 6 (- 1)), [TaskFiber 0 (- 1), TaskFunc 5 2, TaskFunc 7 (- 1)])"
    by (simp add: main_Fiber_def)
  then show ?thesis
    using first_runnable_task_taken [where fibers = "\<lambda>_. main_Fiber" and self = 1 and q = ?q] by auto
qed

end
