(* ===== verification/Fd_Manager.thy ===== *)
theory Fd_Manager
  imports Prelude
begin

text \<open>
  The contexts of file descriptors (\<open>include/fd_manager.h\<close>, \<open>src/fd_manager.cc\<close>).

  The operating system is a record of what the code asks it: whether a descriptor is open and a socket
  (\<open>fstat\<close>), and its file status flags (\<open>fcntl\<close>). Descriptors are \<open>int\<close>. A context is reached through
  shared pointers, but only ever changed right after it was looked up, so the list holds the objects
  themselves.
\<close>

section \<open>The operating system\<close>

record os =
  os_stat :: "int \<Rightarrow> bool option"
  os_flags :: "int \<Rightarrow> u32"

definition O_NONBLOCK :: u32 where "O_NONBLOCK = 0x800"

text \<open>The flags that \<open>F_SETFL\<close> can change on Linux; all others keep their value.\<close>

definition SETFL_MASK :: u32 where "SETFL_MASK = 0x46C00"

definition os_setfl :: "int \<Rightarrow> u32 \<Rightarrow> os \<Rightarrow> os" where
  "os_setfl fd arg os = os\<lparr>os_flags := (os_flags os)(fd :=
     (os_flags os fd AND NOT SETFL_MASK) OR (arg AND SETFL_MASK))\<rparr>"

definition nonblocking :: "os \<Rightarrow> int \<Rightarrow> bool" where
  "nonblocking os fd \<longleftrightarrow> os_flags os fd AND O_NONBLOCK \<noteq> 0"

section \<open>Contexts\<close>

record fd_context =
  fc_fd :: int
  fc_is_init :: bool
  fc_is_close :: bool
  fc_is_socket :: bool
  fc_sys_nonblock :: bool
  fc_user_nonblock :: bool
  fc_sendTimeout :: u64
  fc_recvTimeout :: u64

definition FdContext_init :: "os \<Rightarrow> fd_context \<Rightarrow> bool \<times> os \<times> fd_context" where
  "FdContext_init os c =
     (if fc_is_init c then (True, os, c)
      else let (os, c) =
             (case os_stat os (fc_fd c) of
                None \<Rightarrow> (os, c\<lparr>fc_is_socket := False, fc_is_init := False\<rparr>)
              | Some sock \<Rightarrow>
                  let c = c\<lparr>fc_is_socket := sock\<rparr> in
                  if sock
                  then let flag = os_flags os (fc_fd c);
                           os = (if flag AND O_NONBLOCK = 0 then os_setfl (fc_fd c) (flag OR O_NONBLOCK) os else os)
                       in (os, c\<lparr>fc_sys_nonblock := True\<rparr>)
                  else (os, c\<lparr>fc_sys_nonblock := False\<rparr>));
             c = c\<lparr>fc_user_nonblock := False, fc_is_close := False\<rparr>
           in (fc_is_init c, os, c))"

definition new_FdContext :: "os \<Rightarrow> int \<Rightarrow> os \<times> fd_context" where
  "new_FdContext os fd = snd (FdContext_init os
     \<lparr>fc_fd = fd, fc_is_init = False, fc_is_close = False, fc_is_socket = False, fc_sys_nonblock = False,
      fc_user_nonblock = False, fc_sendTimeout = - 1, fc_recvTimeout = - 1\<rparr>)"

definition SO_RCVTIMEO :: nat where "SO_RCVTIMEO = 20"
definition SO_SNDTIMEO :: nat where "SO_SNDTIMEO = 21"

definition fc_setTimeout :: "nat \<Rightarrow> u64 \<Rightarrow> fd_context \<Rightarrow> fd_context" where
  "fc_setTimeout type time c =
     (if type = SO_RCVTIMEO then c\<lparr>fc_recvTimeout := time\<rparr> else c\<lparr>fc_sendTimeout := time\<rparr>)"

definition fc_getTimeout :: "nat \<Rightarrow> fd_context \<Rightarrow> u64" where
  "fc_getTimeout type c = (if type = SO_RCVTIMEO then fc_recvTimeout c else fc_sendTimeout c)"

definition fc_setUserNonblock :: "bool \<Rightarrow> fd_context \<Rightarrow> fd_context" where
  "fc_setUserNonblock f c = c\<lparr>fc_user_nonblock := f\<rparr>"

section \<open>The manager\<close>

type_synonym fd_list = "fd_context option list"

definition new_FdManager :: fd_list where
  "new_FdManager = replicate 64 None"

text \<open>Neither the creation nor anything else makes the list longer.\<close>

definition fd_create :: "int \<Rightarrow> os \<Rightarrow> fd_list \<Rightarrow> (fd_context option \<times> os \<times> fd_list) res" where
  "fd_create fd os l =
     (case new_FdContext os fd of (os, c) \<Rightarrow>
        if 0 \<le> fd \<and> fd < int (length l) then Inr (Some c, os, l[nat fd := Some c]) else Inl OutOfBounds)"

definition getFdContext :: "int \<Rightarrow> bool \<Rightarrow> os \<Rightarrow> fd_list \<Rightarrow> (fd_context option \<times> os \<times> fd_list) res" where
  "getFdContext fd auto_create os l =
     (if int (length l) \<le> fd
      then if \<not> auto_create then Inr (None, os, l) else fd_create fd os l
      else if fd < 0 then Inl OutOfBounds
      else if l ! nat fd \<noteq> None \<or> \<not> auto_create then Inr (l ! nat fd, os, l)
      else fd_create fd os l)"

definition delFdContext :: "int \<Rightarrow> fd_list \<Rightarrow> fd_list res" where
  "delFdContext fd l =
     (if int (length l) \<le> fd then Inr l
      else if fd < 0 then Inl OutOfBounds
      else Inr (l[nat fd := None]))"

section \<open>Lemmas\<close>

lemma O_NONBLOCK_exp: "O_NONBLOCK = 2 ^ 11"
  by (simp add: O_NONBLOCK_def)

lemma bit_O_NONBLOCK [simp]: "bit O_NONBLOCK n \<longleftrightarrow> n = 11"
  unfolding O_NONBLOCK_exp bit_exp_iff by auto

lemma bit_SETFL_MASK [simp]: "bit SETFL_MASK 11"
  by (simp add: SETFL_MASK_def)

lemma O_NONBLOCK_bit: "x AND O_NONBLOCK = 0 \<longleftrightarrow> \<not> bit x 11"
  unfolding O_NONBLOCK_exp by (rule and_exp_eq_0_iff_not_bit)

lemma O_NONBLOCK_masks:
  "(x OR O_NONBLOCK) AND O_NONBLOCK = O_NONBLOCK" "(x AND NOT O_NONBLOCK) AND O_NONBLOCK = 0"
  "x AND O_NONBLOCK = (if x AND O_NONBLOCK \<noteq> 0 then O_NONBLOCK else 0)"
  by (rule bit_word_eqI; auto simp: bit_and_iff bit_or_iff bit_not_iff O_NONBLOCK_bit)+

lemma nonblocking_bit: "nonblocking os fd \<longleftrightarrow> bit (os_flags os fd) 11"
  by (simp add: nonblocking_def O_NONBLOCK_bit)

lemma os_setfl_bit: "bit (os_flags (os_setfl fd arg os) x) 11 = bit (if x = fd then arg else os_flags os x) 11"
  by (simp add: os_setfl_def bit_or_iff bit_and_iff bit_not_iff)

lemma os_setfl_stat [simp]: "os_stat (os_setfl fd arg os) = os_stat os"
  by (simp add: os_setfl_def)

text \<open>What the constructor of a context leaves.\<close>

lemma new_FdContext_eq:
  assumes "new_FdContext os fd = (os', c)"
  shows "fc_fd c = fd" "fc_is_socket c = (os_stat os fd = Some True)" "fc_sys_nonblock c = fc_is_socket c"
    "\<not> fc_user_nonblock c" "\<not> fc_is_close c" "os_stat os' = os_stat os"
    "nonblocking os' x = (nonblocking os x \<or> x = fd \<and> fc_is_socket c)"
  using assms
  by (auto simp: new_FdContext_def FdContext_init_def Let_def nonblocking_bit os_setfl_bit O_NONBLOCK_bit
      bit_or_iff split: option.splits if_splits)

lemma fd_create_eq:
  assumes "0 \<le> fd" "fd < int (length l)"
  shows "\<exists>os' c. fd_create fd os l = Inr (Some c, os', l[nat fd := Some c]) \<and> new_FdContext os fd = (os', c)"
  using assms by (auto simp: fd_create_def split: prod.splits)

end
