(* ===== verification/Hook.thy ===== *)
theory Hook
  imports Fd_Manager
begin

text \<open>
  The hooked system calls (\<open>src/hook.cc\<close>): calls that would block suspend the fiber instead and are
  tried again when the IO manager wakes it.

  \<open>en\<close> is the thread's \<open>t_hook_enable\<close>. The outcomes of the original calls are arguments: a list with one
  entry per attempt, and a list of what happens in each suspension. What the code asks of the IO
  manager is returned as a list of effects. A call whose script has run out is still suspended, which is the result
  \<open>None\<close>.
\<close>

section \<open>Calls\<close>

text \<open>\<open>IoErr e\<close> is the return value \<open>-1\<close> with \<open>errno = e\<close>.\<close>

datatype io_ret = IoRet int | IoErr nat

definition EINTR :: nat where "EINTR = 4"
definition EBADF :: nat where "EBADF = 9"
definition EAGAIN :: nat where "EAGAIN = 11"
definition ETIMEDOUT :: nat where "ETIMEDOUT = 110"
definition EINPROGRESS :: nat where "EINPROGRESS = 115"

datatype io_event = EvRead | EvWrite

datatype hk_effect = OrigCall | ArmTimer u64 | AddEvent io_event | Hold | CancelTimer | CancelAllEvent int

text \<open>\<open>addEvent\<close> fails and leaves \<open>errno\<close>, or the fiber is held and woken, by its timer or not.\<close>

datatype hk_wait = EventFailed nat | Woken bool

record hook_state =
  hk_os :: os
  hk_fds :: fd_list

definition arm :: "u64 \<Rightarrow> hk_effect list" where
  "arm timeout = (if timeout \<noteq> - 1 then [ArmTimer timeout] else [])"

definition disarm :: "u64 \<Rightarrow> hk_effect list" where
  "disarm timeout = (if timeout \<noteq> - 1 then [CancelTimer] else [])"

text \<open>The part of \<open>do_io\<close> from the label \<open>retry\<close>.\<close>

fun do_io_loop :: "u64 \<Rightarrow> io_event \<Rightarrow> io_ret list \<Rightarrow> hk_wait list \<Rightarrow> (io_ret \<times> hk_effect list) option" where
  "do_io_loop timeout ev [] ws = None"
| "do_io_loop timeout ev (IoRet n # rs) ws = Some (IoRet n, [OrigCall])"
| "do_io_loop timeout ev (IoErr e # rs) ws =
     (if e = EINTR then map_option (apsnd ((@) [OrigCall])) (do_io_loop timeout ev rs ws)
      else if e = EAGAIN then
        (case ws of
           [] \<Rightarrow> None
         | EventFailed e' # ws' \<Rightarrow> Some (IoErr e', [OrigCall] @ arm timeout @ [AddEvent ev] @ disarm timeout)
         | Woken timedout # ws' \<Rightarrow>
             let pre = [OrigCall] @ arm timeout @ [AddEvent ev, Hold] @ disarm timeout in
             if timedout \<and> timeout \<noteq> - 1 then Some (IoErr ETIMEDOUT, pre)
             else map_option (apsnd ((@) pre)) (do_io_loop timeout ev rs ws'))
      else Some (IoErr e, [OrigCall]))"

definition orig_call :: "io_ret list \<Rightarrow> (io_ret \<times> hk_effect list) option" where
  "orig_call rs = (case rs of [] \<Rightarrow> None | r # _ \<Rightarrow> Some (r, [OrigCall]))"

definition do_io :: "bool \<Rightarrow> int \<Rightarrow> io_event \<Rightarrow> io_ret list \<Rightarrow> hk_wait list \<Rightarrow> hook_state \<Rightarrow>
    (io_ret \<times> hk_effect list) option res" where
  "do_io en fd ev rs ws st =
     (if \<not> en then Inr (orig_call rs)
      else bindE (getFdContext fd False (hk_os st) (hk_fds st)) (\<lambda>(ctx, _).
        Inr (case ctx of
               None \<Rightarrow> orig_call rs
             | Some c \<Rightarrow>
                 if fc_is_close c then Some (IoErr EBADF, [])
                 else if \<not> fc_is_socket c \<or> fc_user_nonblock c then orig_call rs
                 else do_io_loop (case ev of EvRead \<Rightarrow> fc_getTimeout SO_RCVTIMEO c
                                  | EvWrite \<Rightarrow> fc_getTimeout SO_SNDTIMEO c) ev rs ws)))"

text \<open>The reading and the writing calls.\<close>

definition hook_read where "hook_read en fd rs ws st = do_io en fd EvRead rs ws st"
definition hook_write where "hook_write en fd rs ws st = do_io en fd EvWrite rs ws st"

section \<open>Sleeping\<close>

text \<open>\<open>iom\<close> tells whether the thread has an IO manager; the timer armed submits the fiber again.\<close>

definition hold_for :: "bool \<Rightarrow> u64 \<Rightarrow> hk_effect list res" where
  "hold_for iom ms = (if iom then Inr [ArmTimer ms, Hold] else Inl AssertFail)"

definition hook_sleep :: "bool \<Rightarrow> bool \<Rightarrow> u32 \<Rightarrow> hk_effect list res" where
  "hook_sleep en iom seconds = (if \<not> en then Inr [OrigCall] else hold_for iom (ucast (seconds * 1000)))"

definition hook_usleep :: "bool \<Rightarrow> bool \<Rightarrow> u32 \<Rightarrow> hk_effect list res" where
  "hook_usleep en iom usec = (if \<not> en then Inr [OrigCall] else hold_for iom (ucast (usec div 1000)))"

text \<open>\<open>time_ms\<close> is an \<open>int\<close>, and \<open>addTimer\<close> takes an \<open>uint64_t\<close>; \<open>tv_nsec\<close> is not negative.\<close>

definition hook_nanosleep :: "bool \<Rightarrow> bool \<Rightarrow> u64 \<Rightarrow> u64 \<Rightarrow> hk_effect list res" where
  "hook_nanosleep en iom tv_sec tv_nsec =
     (if \<not> en then Inr [OrigCall]
      else hold_for iom (scast (ucast (tv_sec * 1000 + tv_nsec div 1000 div 1000) :: u32)))"

section \<open>Sockets\<close>

text \<open>The original \<open>socket\<close> fails or opens a descriptor with some status flags.\<close>

definition os_open :: "int \<Rightarrow> u32 \<Rightarrow> os \<Rightarrow> os" where
  "os_open fd flags os = os\<lparr>os_stat := (os_stat os)(fd \<mapsto> True), os_flags := (os_flags os)(fd := flags)\<rparr>"

definition os_close :: "int \<Rightarrow> os \<Rightarrow> os" where
  "os_close fd os = os\<lparr>os_stat := (os_stat os)(fd := None)\<rparr>"

definition hook_register :: "int \<Rightarrow> hook_state \<Rightarrow> hook_state res" where
  "hook_register fd st =
     bindE (getFdContext fd True (hk_os st) (hk_fds st)) (\<lambda>(_, os, l). Inr \<lparr>hk_os = os, hk_fds = l\<rparr>)"

definition hook_socket :: "bool \<Rightarrow> (int \<times> u32) option \<Rightarrow> hook_state \<Rightarrow> (int \<times> hook_state) res" where
  "hook_socket en opened st =
     (case opened of
        None \<Rightarrow> Inr (- 1, st)
      | Some (fd, flags) \<Rightarrow>
          let st = st\<lparr>hk_os := os_open fd flags (hk_os st)\<rparr> in
          if \<not> en then Inr (fd, st) else bindE (hook_register fd st) (\<lambda>st. Inr (fd, st)))"

text \<open>The successful attempt of \<open>accept\<close> has opened the descriptor it returns.\<close>

definition hook_accept :: "bool \<Rightarrow> int \<Rightarrow> io_ret list \<Rightarrow> hk_wait list \<Rightarrow> hook_state \<Rightarrow>
    ((io_ret \<times> hk_effect list) option \<times> hook_state) res" where
  "hook_accept en sockfd rs ws st =
     bindE (do_io en sockfd EvRead rs ws st) (\<lambda>out.
     case out of
       Some (IoRet fd, eff) \<Rightarrow>
         if 0 \<le> fd then
           let st = st\<lparr>hk_os := os_open fd 0 (hk_os st)\<rparr> in
           if en then bindE (hook_register fd st) (\<lambda>st. Inr (out, st)) else Inr (out, st)
         else Inr (out, st)
     | _ \<Rightarrow> Inr (out, st))"

text \<open>
  \<open>n\<close> is the outcome of the original \<open>connect\<close>, \<open>so_error\<close> that of the final \<open>getsockopt\<close>: its errno
  or the pending error of the socket.
\<close>

definition connect_with_timeout :: "bool \<Rightarrow> bool \<Rightarrow> int \<Rightarrow> u64 \<Rightarrow> io_ret \<Rightarrow> hk_wait \<Rightarrow> nat + nat \<Rightarrow> hook_state \<Rightarrow>
    (io_ret \<times> hk_effect list) res" where
  "connect_with_timeout en iom fd timeout n wait so_error st =
     (if \<not> en then Inr (n, [OrigCall])
      else bindE (getFdContext fd False (hk_os st) (hk_fds st)) (\<lambda>(ctx, _).
        case ctx of
          None \<Rightarrow> Inr (IoErr EBADF, [])
        | Some c \<Rightarrow>
            if fc_is_close c then Inr (IoErr EBADF, [])
            else if \<not> fc_is_socket c \<or> fc_user_nonblock c then Inr (n, [OrigCall])
            else if n \<noteq> IoErr EINPROGRESS then Inr (n, [OrigCall])
            else if \<not> iom then Inl AssertFail
            else (case wait of
                EventFailed e \<Rightarrow> Inr (IoErr e, [OrigCall] @ arm timeout @ [AddEvent EvWrite] @ disarm timeout)
              | Woken timedout \<Rightarrow>
                  let eff = [OrigCall] @ arm timeout @ [AddEvent EvWrite, Hold] @ disarm timeout in
                  Inr (if timedout \<and> timeout \<noteq> - 1 then IoErr ETIMEDOUT
                       else case so_error of Inl e \<Rightarrow> IoErr e
                         | Inr error \<Rightarrow> if error = 0 then IoRet 0 else IoErr error, eff))))"

definition s_connect_timeout :: u64 where "s_connect_timeout = - 1"

definition hook_connect where
  "hook_connect en iom fd n wait so_error st = connect_with_timeout en iom fd s_connect_timeout n wait so_error st"

definition hook_close :: "bool \<Rightarrow> bool \<Rightarrow> int \<Rightarrow> hook_state \<Rightarrow> (hk_effect list \<times> hook_state) res" where
  "hook_close en iom fd st =
     (if \<not> en then Inr ([OrigCall], st\<lparr>hk_os := os_close fd (hk_os st)\<rparr>)
      else bindE (getFdContext fd False (hk_os st) (hk_fds st)) (\<lambda>(ctx, _).
        case ctx of
          None \<Rightarrow> Inr ([OrigCall], st\<lparr>hk_os := os_close fd (hk_os st)\<rparr>)
        | Some c \<Rightarrow> bindE (delFdContext fd (hk_fds st)) (\<lambda>l.
            Inr ((if iom then [CancelAllEvent fd] else []) @ [OrigCall],
                 \<lparr>hk_os = os_close fd (hk_os st), hk_fds = l\<rparr>))))"

section \<open>Flags and options\<close>

text \<open>The context of a descriptor that \<open>fcntl\<close> and \<open>ioctl\<close> treat specially: that of an open socket.\<close>

definition socket_context :: "int \<Rightarrow> hook_state \<Rightarrow> fd_context option res" where
  "socket_context fd st =
     bindE (getFdContext fd False (hk_os st) (hk_fds st)) (\<lambda>(ctx, _).
     Inr (case ctx of None \<Rightarrow> None | Some c \<Rightarrow> if fc_is_close c \<or> \<not> fc_is_socket c then None else Some c))"

definition set_context :: "int \<Rightarrow> fd_context \<Rightarrow> hook_state \<Rightarrow> hook_state" where
  "set_context fd c st = st\<lparr>hk_fds := (hk_fds st)[nat fd := Some c]\<rparr>"

text \<open>\<open>fcntl(fd, F_SETFL, arg)\<close>; the result is that of the original call, \<open>0\<close> on an open descriptor.\<close>

definition hook_setfl :: "int \<Rightarrow> u32 \<Rightarrow> hook_state \<Rightarrow> hook_state res" where
  "hook_setfl fd arg st =
     bindE (socket_context fd st) (\<lambda>ctx.
     Inr (case ctx of
            None \<Rightarrow> st\<lparr>hk_os := os_setfl fd arg (hk_os st)\<rparr>
          | Some c \<Rightarrow>
              let st = set_context fd (fc_setUserNonblock (arg AND O_NONBLOCK \<noteq> 0) c) st;
                  arg = (if fc_sys_nonblock c then arg OR O_NONBLOCK else arg AND NOT O_NONBLOCK)
              in st\<lparr>hk_os := os_setfl fd arg (hk_os st)\<rparr>))"

text \<open>\<open>fcntl(fd, F_GETFL)\<close>.\<close>

definition hook_getfl :: "int \<Rightarrow> hook_state \<Rightarrow> u32 res" where
  "hook_getfl fd st =
     bindE (socket_context fd st) (\<lambda>ctx.
     let arg = os_flags (hk_os st) fd in
     Inr (case ctx of
            None \<Rightarrow> arg
          | Some c \<Rightarrow> if fc_user_nonblock c then arg OR O_NONBLOCK else arg AND NOT O_NONBLOCK))"

text \<open>
  The other commands are passed on: with their argument if they are in one of the lists of the
  switch, without it otherwise.
\<close>

datatype fcntl_cmd = F_DUPFD | F_DUPFD_CLOEXEC | F_SETFD | F_SETOWN | F_SETSIG | F_SETLEASE | F_NOTIFY
  | F_GETFD | F_GETOWN | F_GETSIG | F_GETLEASE | F_SETLK | F_SETLKW | F_GETLK | F_GETOWN_EX | F_SETOWN_EX
  | F_OTHER nat

fun fcntl_passed :: "fcntl_cmd \<Rightarrow> u64 \<Rightarrow> fcntl_cmd \<times> u64 option" where
  "fcntl_passed F_GETFD arg = (F_GETFD, None)"
| "fcntl_passed F_GETOWN arg = (F_GETOWN, None)"
| "fcntl_passed F_GETSIG arg = (F_GETSIG, None)"
| "fcntl_passed F_GETLEASE arg = (F_GETLEASE, None)"
| "fcntl_passed (F_OTHER n) arg = (F_OTHER n, None)"
| "fcntl_passed cmd arg = (cmd, Some arg)"

text \<open>\<open>ioctl(fd, FIONBIO, &value)\<close>: the original call sets the flag to the value.\<close>

definition hook_ioctl_FIONBIO :: "int \<Rightarrow> u32 \<Rightarrow> hook_state \<Rightarrow> hook_state res" where
  "hook_ioctl_FIONBIO fd value st =
     bindE (socket_context fd st) (\<lambda>ctx.
     let st = (case ctx of None \<Rightarrow> st | Some c \<Rightarrow> set_context fd (fc_setUserNonblock (value \<noteq> 0) c) st);
         flags = os_flags (hk_os st) fd
     in Inr (st\<lparr>hk_os := os_setfl fd (if value \<noteq> 0 then flags OR O_NONBLOCK else flags AND NOT O_NONBLOCK) (hk_os st)\<rparr>))"

definition SOL_SOCKET :: nat where "SOL_SOCKET = 1"

text \<open>\<open>setsockopt\<close> with a \<open>timeval\<close> whose fields are not negative.\<close>

definition hook_setsockopt :: "bool \<Rightarrow> int \<Rightarrow> nat \<Rightarrow> nat \<Rightarrow> u64 \<Rightarrow> u64 \<Rightarrow> hook_state \<Rightarrow> hook_state res" where
  "hook_setsockopt en fd level optname tv_sec tv_usec st =
     (if en \<and> level = SOL_SOCKET \<and> (optname = SO_RCVTIMEO \<or> optname = SO_SNDTIMEO)
      then bindE (getFdContext fd False (hk_os st) (hk_fds st)) (\<lambda>(ctx, _).
        Inr (case ctx of None \<Rightarrow> st
             | Some c \<Rightarrow> set_context fd (fc_setTimeout optname (tv_sec * 1000 + tv_usec div 1000) c) st))
      else Inr st)"

section \<open>Executions\<close>

text \<open>
  The calls \<open>socket\<close>, \<open>accept\<close>, \<open>close\<close>, \<open>fcntl\<close> and \<open>setsockopt\<close> of threads with hooks enabled, in any order; the kernel
  hands out descriptors that are not in use. \<open>ioctl(FIONBIO)\<close> is not among them: it undoes what the others keep.
\<close>

inductive hook_reach :: "hook_state \<Rightarrow> bool" where
  hook_start: "hook_reach \<lparr>hk_os = os, hk_fds = new_FdManager\<rparr>"
| hook_socket_step: "hook_reach st \<Longrightarrow> \<forall>fd flags. opened = Some (fd, flags) \<longrightarrow> os_stat (hk_os st) fd = None \<Longrightarrow>
    hook_socket True opened st = Inr (r, st') \<Longrightarrow> hook_reach st'"
| hook_accept_step: "hook_reach st \<Longrightarrow> hook_accept True fd rs ws st = Inr (out, st') \<Longrightarrow>
    \<forall>n eff. out = Some (IoRet n, eff) \<longrightarrow> os_stat (hk_os st) n = None \<Longrightarrow> hook_reach st'"
| hook_close_step: "hook_reach st \<Longrightarrow> hook_close True iom fd st = Inr (eff, st') \<Longrightarrow> hook_reach st'"
| hook_setfl_step: "hook_reach st \<Longrightarrow> hook_setfl fd arg st = Inr st' \<Longrightarrow> hook_reach st'"
| hook_opt_step: "hook_reach st \<Longrightarrow> hook_setsockopt True fd level opt sec usec st = Inr st' \<Longrightarrow> hook_reach st'"

text \<open>Every context belongs to an open descriptor, and those of sockets are non-blocking in the kernel.\<close>

definition ctx_ok :: "os \<Rightarrow> nat \<Rightarrow> fd_context option \<Rightarrow> bool" where
  "ctx_ok os i ctx \<longleftrightarrow> (case ctx of None \<Rightarrow> True
     | Some c \<Rightarrow> os_stat os (int i) \<noteq> None \<and> \<not> fc_is_close c \<and> (fc_is_socket c \<longrightarrow> fc_sys_nonblock c \<and> nonblocking os (int i)))"

definition hook_inv :: "hook_state \<Rightarrow> bool" where
  "hook_inv st \<longleftrightarrow> length (hk_fds st) = 64 \<and> (\<forall>i < 64. ctx_ok (hk_os st) i (hk_fds st ! i))"

lemma ctx_ok_None [simp]: "ctx_ok os i None"
  by (simp add: ctx_ok_def)

lemma nonblocking_open: "x \<noteq> fd \<Longrightarrow> nonblocking (os_open fd flags os) x = nonblocking os x"
  by (simp add: nonblocking_def os_open_def)

lemma nonblocking_close [simp]: "nonblocking (os_close fd os) x = nonblocking os x"
  by (simp add: nonblocking_def os_close_def)

lemma hook_inv_update:
  assumes "hook_inv st" "0 \<le> fd" "ctx_ok os' (nat fd) ctx"
    "\<And>i. int i \<noteq> fd \<Longrightarrow> ctx_ok (hk_os st) i (hk_fds st ! i) \<Longrightarrow> ctx_ok os' i (hk_fds st ! i)"
  shows "hook_inv \<lparr>hk_os = os', hk_fds = (hk_fds st)[nat fd := ctx]\<rparr>"
proof -
  have "ctx_ok os' i ((hk_fds st)[nat fd := ctx] ! i)" if "i < 64" for i
    using assms that by (cases "int i = fd") (auto simp: hook_inv_def nth_list_update)
  then show ?thesis using assms(1) by (simp add: hook_inv_def)
qed

text \<open>Opening a descriptor that is not in use and registering it.\<close>

lemma hook_register_inv:
  assumes "hook_inv st" "os_stat (hk_os st) fd = None"
    "hook_register fd (st\<lparr>hk_os := os_open fd flags (hk_os st)\<rparr>) = Inr st'"
  shows "hook_inv st' \<and> 0 \<le> fd \<and> fd < 64 \<and> (\<exists>c. hk_fds st' ! nat fd = Some c \<and> fc_is_socket c \<and> \<not> fc_user_nonblock c)"
proof -
  let ?os = "os_open fd flags (hk_os st)"
  have len: "length (hk_fds st) = 64" using assms(1) by (simp add: hook_inv_def)
  have rng: "0 \<le> fd" "fd < 64"
    using assms(3) len by (auto simp: hook_register_def getFdContext_def fd_create_def split: if_splits prod.splits)
  have "ctx_ok (hk_os st) (nat fd) (hk_fds st ! nat fd)" using assms(1) rng by (simp add: hook_inv_def)
  then have "hk_fds st ! nat fd = None"
    using assms(2) rng by (auto simp: ctx_ok_def split: option.splits)
  moreover obtain os' c where c: "fd_create fd ?os (hk_fds st) = Inr (Some c, os', (hk_fds st)[nat fd := Some c])"
    "new_FdContext ?os fd = (os', c)"
    using fd_create_eq [of fd "hk_fds st" ?os] rng len by auto
  ultimately have st': "st' = \<lparr>hk_os = os', hk_fds = (hk_fds st)[nat fd := Some c]\<rparr>"
    using assms(3) rng len by (simp add: hook_register_def getFdContext_def)
  note new = new_FdContext_eq [OF c(2)]
  have sock: "fc_is_socket c" using new(2) by (simp add: os_open_def)
  have "hook_inv st'" unfolding st'
  proof (rule hook_inv_update [OF assms(1) rng(1)])
    show "ctx_ok os' (nat fd) (Some c)"
      using new sock rng by (simp add: ctx_ok_def os_open_def)
    show "ctx_ok os' i (hk_fds st ! i)" if "int i \<noteq> fd" "ctx_ok (hk_os st) i (hk_fds st ! i)" for i
      using that new(6,7) nonblocking_open [OF that(1)]
      by (auto simp: ctx_ok_def os_open_def split: option.splits)
  qed
  then show ?thesis using st' sock new(4) rng len by simp
qed

lemma socket_context_in:
  assumes "socket_context fd st = Inr (Some c)"
  shows "0 \<le> fd" "nat fd < length (hk_fds st)" "hk_fds st ! nat fd = Some c" "fc_is_socket c"
  using assms by (auto simp: socket_context_def getFdContext_def fd_create_def split: if_splits option.splits)

lemma hook_setfl_inv:
  assumes "hook_inv st" "hook_setfl fd arg st = Inr st'"
  shows "hook_inv st'"
proof -
  obtain ctx where ctx: "socket_context fd st = Inr ctx" using assms(2) by (auto simp: hook_setfl_def)
  show ?thesis
  proof (cases ctx)
    case None
    then have "\<not> fc_is_socket c" if "hk_fds st ! i = Some c" "int i = fd" "i < 64" for i c
      using ctx that assms(1)
      by (auto simp: socket_context_def getFdContext_def hook_inv_def ctx_ok_def split: if_splits)
    then show ?thesis
      using assms ctx None by (auto simp: hook_setfl_def hook_inv_def ctx_ok_def nonblocking_bit os_setfl_bit split: option.splits)
  next
    case (Some c)
    note c = socket_context_in [OF ctx [unfolded Some]]
    then have "ctx_ok (hk_os st) (nat fd) (Some c)" using assms(1) by (auto simp: hook_inv_def)
    then have sys: "fc_sys_nonblock c" "os_stat (hk_os st) fd \<noteq> None" "\<not> fc_is_close c" using c by (simp_all add: ctx_ok_def)
    then have st': "st' = \<lparr>hk_os = os_setfl fd (arg OR O_NONBLOCK) (hk_os st),
        hk_fds = (hk_fds st)[nat fd := Some (fc_setUserNonblock (arg AND O_NONBLOCK \<noteq> 0) c)]\<rparr>"
      using assms(2) ctx Some by (cases st) (auto simp: hook_setfl_def set_context_def Let_def)
    show ?thesis unfolding st'
      by (rule hook_inv_update [OF assms(1) c(1)])
        (use c sys in \<open>auto simp: ctx_ok_def fc_setUserNonblock_def nonblocking_bit os_setfl_bit bit_or_iff split: option.splits\<close>)
  qed
qed

lemma hook_close_inv:
  assumes "hook_inv st" "hook_close True iom fd st = Inr (eff, st')"
  shows "hook_inv st'"
proof -
  have len: "length (hk_fds st) = 64" using assms(1) by (simp add: hook_inv_def)
  have other: "ctx_ok (os_close fd (hk_os st)) i (hk_fds st ! i)" if "int i \<noteq> fd" "ctx_ok (hk_os st) i (hk_fds st ! i)" for i
    using that by (auto simp: ctx_ok_def os_close_def nonblocking_def split: option.splits)
  show ?thesis
  proof (cases "0 \<le> fd \<and> fd < 64 \<and> hk_fds st ! nat fd \<noteq> None")
    case True
    then have "st' = \<lparr>hk_os = os_close fd (hk_os st), hk_fds = (hk_fds st)[nat fd := None]\<rparr>"
      using assms(2) len by (auto simp: hook_close_def getFdContext_def delFdContext_def split: if_splits)
    then show ?thesis using hook_inv_update [OF assms(1), of fd "os_close fd (hk_os st)" None] other True by simp
  next
    case False
    then have st': "st' = st\<lparr>hk_os := os_close fd (hk_os st)\<rparr>"
      using assms(2) len by (auto simp: hook_close_def getFdContext_def split: if_splits)
    have "ctx_ok (os_close fd (hk_os st)) i (hk_fds st ! i)" if "i < 64" for i
      using other [of i] False that assms(1) by (cases "int i = fd") (auto simp: hook_inv_def)
    then show ?thesis using st' len by (simp add: hook_inv_def)
  qed
qed

lemma hook_setsockopt_inv:
  assumes "hook_inv st" "hook_setsockopt True fd level opt sec usec st = Inr st'"
  shows "hook_inv st'"
proof -
  have "hook_inv (set_context fd (fc_setTimeout opt t c) st)" if "hk_fds st ! nat fd = Some c" "0 \<le> fd" "fd < 64" for c t
  proof -
    have "ctx_ok (hk_os st) (nat fd) (Some c)" using assms(1) that by (auto simp: hook_inv_def dest: spec [of _ "nat fd"])
    then have "ctx_ok (hk_os st) (nat fd) (Some (fc_setTimeout opt t c))"
      by (simp add: ctx_ok_def fc_setTimeout_def)
    from hook_inv_update [OF assms(1) that(2) this] show ?thesis
      using that assms(1) by (cases st) (simp add: set_context_def)
  qed
  moreover have "length (hk_fds st) = 64" using assms(1) by (simp add: hook_inv_def)
  ultimately show ?thesis
    using assms by (auto simp: hook_setsockopt_def getFdContext_def split: if_splits option.splits)
qed

lemma hook_reach_inv: "hook_reach st \<Longrightarrow> hook_inv st"
proof (induction rule: hook_reach.induct)
  case (hook_start os)
  show ?case by (simp add: hook_inv_def new_FdManager_def)
next
  case (hook_socket_step st opened r st')
  then show ?case using hook_register_inv
    by (auto simp: hook_socket_def Let_def split: option.splits)
next
  case (hook_accept_step st fd rs ws out st')
  obtain o' where out: "do_io True fd EvRead rs ws st = Inr o'" using hook_accept_step(2) by (auto simp: hook_accept_def)
  show ?case
  proof (cases "\<exists>n eff. o' = Some (IoRet n, eff) \<and> 0 \<le> n")
    case True
    then show ?thesis using hook_accept_step out hook_register_inv by (auto simp: hook_accept_def Let_def)
  next
    case False
    then have "st' = st" using hook_accept_step out
      by (auto simp: hook_accept_def split: option.splits io_ret.splits)
    then show ?thesis using hook_accept_step by simp
  qed
qed (blast intro: hook_close_inv hook_setfl_inv hook_setsockopt_inv)+

lemma open_blocking: "\<not> nonblocking (os_open s 2 os) s"
  by (simp add: nonblocking_def os_open_def O_NONBLOCK_def)

lemma scast_ucast_small:
  assumes "n < 2 ^ 31"
  shows "(scast (ucast (of_nat n :: u64) :: u32) :: u64) = of_nat n"
proof -
  have n: "unat (of_nat n :: u64) = n" using assms by (simp add: unat_of_nat)
  have "sint (of_nat n :: u32) = int n"
    using assms by (simp add: signed_of_nat signed_take_bit_int_eq_self)
  moreover have "(ucast (of_nat n :: u64) :: u32) = of_nat n" using n by (metis of_nat_unat)
  ultimately show ?thesis by (simp add: scast_eq)
qed

section \<open>Properties\<close>

definition transient :: "io_ret \<Rightarrow> bool" where
  "transient r \<longleftrightarrow> r = IoErr EINTR \<or> r = IoErr EAGAIN"

lemma do_io_loop_ready:
  assumes "\<forall>w \<in> set ws. w = Woken False" "length (filter (\<lambda>r. r = IoErr EAGAIN) rs) \<le> length ws"
  shows "map_option fst (do_io_loop timeout ev rs ws) =
    (case dropWhile transient rs of [] \<Rightarrow> None | r # _ \<Rightarrow> Some r)"
  using assms
proof (induction timeout ev rs ws rule: do_io_loop.induct)
  case (3 timeout ev e rs ws)
  then show ?case
    by (cases ws) (auto simp: transient_def EINTR_def EAGAIN_def option.map_comp comp_def)
qed (simp_all add: transient_def)

lemma do_io_loop_timeout:
  assumes "k < length (filter (\<lambda>r. r = IoErr EAGAIN) (takeWhile transient rs))" "timeout \<noteq> - 1"
  shows "map_option fst (do_io_loop timeout ev rs (replicate k (Woken False) @ Woken True # ws)) = Some (IoErr ETIMEDOUT)"
  using assms(1)
proof (induction rs arbitrary: k)
  case (Cons r rs)
  then consider "r = IoErr EINTR" | "r = IoErr EAGAIN" by (auto simp: transient_def split: if_splits)
  then show ?case
  proof cases
    case 1
    then show ?thesis using Cons by (simp add: transient_def EINTR_def EAGAIN_def option.map_comp comp_def)
  next
    case 2
    then show ?thesis using Cons assms(2)
      by (cases k) (simp_all add: transient_def EINTR_def EAGAIN_def option.map_comp comp_def)
  qed
qed simp

text \<open>
  C14. A hooked call on a registered socket behaves like a blocking call with a timeout. If the user made the socket non-blocking,
  it returns the outcome of the original call, whatever it is. Otherwise: as long as the fiber is woken only
  because the descriptor is ready, the call returns the first outcome of the original call that is neither an
  interruption nor "would block", and it returns if there is such an outcome; if a timeout is configured and the timer wakes the fiber
  in one of its suspensions, the call fails with \<open>ETIMEDOUT\<close>.
\<close>

theorem do_io_blocks:
  assumes "hook_reach st" "0 \<le> fd" "fd < 64" "hk_fds st ! nat fd = Some c" "fc_is_socket c"
  shows "\<exists>out. do_io True fd ev rs ws st = Inr out \<and>
    (fc_user_nonblock c \<longrightarrow> map_option fst out = (case rs of [] \<Rightarrow> None | r # _ \<Rightarrow> Some r)) \<and>
    (\<not> fc_user_nonblock c \<and> (\<forall>w \<in> set ws. w = Woken False) \<and> length (filter (\<lambda>r. r = IoErr EAGAIN) rs) \<le> length ws \<longrightarrow>
      map_option fst out = (case dropWhile transient rs of [] \<Rightarrow> None | r # _ \<Rightarrow> Some r)) \<and>
    (\<not> fc_user_nonblock c \<and> fc_getTimeout (case ev of EvRead \<Rightarrow> SO_RCVTIMEO | EvWrite \<Rightarrow> SO_SNDTIMEO) c \<noteq> - 1 \<and>
      ws = replicate k (Woken False) @ Woken True # ws' \<and> k < length (filter (\<lambda>r. r = IoErr EAGAIN) (takeWhile transient rs)) \<longrightarrow>
      map_option fst out = Some (IoErr ETIMEDOUT))"
proof -
  have inv: "hook_inv st" by (rule hook_reach_inv [OF assms(1)])
  then have "ctx_ok (hk_os st) (nat fd) (Some c)" using assms(2-4) by (metis hook_inv_def nat_less_iff of_nat_numeral)
  then have open_ctx: "\<not> fc_is_close c" by (simp add: ctx_ok_def)
  let ?timeout = "fc_getTimeout (case ev of EvRead \<Rightarrow> SO_RCVTIMEO | EvWrite \<Rightarrow> SO_SNDTIMEO) c"
  have "do_io True fd ev rs ws st = Inr (if fc_user_nonblock c then orig_call rs else do_io_loop ?timeout ev rs ws)"
    using inv assms open_ctx by (simp add: do_io_def getFdContext_def hook_inv_def split: io_event.split)
  then show ?thesis
    using do_io_loop_ready [of ws rs ?timeout ev] do_io_loop_timeout [of k rs ?timeout ev ws']
    by (cases "fc_user_nonblock c") (auto simp: orig_call_def split: list.split)
qed

lemma sample_socket:
  "\<exists>st c. hook_socket True (Some (5, 2)) \<lparr>hk_os = \<lparr>os_stat = Map.empty, os_flags = (\<lambda>_. 0)\<rparr>, hk_fds = new_FdManager\<rparr> = Inr (5, st) \<and>
    hook_reach st \<and> hk_fds st ! 5 = Some c \<and> fc_is_socket c \<and> \<not> fc_user_nonblock c"
proof -
  let ?s = "\<lparr>hk_os = \<lparr>os_stat = Map.empty, os_flags = (\<lambda>_. 0)\<rparr>, hk_fds = new_FdManager\<rparr>"
  have start: "hook_reach ?s" by (rule hook_start)
  obtain st where st: "hook_register 5 (?s\<lparr>hk_os := os_open 5 2 (hk_os ?s)\<rparr>) = Inr st"
    using fd_create_eq [of 5 new_FdManager]
    by (fastforce simp: hook_register_def getFdContext_def new_FdManager_def)
  then have sock: "hook_socket True (Some (5, 2)) ?s = Inr (5, st)" by (simp add: hook_socket_def)
  have "hook_reach st" by (rule hook_socket_step [OF start _ sock]) simp
  then show ?thesis using sock hook_register_inv [OF hook_reach_inv [OF start] _ st] by auto
qed

lemma sample_context:
  "\<exists>st c. hook_reach st \<and> socket_context 5 st = Inr (Some c) \<and> length (hk_fds st) = 64"
proof -
  obtain st c where st: "hook_reach st" "hk_fds st ! 5 = Some c" "fc_is_socket c"
    using sample_socket by blast
  then have "ctx_ok (hk_os st) 5 (Some c)" "length (hk_fds st) = 64"
    using hook_reach_inv [OF st(1)] by (auto simp: hook_inv_def dest: spec [of _ 5])
  then show ?thesis
    using st by (intro exI [of _ st] exI [of _ c]) (simp add: socket_context_def getFdContext_def ctx_ok_def)
qed

theorem do_io_blocks_witness:
  "\<exists>st out. hook_reach st \<and> do_io True 5 EvRead [IoErr EINTR, IoErr EAGAIN, IoErr EAGAIN, IoRet 8] [Woken False, Woken False] st =
      Inr out \<and> map_option fst out = Some (IoRet 8)"
proof -
  obtain st c where st: "hook_reach st" "hk_fds st ! 5 = Some c" "fc_is_socket c" "\<not> fc_user_nonblock c"
    using sample_socket by blast
  then show ?thesis
    using do_io_blocks [of st 5 c EvRead "[IoErr EINTR, IoErr EAGAIN, IoErr EAGAIN, IoRet 8]" "[Woken False, Woken False]" 2 "[]"]
    by (auto simp: transient_def EINTR_def EAGAIN_def)
qed

text \<open>
  Timers and results of hooked calls: every timer that a call armed is cancelled when it returns,
  the timers armed have the configured timeout, and unless registering the event failed the result
  is never an interruption or "would block".
\<close>

theorem do_io_timers:
  assumes "do_io_loop timeout ev rs ws = Some (r, eff)"
  shows "length (filter (\<lambda>e. e = ArmTimer timeout) eff) = length (filter (\<lambda>e. e = CancelTimer) eff) \<and>
    (\<forall>t. ArmTimer t \<in> set eff \<longrightarrow> t = timeout \<and> timeout \<noteq> - 1) \<and>
    ((\<forall>e. EventFailed e \<notin> set ws) \<longrightarrow> \<not> transient r)"
  using assms
proof (induction rs arbitrary: ws r eff)
  case (Cons a rs)
  show ?case
  proof (cases "a = IoErr EAGAIN")
    case True
    then obtain w ws' where w: "ws = w # ws'" using Cons.prems by (cases ws) (auto simp: EINTR_def EAGAIN_def)
    then show ?thesis
    proof (cases "\<exists>b. w = Woken b \<and> (timeout = - 1 \<or> \<not> b)")
      case True
      then obtain eff' where eff: "do_io_loop timeout ev rs ws' = Some (r, eff')"
        "eff = [OrigCall] @ arm timeout @ [AddEvent ev, Hold] @ disarm timeout @ eff'"
        using Cons.prems w \<open>a = IoErr EAGAIN\<close> by (auto simp: EINTR_def EAGAIN_def split: if_splits)
      then show ?thesis using Cons.IH [OF eff(1)] w by (auto simp: arm_def disarm_def)
    next
      case False
      then show ?thesis using Cons.prems w \<open>a = IoErr EAGAIN\<close>
        by (cases w) (auto simp: EINTR_def EAGAIN_def ETIMEDOUT_def arm_def disarm_def transient_def)
    qed
  next
    case False
    then show ?thesis using Cons.prems Cons.IH by (cases a) (auto simp: transient_def split: if_splits)
  qed
qed simp

theorem do_io_timers_witness:
  "\<exists>eff. do_io_loop 500 EvRead [IoErr EAGAIN, IoErr EAGAIN, IoRet 8] [Woken False, Woken True] =
      Some (IoErr ETIMEDOUT, eff) \<and> length (filter (\<lambda>e. e = CancelTimer) eff) = 2"
proof -
  have "\<exists>eff. do_io_loop 500 EvRead [IoErr EAGAIN, IoErr EAGAIN, IoRet 8] [Woken False, Woken True] =
      Some (IoErr ETIMEDOUT, eff) \<and> length (filter (\<lambda>e. e = ArmTimer 500) eff) = 2"
    by (simp add: EINTR_def EAGAIN_def arm_def disarm_def)
  then show ?thesis using do_io_timers by fastforce
qed

text \<open>
  C32. In every state that \<open>socket\<close>, \<open>accept\<close>, \<open>close\<close>, \<open>fcntl\<close> and \<open>setsockopt\<close> of threads with hooks enabled reach, each
  registered socket is non-blocking in the kernel; \<open>fcntl\<close> hides this from the user: whatever flags the user sets, \<open>F_GETFL\<close> answers
  with the user's choice of \<open>O_NONBLOCK\<close>, and the kernel's flag stays set. The exception is \<open>ioctl(FIONBIO)\<close>, which passes
  the user's choice on to the kernel.
\<close>

theorem fcntl_hides_nonblock:
  assumes "hook_reach st" "socket_context fd st = Inr (Some c)"
  shows "nonblocking (hk_os st) fd \<and> (\<exists>st' flags. hook_setfl fd arg st = Inr st' \<and> hook_getfl fd st' = Inr flags \<and>
    flags AND O_NONBLOCK = arg AND O_NONBLOCK \<and> nonblocking (hk_os st') fd) \<and>
    (\<exists>st'. hook_ioctl_FIONBIO fd val st = Inr st' \<and> (nonblocking (hk_os st') fd \<longleftrightarrow> val \<noteq> 0))"
proof -
  have inv: "hook_inv st" by (rule hook_reach_inv [OF assms(1)])
  note c = socket_context_in [OF assms(2)]
  have ok: "ctx_ok (hk_os st) (nat fd) (Some c)" using inv c by (metis hook_inv_def)
  let ?c = "fc_setUserNonblock (arg AND O_NONBLOCK \<noteq> 0) c"
  let ?st = "(set_context fd ?c st)\<lparr>hk_os := os_setfl fd (arg OR O_NONBLOCK) (hk_os st)\<rparr>"
  have set: "hook_setfl fd arg st = Inr ?st"
    using assms(2) ok c by (simp add: hook_setfl_def ctx_ok_def Let_def set_context_def)
  have "socket_context fd ?st = Inr (Some ?c)"
    using ok c by (auto simp: socket_context_def getFdContext_def set_context_def fc_setUserNonblock_def ctx_ok_def)
  moreover have "nonblocking (hk_os ?st) fd" by (simp add: nonblocking_bit os_setfl_bit bit_or_iff)
  moreover have "\<exists>st'. hook_ioctl_FIONBIO fd val st = Inr st' \<and> (nonblocking (hk_os st') fd \<longleftrightarrow> val \<noteq> 0)"
    using assms(2) by (simp add: hook_ioctl_FIONBIO_def Let_def nonblocking_bit os_setfl_bit bit_simps)
  ultimately show ?thesis
    using set ok c O_NONBLOCK_masks(3) [of arg]
    by (auto simp: hook_getfl_def fc_setUserNonblock_def ctx_ok_def Let_def O_NONBLOCK_masks(1,2) split: if_splits)
qed

theorem fcntl_hides_nonblock_witness:
  "\<exists>st st' flags. hook_reach st \<and> hook_setfl 5 0 st = Inr st' \<and> hook_getfl 5 st' = Inr flags \<and>
    flags AND O_NONBLOCK = 0 \<and> nonblocking (hk_os st') 5"
proof -
  obtain st c where st: "hook_reach st" "socket_context 5 st = Inr (Some c)" using sample_context by blast
  then show ?thesis using fcntl_hides_nonblock [OF st, of 0] by auto
qed

text \<open>
  Three ways in which the hooks fail. A descriptor of 64 or more cannot be registered: the
  list of contexts never grows and is indexed past its end. \<open>ioctl(FIONBIO)\<close> with the value 0 makes the
  socket blocking in the kernel although the hooks go on treating it as non-blocking. And a socket
  closed by a thread without hooks leaves its context behind, so that the next socket with the same
  number is never made non-blocking; on both, the original call of \<open>do_io\<close> blocks the thread.
\<close>

theorem hooks_fail:
  assumes "64 \<le> fd" "length (hk_fds st) = 64" "socket_context s st = Inr (Some c)"
  shows "hook_socket True (Some (fd, flags)) st = Inl OutOfBounds \<and>
    (\<exists>st'. hook_ioctl_FIONBIO s 0 st = Inr st' \<and> \<not> nonblocking (hk_os st') s \<and>
       hk_fds st' ! nat s = Some (fc_setUserNonblock False c)) \<and>
    (\<exists>eff st1 st2. hook_close False iom s st = Inr (eff, st1) \<and> hook_socket True (Some (s, 2)) st1 = Inr (s, st2) \<and>
       hk_fds st2 ! nat s = Some c \<and> \<not> nonblocking (hk_os st2) s)"
proof (intro conjI)
  note c = socket_context_in [OF assms(3)]
  show "hook_socket True (Some (fd, flags)) st = Inl OutOfBounds"
    using assms(1,2)
    by (simp add: hook_socket_def hook_register_def getFdContext_def fd_create_def Let_def split: prod.splits)
  show "\<exists>st'. hook_ioctl_FIONBIO s 0 st = Inr st' \<and> \<not> nonblocking (hk_os st') s \<and>
      hk_fds st' ! nat s = Some (fc_setUserNonblock False c)"
    using assms(3) c(2)
    by (simp add: hook_ioctl_FIONBIO_def set_context_def Let_def nonblocking_bit os_setfl_bit bit_and_iff bit_not_iff)
  have "\<not> int (length (hk_fds st)) \<le> s" using c(1,2) by linarith
  then show "\<exists>eff st1 st2. hook_close False iom s st = Inr (eff, st1) \<and>
      hook_socket True (Some (s, 2)) st1 = Inr (s, st2) \<and> hk_fds st2 ! nat s = Some c \<and> \<not> nonblocking (hk_os st2) s"
    using c open_blocking
    by (simp add: hook_close_def hook_socket_def hook_register_def getFdContext_def Let_def)
qed

theorem hooks_fail_witness:
  "\<exists>st. hook_reach st \<and> hook_socket True (Some (64, 2)) st = Inl OutOfBounds \<and>
    (\<exists>st'. hook_ioctl_FIONBIO 5 0 st = Inr st' \<and> \<not> nonblocking (hk_os st') 5)"
proof -
  obtain st c where st: "hook_reach st" "socket_context 5 st = Inr (Some c)" "length (hk_fds st) = 64"
    using sample_context by blast
  then show ?thesis using hooks_fail [of 64 st 5 c 2 True] by auto
qed

text \<open>
  How long a sleeping fiber is held: \<open>sleep\<close> loses everything above 32 bits of milliseconds,
  \<open>usleep\<close> rounds down to milliseconds, and \<open>nanosleep\<close> is exact in milliseconds as long as they fit
  into an \<open>int\<close>.
\<close>

theorem sleep_times:
  assumes "sec * 1000 + nsec div 1000000 < 2 ^ 31"
  shows "hook_sleep True True seconds = Inr [ArmTimer (of_nat (unat seconds * 1000 mod 2 ^ 32)), Hold] \<and>
   hook_usleep True True usec = Inr [ArmTimer (of_nat (unat usec div 1000)), Hold] \<and>
   hook_nanosleep True True (of_nat sec) (of_nat nsec) =
     Inr [ArmTimer (of_nat (sec * 1000 + nsec div 1000000)), Hold]"
proof (intro conjI)
  have cast: "ucast x = (of_nat (unat x) :: u64)" for x :: u32 by simp
  show "hook_sleep True True seconds = Inr [ArmTimer (of_nat (unat seconds * 1000 mod 2 ^ 32)), Hold]"
    unfolding hook_sleep_def hold_for_def cast by (simp add: unat_word_ariths(2) del: of_nat_unat)
  show "hook_usleep True True usec = Inr [ArmTimer (of_nat (unat usec div 1000)), Hold]"
    unfolding hook_usleep_def hold_for_def cast by (simp add: unat_div del: of_nat_unat)
  have "nsec < 2 ^ 64" using assms by (simp add: div_less_iff_less_mult)
  then have "unat (of_nat nsec div 1000 div 1000 :: u64) = nsec div 1000000"
    by (simp add: unat_div unat_of_nat flip: div_mult2_eq)
  then have "(of_nat nsec div 1000 div 1000 :: u64) = of_nat (nsec div 1000000)" by (metis of_nat_unat ucast_id)
  then have "(of_nat sec * 1000 + of_nat nsec div 1000 div 1000 :: u64) = of_nat (sec * 1000 + nsec div 1000000)"
    by simp
  then show "hook_nanosleep True True (of_nat sec) (of_nat nsec) =
      Inr [ArmTimer (of_nat (sec * 1000 + nsec div 1000000)), Hold]"
    unfolding hook_nanosleep_def using scast_ucast_small [OF assms] by (simp add: hold_for_def)
qed

theorem sleep_times_witness:
  "hook_sleep True True 4294968 = Inr [ArmTimer 704, Hold] \<and> hook_usleep True True 1999 = Inr [ArmTimer 1, Hold] \<and>
   hook_nanosleep True True 2 5000000 = Inr [ArmTimer 2005, Hold]"
  using sleep_times [of 2 5000000 4294968 1999] by simp

end
