(* ===== verification/IO_Manager.thy ===== *)
theory IO_Manager
  imports Scheduler Hook Timer
begin

text \<open>
  The IO manager (\<open>src/io_manager.cc\<close>, \<open>include/io_manager.h\<close>): the events registered per descriptor,
  and the loop that turns what \<open>epoll_wait\<close> reports into tasks.

  A mask of events is a set. The interest list of \<open>epoll\<close> maps a descriptor to the events asked for and
  the user data, a union of a descriptor and a pointer: \<open>EpCtx i\<close> is the pointer to the context with
  index \<open>i\<close>, \<open>EpPipe\<close> the descriptor of the pipe, and \<open>EpBroken\<close> a pointer whose lower half was overwritten
  by a descriptor. A pointer whose lower half happens to be the number of the pipe is not
  considered. Tasks given to a scheduler are collected in \<open>im_submitted\<close>.
\<close>

section \<open>State\<close>

datatype ep_data = EpPipe | EpCtx nat | EpBroken

datatype ep_op = EPOLL_CTL_ADD | EPOLL_CTL_MOD | EPOLL_CTL_DEL

type_synonym interest = "int \<rightharpoonup> io_event set \<times> ep_data"

text \<open>\<open>valid\<close> tells whether the kernel accepts the descriptor.\<close>

definition epoll_ctl :: "bool \<Rightarrow> ep_op \<Rightarrow> int \<Rightarrow> io_event set \<times> ep_data \<Rightarrow> interest \<Rightarrow> bool \<times> interest" where
  "epoll_ctl valid op fd d ep =
     (case op of
        EPOLL_CTL_ADD \<Rightarrow> if valid \<and> ep fd = None then (True, ep(fd \<mapsto> d)) else (False, ep)
      | EPOLL_CTL_MOD \<Rightarrow> if valid \<and> ep fd \<noteq> None then (True, ep(fd \<mapsto> d)) else (False, ep)
      | EPOLL_CTL_DEL \<Rightarrow> if valid \<and> ep fd \<noteq> None then (True, ep(fd := None)) else (False, ep))"

text \<open>An \<open>EventContext\<close> is the task it submits, \<open>None\<close> when it is empty.\<close>

record io_ctx =
  ic_fd :: nat
  ic_events :: "io_event set"
  ic_read :: "task option"
  ic_write :: "task option"

record iomanager =
  im_ctxs :: "io_ctx list"
  im_pending :: u64
  im_epoll :: interest
  im_submitted :: "task list"

definition new_ctx :: "nat \<Rightarrow> io_ctx" where
  "new_ctx i = \<lparr>ic_fd = i, ic_events = {}, ic_read = None, ic_write = None\<rparr>"

definition contextResize :: "nat \<Rightarrow> iomanager \<Rightarrow> iomanager" where
  "contextResize n st = st\<lparr>im_ctxs := take n (im_ctxs st) @ map new_ctx [length (im_ctxs st)..<n]\<rparr>"

text \<open>The constructor, after the system calls; \<open>pipe\<close> is the reading end of the pipe.\<close>

definition new_IOManager :: "int \<Rightarrow> iomanager" where
  "new_IOManager pipe = contextResize 64
     \<lparr>im_ctxs = [], im_pending = 0, im_epoll = [pipe \<mapsto> ({EvRead}, EpPipe)], im_submitted = []\<rparr>"

definition getEventContext :: "io_event \<Rightarrow> io_ctx \<Rightarrow> task option" where
  "getEventContext ev c = (case ev of EvRead \<Rightarrow> ic_read c | EvWrite \<Rightarrow> ic_write c)"

definition setEventContext :: "io_event \<Rightarrow> task option \<Rightarrow> io_ctx \<Rightarrow> io_ctx" where
  "setEventContext ev t c = (case ev of EvRead \<Rightarrow> c\<lparr>ic_read := t\<rparr> | EvWrite \<Rightarrow> c\<lparr>ic_write := t\<rparr>)"

definition resetContext :: "io_event \<Rightarrow> io_ctx \<Rightarrow> io_ctx" where
  "resetContext ev c = setEventContext ev None c"

definition set_ctx :: "nat \<Rightarrow> io_ctx \<Rightarrow> iomanager \<Rightarrow> iomanager" where
  "set_ctx i c st = st\<lparr>im_ctxs := (im_ctxs st)[i := c]\<rparr>"

section \<open>Events\<close>

text \<open>\<open>t\<close> is the callback, or the running fiber when there is none.\<close>

definition find_ctx :: "int \<Rightarrow> iomanager \<Rightarrow> (nat \<times> iomanager) res" where
  "find_ctx fd st =
     (if fd < 0 then Inl OutOfBounds
      else let st = (if int (length (im_ctxs st)) > fd then st else contextResize (3 * nat fd div 2) st) in
        if nat fd < length (im_ctxs st) then Inr (nat fd, st) else Inl OutOfBounds)"

definition addEvent :: "bool \<Rightarrow> int \<Rightarrow> io_event \<Rightarrow> task \<Rightarrow> iomanager \<Rightarrow> (bool \<times> iomanager) res" where
  "addEvent valid fd ev t st =
     bindE (find_ctx fd st) (\<lambda>(i, st).
     let c = im_ctxs st ! i in
     if ev \<in> ic_events c then Inl AssertFail
     else let op = (if ic_events c \<noteq> {} then EPOLL_CTL_MOD else EPOLL_CTL_ADD);
              c = c\<lparr>ic_events := insert ev (ic_events c)\<rparr>;
              (ok, ep) = epoll_ctl valid op fd (ic_events c, EpCtx i) (im_epoll st);
              st = set_ctx i c (st\<lparr>im_epoll := ep\<rparr>)
          in if \<not> ok then Inr (False, st)
             else if getEventContext ev c \<noteq> None then Inl AssertFail
             else Inr (True, set_ctx i (setEventContext ev (Some t) c) (st\<lparr>im_pending := im_pending st + 1\<rparr>)))"

text \<open>The context of a descriptor in \<open>delEvent\<close> and the cancelling operations; \<open>None\<close> if it is past the end.\<close>

definition known_ctx :: "int \<Rightarrow> iomanager \<Rightarrow> nat option res" where
  "known_ctx fd st =
     (if int (length (im_ctxs st)) \<le> fd then Inr None else if fd < 0 then Inl OutOfBounds else Inr (Some (nat fd)))"

definition delEvent :: "bool \<Rightarrow> int \<Rightarrow> io_event \<Rightarrow> iomanager \<Rightarrow> (bool \<times> iomanager) res" where
  "delEvent valid fd ev st =
     bindE (known_ctx fd st) (\<lambda>i.
     case i of None \<Rightarrow> Inr (False, st)
     | Some i \<Rightarrow>
         let c = im_ctxs st ! i in
         if ev \<notin> ic_events c then Inr (False, st)
         else let new = ic_events c - {ev};
                  op = (if ic_events c \<noteq> {} then EPOLL_CTL_MOD else EPOLL_CTL_DEL);
                  (ok, ep) = epoll_ctl valid op fd (new, EpCtx i) (im_epoll st)
              in if \<not> ok then Inr (False, st)
                 else Inr (True, set_ctx i (resetContext ev (c\<lparr>ic_events := new\<rparr>))
                   (st\<lparr>im_epoll := ep, im_pending := im_pending st - 1\<rparr>)))"

text \<open>
  \<open>triggerEvent\<close> on the context with index \<open>i\<close>; the scheduler pointer of an empty \<open>EventContext\<close> is null.
\<close>

definition triggerEvent :: "nat \<Rightarrow> io_event \<Rightarrow> iomanager \<Rightarrow> iomanager res" where
  "triggerEvent i ev st =
     (let c = im_ctxs st ! i in
      if ev \<notin> ic_events c then Inl AssertFail
      else case getEventContext ev c of
        None \<Rightarrow> Inl NullDeref
      | Some t \<Rightarrow> Inr (set_ctx i (resetContext ev (c\<lparr>ic_events := ic_events c - {ev}\<rparr>))
          (st\<lparr>im_submitted := im_submitted st @ [t]\<rparr>)))"

definition finish_event :: "nat \<Rightarrow> io_event \<Rightarrow> iomanager \<Rightarrow> iomanager res" where
  "finish_event i ev st = bindE (triggerEvent i ev st) (\<lambda>st. Inr (st\<lparr>im_pending := im_pending st - 1\<rparr>))"

text \<open>\<open>cancelEvent\<close> writes the pointer into the user data first and the descriptor over it.\<close>

definition cancelEvent :: "bool \<Rightarrow> int \<Rightarrow> io_event \<Rightarrow> iomanager \<Rightarrow> (bool \<times> iomanager) res" where
  "cancelEvent valid fd ev st =
     bindE (known_ctx fd st) (\<lambda>i.
     case i of None \<Rightarrow> Inr (False, st)
     | Some i \<Rightarrow>
         let c = im_ctxs st ! i in
         if ev \<notin> ic_events c then Inr (False, st)
         else let new = ic_events c - {ev};
                  op = (if ic_events c \<noteq> {} then EPOLL_CTL_MOD else EPOLL_CTL_DEL);
                  (ok, ep) = epoll_ctl valid op fd (new, EpBroken) (im_epoll st)
              in if \<not> ok then Inr (False, st)
                 else bindE (finish_event i ev (st\<lparr>im_epoll := ep\<rparr>)) (\<lambda>st. Inr (True, st)))"

definition cancelAllEvent :: "bool \<Rightarrow> int \<Rightarrow> iomanager \<Rightarrow> (bool \<times> iomanager) res" where
  "cancelAllEvent valid fd st =
     bindE (known_ctx fd st) (\<lambda>i.
     case i of None \<Rightarrow> Inr (False, st)
     | Some i \<Rightarrow>
         if ic_events (im_ctxs st ! i) = {} then Inr (False, st)
         else let (ok, ep) = epoll_ctl valid EPOLL_CTL_MOD fd ({}, EpCtx i) (im_epoll st) in
           if \<not> ok then Inr (False, st)
           else bindE (if EvRead \<in> ic_events (im_ctxs st ! i) then finish_event i EvRead (st\<lparr>im_epoll := ep\<rparr>)
                       else Inr (st\<lparr>im_epoll := ep\<rparr>)) (\<lambda>st.
                bindE (if EvWrite \<in> ic_events (im_ctxs st ! i) then finish_event i EvWrite st else Inr st) (\<lambda>st.
                if ic_events (im_ctxs st ! i) \<noteq> {} then Inl AssertFail else Inr (True, st))))"

section \<open>The waiting loop\<close>

text \<open>The timeout passed to \<open>epoll_wait\<close>, where a negative one means to wait without a limit.\<close>

definition MAX_TIMEROUT :: int where "MAX_TIMEROUT = 3000"

definition epoll_timeout :: "u64 \<Rightarrow> int" where
  "epoll_timeout next_time =
     (if next_time \<noteq> - 1 then min (sint (ucast next_time :: u32)) MAX_TIMEROUT else MAX_TIMEROUT)"

text \<open>One entry of the array that \<open>epoll_wait\<close> fills; \<open>re_err\<close> stands for \<open>EPOLLERR\<close> or \<open>EPOLLHUP\<close>.\<close>

record reported =
  re_data :: ep_data
  re_events :: "io_event set"
  re_err :: bool

text \<open>
  The body of the loop over the array. The context comes from \<open>events->data.ptr\<close>, the user data of
  the first entry, whose value is \<open>d0\<close>.
\<close>

definition wait_event :: "bool \<Rightarrow> ep_data \<Rightarrow> reported \<Rightarrow> iomanager \<Rightarrow> iomanager res" where
  "wait_event valid d0 e st =
     (if re_data e = EpPipe then Inr st
      else case d0 of
        EpCtx i \<Rightarrow>
          let c = im_ctxs st ! i;
              real = re_events e \<union> (if re_err e then ic_events c else {})
          in if real \<inter> ic_events c = {} then Inr st
             else let left = ic_events c - real;
                      op = (if left \<noteq> {} then EPOLL_CTL_MOD else EPOLL_CTL_DEL);
                      (ok, ep) = epoll_ctl valid op (int (ic_fd c)) (left, re_data e) (im_epoll st)
                  in if \<not> ok then Inr st
                     else bindE (if EvRead \<in> real then finish_event i EvRead (st\<lparr>im_epoll := ep\<rparr>)
                                 else Inr (st\<lparr>im_epoll := ep\<rparr>)) (\<lambda>st.
                          if EvWrite \<in> real then finish_event i EvWrite st else Inr st)
      | _ \<Rightarrow> Inl WildPointer)"

fun wait_loop :: "bool \<Rightarrow> ep_data \<Rightarrow> reported list \<Rightarrow> iomanager \<Rightarrow> iomanager res" where
  "wait_loop valid d0 [] st = Inr st"
| "wait_loop valid d0 (e # es) st = bindE (wait_event valid d0 e st) (wait_loop valid d0 es)"

text \<open>One round of \<open>Wait\<close>: the callbacks of the expired timers are submitted, then the events handled.\<close>

definition wait_round :: "bool \<Rightarrow> task list \<Rightarrow> reported list \<Rightarrow> iomanager \<Rightarrow> iomanager res" where
  "wait_round valid callbacks events st =
     (let st = st\<lparr>im_submitted := im_submitted st @ callbacks\<rparr> in
      case events of [] \<Rightarrow> Inr st | e # _ \<Rightarrow> wait_loop valid (re_data e) events st)"

text \<open>\<open>IOManager::Stopping\<close>, and \<open>Notify\<close>: whether a byte is written into the pipe.\<close>

definition im_Stopping :: "iomanager \<Rightarrow> bool \<Rightarrow> u64 \<Rightarrow> bool" where
  "im_Stopping st scheduler_stopping timeout \<longleftrightarrow> im_pending st = 0 \<and> scheduler_stopping \<and> timeout = - 1"

definition im_Notify :: "nat \<Rightarrow> bool" where
  "im_Notify idleThreads \<longleftrightarrow> 0 < idleThreads"

section \<open>Lemmas\<close>

text \<open>
  A context agrees with the kernel: an event is in its mask exactly if it has a task, and the entry of the
  interest list is the mask with the pointer to the context, or missing if the mask is empty. The
  pipe is registered outside the contexts.
\<close>

definition ctx_agrees :: "nat \<Rightarrow> io_ctx \<Rightarrow> (io_event set \<times> ep_data) option \<Rightarrow> bool" where
  "ctx_agrees i c entry \<longleftrightarrow> ic_fd c = i \<and> (\<forall>ev. ev \<in> ic_events c \<longleftrightarrow> getEventContext ev c \<noteq> None) \<and>
     entry = (if ic_events c = {} then None else Some (ic_events c, EpCtx i))"

definition im_inv :: "int \<Rightarrow> iomanager \<Rightarrow> bool" where
  "im_inv pipe st \<longleftrightarrow> 64 \<le> length (im_ctxs st) \<and>
     (\<forall>i < length (im_ctxs st). int i \<noteq> pipe \<longrightarrow> ctx_agrees i (im_ctxs st ! i) (im_epoll st (int i))) \<and>
     (\<forall>fd. int (length (im_ctxs st)) \<le> fd \<longrightarrow> fd \<noteq> pipe \<longrightarrow> im_epoll st fd = None)"

text \<open>The events of a descriptor, none if there is no context yet.\<close>

definition events_of :: "iomanager \<Rightarrow> int \<Rightarrow> io_event set" where
  "events_of st fd = (if nat fd < length (im_ctxs st) then ic_events (im_ctxs st ! nat fd) else {})"

lemma set_ctx_sel [simp]:
  "im_ctxs (set_ctx i c st) = (im_ctxs st)[i := c]" "im_pending (set_ctx i c st) = im_pending st"
  "im_epoll (set_ctx i c st) = im_epoll st" "im_submitted (set_ctx i c st) = im_submitted st"
  by (simp_all add: set_ctx_def)

lemma event_context_sel [simp]:
  "ic_fd (setEventContext ev t c) = ic_fd c" "ic_events (setEventContext ev t c) = ic_events c"
  "getEventContext ev (setEventContext ev' t c) = (if ev = ev' then t else getEventContext ev c)"
  "getEventContext ev (c\<lparr>ic_events := es\<rparr>) = getEventContext ev c"
  by (cases ev; cases ev'; simp add: setEventContext_def getEventContext_def)+

lemma new_ctx_agrees: "ctx_agrees i (new_ctx i) None"
  by (simp add: ctx_agrees_def new_ctx_def getEventContext_def split: io_event.split)

lemma im_inv_new: "im_inv pipe (new_IOManager pipe)"
  by (simp add: im_inv_def new_IOManager_def contextResize_def new_ctx_agrees)

lemma im_inv_update:
  assumes "im_inv pipe st" "i < length (im_ctxs st)" "ctx_agrees i c (ep (int i))" "\<And>fd. fd \<noteq> int i \<Longrightarrow> ep fd = im_epoll st fd"
    "im_ctxs st' = (im_ctxs st)[i := c]" "im_epoll st' = ep"
  shows "im_inv pipe st'"
proof -
  have "ctx_agrees j (im_ctxs st' ! j) (im_epoll st' (int j))" if "j < length (im_ctxs st)" "int j \<noteq> pipe" for j
    using assms that by (cases "j = i") (auto simp: im_inv_def)
  moreover have "im_epoll st' fd = None" if "int (length (im_ctxs st)) \<le> fd" "fd \<noteq> pipe" for fd
    using assms that by (auto simp: im_inv_def)
  ultimately show ?thesis using assms(1,5) by (simp add: im_inv_def)
qed

lemma find_ctx_eq:
  assumes "im_inv pipe st" "0 \<le> fd" "fd \<noteq> pipe"
  shows "\<exists>st'. find_ctx fd st = Inr (nat fd, st') \<and> nat fd < length (im_ctxs st') \<and> im_inv pipe st' \<and>
    im_epoll st' = im_epoll st \<and> im_pending st' = im_pending st \<and> im_submitted st' = im_submitted st \<and>
    ic_events (im_ctxs st' ! nat fd) = events_of st fd \<and>
    length (im_ctxs st) \<le> length (im_ctxs st') \<and> (\<forall>i < length (im_ctxs st). im_ctxs st' ! i = im_ctxs st ! i)"
proof (cases "nat fd < length (im_ctxs st)")
  case True
  then show ?thesis using assms(1,2) by (auto simp: find_ctx_def events_of_def)
next
  case False
  define n where "n = 3 * nat fd div 2"
  let ?n = n and ?st = "contextResize n st"
  have n: "length (im_ctxs st) \<le> nat fd" "nat fd < ?n" using False assms(1) by (auto simp: im_inv_def n_def)
  have nth: "im_ctxs ?st ! i = (if i < length (im_ctxs st) then im_ctxs st ! i else new_ctx i)" "length (im_ctxs ?st) = ?n"
    if "i < ?n" for i
    using that n by (auto simp: contextResize_def nth_append)
  have "ctx_agrees i (im_ctxs ?st ! i) (im_epoll ?st (int i))" if "i < ?n" "int i \<noteq> pipe" for i
    using that nth(1) [OF that(1)] assms(1) new_ctx_agrees
    by (cases "i < length (im_ctxs st)") (simp_all add: im_inv_def contextResize_def)
  then have "im_inv pipe ?st"
    using assms(1) n nth(2) [OF n(2)] by (auto simp: im_inv_def contextResize_def)
  moreover have "\<not> int (length (im_ctxs st)) > fd" using n(1) assms(2) by linarith
  then have "find_ctx fd st = Inr (nat fd, ?st)"
    using assms(2) n nth(2) [OF n(2)] by (simp add: find_ctx_def Let_def flip: n_def)
  ultimately show ?thesis
    using n nth False by (auto simp: events_of_def new_ctx_def contextResize_def)
qed

text \<open>Registering an event that is not registered yet.\<close>

lemma addEvent_eq:
  assumes "im_inv pipe st" "0 \<le> fd" "fd \<noteq> pipe" "ev \<notin> events_of st fd"
  shows "\<exists>st1 c. addEvent True fd ev t st = Inr (True, st1) \<and> im_inv pipe st1 \<and> nat fd < length (im_ctxs st1) \<and>
    im_ctxs st1 ! nat fd = c \<and> ic_events c = insert ev (events_of st fd) \<and> getEventContext ev c = Some t \<and>
    im_epoll st1 = (im_epoll st)(fd \<mapsto> (ic_events c, EpCtx (nat fd))) \<and>
    im_pending st1 = im_pending st + 1 \<and> im_submitted st1 = im_submitted st \<and>
    (\<forall>i < length (im_ctxs st). i \<noteq> nat fd \<longrightarrow> im_ctxs st1 ! i = im_ctxs st ! i) \<and> length (im_ctxs st) \<le> length (im_ctxs st1)"
proof -
  obtain s where s: "find_ctx fd st = Inr (nat fd, s)" "nat fd < length (im_ctxs s)" "im_inv pipe s"
    "im_epoll s = im_epoll st" "im_pending s = im_pending st" "im_submitted s = im_submitted st"
    "ic_events (im_ctxs s ! nat fd) = events_of st fd" "length (im_ctxs st) \<le> length (im_ctxs s)"
    "\<forall>i < length (im_ctxs st). im_ctxs s ! i = im_ctxs st ! i"
    using find_ctx_eq [OF assms(1-3)] by blast
  let ?c = "im_ctxs s ! nat fd" and ?e = "insert ev (events_of st fd)"
  let ?c' = "setEventContext ev (Some t) (?c\<lparr>ic_events := ?e\<rparr>)" and ?ep = "(im_epoll st)(fd \<mapsto> (?e, EpCtx (nat fd)))"
  let ?st = "set_ctx (nat fd) ?c' (s\<lparr>im_epoll := ?ep, im_pending := im_pending st + 1\<rparr>)"
  have ag: "ctx_agrees (nat fd) ?c (im_epoll s fd)" using s(2,3) assms(2,3) by (auto simp: im_inv_def)
  then have "im_epoll st fd = (if events_of st fd = {} then None else Some (events_of st fd, EpCtx (nat fd)))"
    "getEventContext ev ?c = None" using s(4,7) assms(4) by (auto simp: ctx_agrees_def)
  then have "addEvent True fd ev t st = Inr (True, ?st)"
    using s assms(4) by (auto simp: addEvent_def epoll_ctl_def set_ctx_def)
  moreover have "im_inv pipe ?st"
    by (rule im_inv_update [OF s(3,2)]) (use ag assms(2) s(4,7) in \<open>auto simp: ctx_agrees_def\<close>)
  ultimately show ?thesis using s by auto
qed

text \<open>The kernel reports one registered event; the rest of the mask stays registered.\<close>

lemma wait_one:
  assumes "im_inv pipe st" "i < length (im_ctxs st)" "int i \<noteq> pipe" "ev \<in> ic_events (im_ctxs st ! i)"
    "getEventContext ev (im_ctxs st ! i) = Some t"
  shows "\<exists>st'. wait_event True (EpCtx i) \<lparr>re_data = EpCtx i, re_events = {ev}, re_err = False\<rparr> st = Inr st' \<and>
    im_inv pipe st' \<and> im_submitted st' = im_submitted st @ [t] \<and> im_pending st' = im_pending st - 1 \<and>
    length (im_ctxs st') = length (im_ctxs st) \<and> ic_events (im_ctxs st' ! i) = ic_events (im_ctxs st ! i) - {ev} \<and>
    (\<forall>j. j \<noteq> i \<longrightarrow> im_ctxs st' ! j = im_ctxs st ! j)"
proof -
  let ?c = "im_ctxs st ! i" and ?left = "ic_events (im_ctxs st ! i) - {ev}"
  let ?c' = "resetContext ev (?c\<lparr>ic_events := ?left\<rparr>)"
  let ?ep = "(im_epoll st)(int i := if ?left = {} then None else Some (?left, EpCtx i))"
  let ?st = "set_ctx i ?c' (st\<lparr>im_epoll := ?ep, im_submitted := im_submitted st @ [t], im_pending := im_pending st - 1\<rparr>)"
  have ag: "ctx_agrees i ?c (im_epoll st (int i))" using assms(1-3) by (auto simp: im_inv_def)
  then have ep: "ic_fd ?c = i" "im_epoll st (int i) = Some (ic_events ?c, EpCtx i)" using assms(4) by (auto simp: ctx_agrees_def)
  have fin: "finish_event i ev (st\<lparr>im_epoll := ep\<rparr>) = Inr (set_ctx i ?c' (st\<lparr>im_epoll := ep,
      im_submitted := im_submitted st @ [t], im_pending := im_pending st - 1\<rparr>))" for ep
    using assms(4,5) by (simp add: finish_event_def triggerEvent_def set_ctx_def Let_def)
  have "epoll_ctl True (if ?left \<noteq> {} then EPOLL_CTL_MOD else EPOLL_CTL_DEL) (int i) (?left, EpCtx i) (im_epoll st) = (True, ?ep)"
    using ep(2) by (simp add: epoll_ctl_def)
  then have "wait_event True (EpCtx i) \<lparr>re_data = EpCtx i, re_events = {ev}, re_err = False\<rparr> st = Inr ?st"
    using ep(1) assms(4) fin [of ?ep] by (cases ev) (simp_all add: wait_event_def Let_def del: Diff_eq_empty_iff)
  moreover have "im_inv pipe ?st"
    by (rule im_inv_update [OF assms(1,2)]) (use ag in \<open>auto simp: ctx_agrees_def resetContext_def\<close>)
  ultimately show ?thesis using assms(2) by (auto simp: resetContext_def)
qed

section \<open>Properties\<close>

text \<open>
  C11. An event fires once: in a state where the contexts agree with the kernel, registering an event
  that is not registered succeeds and keeps the agreement, and when the kernel then reports the
  event, its task is submitted, the event is no longer registered, the count of pending events is
  as before, and the contexts agree with the kernel again. Contexts are created for descriptors
  beyond the list.
\<close>

theorem event_fires_once:
  assumes "im_inv pipe st" "0 \<le> fd" "fd \<noteq> pipe" "ev \<notin> events_of st fd"
  shows "\<exists>st1 st2. addEvent True fd ev t st = Inr (True, st1) \<and> im_inv pipe st1 \<and>
    events_of st1 fd = insert ev (events_of st fd) \<and>
    wait_round True [] [\<lparr>re_data = EpCtx (nat fd), re_events = {ev}, re_err = False\<rparr>] st1 = Inr st2 \<and>
    im_submitted st2 = im_submitted st @ [t] \<and> im_pending st2 = im_pending st \<and>
    events_of st2 fd = events_of st fd \<and> im_inv pipe st2"
proof -
  obtain st1 where s1: "addEvent True fd ev t st = Inr (True, st1)" "im_inv pipe st1" "nat fd < length (im_ctxs st1)"
    "ic_events (im_ctxs st1 ! nat fd) = insert ev (events_of st fd)" "getEventContext ev (im_ctxs st1 ! nat fd) = Some t"
    "im_pending st1 = im_pending st + 1" "im_submitted st1 = im_submitted st"
    using addEvent_eq [OF assms] by blast
  obtain st2 where "wait_event True (EpCtx (nat fd)) \<lparr>re_data = EpCtx (nat fd), re_events = {ev}, re_err = False\<rparr> st1 = Inr st2"
    "im_inv pipe st2" "im_submitted st2 = im_submitted st1 @ [t]" "im_pending st2 = im_pending st1 - 1"
    "length (im_ctxs st2) = length (im_ctxs st1)" "ic_events (im_ctxs st2 ! nat fd) = insert ev (events_of st fd) - {ev}"
    using wait_one [OF s1(2,3) _ _ s1(5)] s1(4) assms(2,3) by auto
  then show ?thesis
    using s1 assms(4) by (auto simp: wait_round_def events_of_def)
qed

theorem event_fires_once_witness:
  "\<exists>st1 st2. addEvent True 100 EvRead (TaskFiber 4 (- 1)) (new_IOManager 3) = Inr (True, st1) \<and>
    wait_round True [] [\<lparr>re_data = EpCtx 100, re_events = {EvRead}, re_err = False\<rparr>] st1 = Inr st2 \<and>
    im_submitted st2 = [TaskFiber 4 (- 1)] \<and> im_pending st2 = 0"
proof -
  have "events_of (new_IOManager 3) 100 = {}"
    by (simp add: events_of_def new_IOManager_def contextResize_def)
  then show ?thesis
    using event_fires_once [OF im_inv_new [of 3], of 100 EvRead "TaskFiber 4 (- 1)"]
    by (auto simp: new_IOManager_def contextResize_def)
qed

text \<open>
  C39. A cancelled event ruins its descriptor. \<open>cancelEvent\<close>, which the timeouts of the hooked calls use,
  modifies the kernel's entry instead of deleting it. So the next \<open>addEvent\<close> on the descriptor, which adds,
  fails; it has put the event into the mask, so the one after it stops the process. Besides, the
  entry's pointer was overwritten, so an error or hang-up reported for it is handled through a wild
  pointer.
\<close>

theorem cancel_ruins_descriptor:
  assumes "im_inv pipe st" "0 \<le> fd" "fd \<noteq> pipe" "events_of st fd = {}"
  shows "\<exists>st1 st2 st3. addEvent True fd ev t st = Inr (True, st1) \<and>
    cancelEvent True fd ev st1 = Inr (True, st2) \<and> im_submitted st2 = im_submitted st @ [t] \<and>
    wait_round True [] [\<lparr>re_data = snd (the (im_epoll st2 fd)), re_events = {}, re_err = True\<rparr>] st2 = Inl WildPointer \<and>
    addEvent True fd ev t' st2 = Inr (False, st3) \<and> addEvent True fd ev t'' st3 = Inl AssertFail"
proof -
  obtain st1 where s1: "addEvent True fd ev t st = Inr (True, st1)" "nat fd < length (im_ctxs st1)"
    "ic_events (im_ctxs st1 ! nat fd) = {ev}" "getEventContext ev (im_ctxs st1 ! nat fd) = Some t"
    "im_submitted st1 = im_submitted st" "im_epoll st1 = (im_epoll st)(fd \<mapsto> ({ev}, EpCtx (nat fd)))"
    using addEvent_eq [OF assms(1-3), of ev t] assms(4) by auto
  let ?c = "resetContext ev ((im_ctxs st1 ! nat fd)\<lparr>ic_events := {}\<rparr>)"
  let ?st = "set_ctx (nat fd) ?c (st1\<lparr>im_epoll := (im_epoll st)(fd \<mapsto> ({}, EpBroken)),
    im_submitted := im_submitted st @ [t], im_pending := im_pending st1 - 1\<rparr>)"
  let ?st' = "set_ctx (nat fd) (?c\<lparr>ic_events := {ev}\<rparr>) ?st"
  have fd: "\<not> int (length (im_ctxs st1)) \<le> fd" "fd < int (length (im_ctxs st1))" using s1(2) assms(2) by linarith+
  have "cancelEvent True fd ev st1 = Inr (True, ?st)"
    using s1 fd assms(2)
    by (simp add: cancelEvent_def known_ctx_def epoll_ctl_def finish_event_def triggerEvent_def set_ctx_def Let_def)
  moreover have find: "find_ctx fd ?st = Inr (nat fd, ?st)" "find_ctx fd ?st' = Inr (nat fd, ?st')"
    using fd assms(2) s1(2) by (simp_all add: find_ctx_def)
  then have "addEvent True fd ev t' ?st = Inr (False, ?st')"
    using s1(2) by (simp add: addEvent_def epoll_ctl_def resetContext_def set_ctx_def Let_def)
  moreover have "addEvent True fd ev t'' ?st' = Inl AssertFail"
    using find s1(2) by (simp add: addEvent_def Let_def)
  moreover have "wait_round True [] [\<lparr>re_data = snd (the (im_epoll ?st fd)), re_events = {}, re_err = True\<rparr>] ?st = Inl WildPointer"
    by (simp add: wait_round_def wait_event_def)
  moreover have "im_submitted ?st = im_submitted st @ [t]" by simp
  ultimately show ?thesis using s1(1) by blast
qed

theorem cancel_ruins_descriptor_witness:
  "\<exists>st1 st2 st3. addEvent True 7 EvRead (TaskFiber 4 (- 1)) (new_IOManager 3) = Inr (True, st1) \<and>
    cancelEvent True 7 EvRead st1 = Inr (True, st2) \<and>
    addEvent True 7 EvRead (TaskFiber 4 (- 1)) st2 = Inr (False, st3) \<and>
    addEvent True 7 EvRead (TaskFiber 4 (- 1)) st3 = Inl AssertFail"
proof -
  have "events_of (new_IOManager 3) 7 = {}"
    by (simp add: events_of_def new_IOManager_def contextResize_def new_ctx_def)
  then show ?thesis using cancel_ruins_descriptor [OF im_inv_new [of 3], of 7 EvRead] by fastforce
qed

text \<open>
  Only the first of several reported events is handled. \<open>Wait\<close> takes the context of every entry from
  the first entry of the array. With two readable descriptors in one round, the task of the first is submitted,
  and the second, whose edge is not reported again, stays registered with its fiber suspended. If
  the first entry is the pipe, the second is handled through a wild pointer.
\<close>

theorem second_event_lost:
  assumes "im_inv pipe st" "a < length (im_ctxs st)" "b < length (im_ctxs st)" "a \<noteq> b" "int a \<noteq> pipe"
    "ic_events (im_ctxs st ! a) = {EvRead}" "ic_read (im_ctxs st ! a) = Some t"
  shows "(\<exists>st'. wait_round True [] [\<lparr>re_data = EpCtx a, re_events = {EvRead}, re_err = False\<rparr>,
        \<lparr>re_data = EpCtx b, re_events = {EvRead}, re_err = False\<rparr>] st = Inr st' \<and>
      im_submitted st' = im_submitted st @ [t] \<and> im_ctxs st' ! b = im_ctxs st ! b) \<and>
    wait_round True [] [\<lparr>re_data = EpPipe, re_events = {EvRead}, re_err = False\<rparr>,
      \<lparr>re_data = EpCtx b, re_events = {EvRead}, re_err = False\<rparr>] st = Inl WildPointer"
proof -
  obtain st' where st': "wait_event True (EpCtx a) \<lparr>re_data = EpCtx a, re_events = {EvRead}, re_err = False\<rparr> st = Inr st'"
    "im_submitted st' = im_submitted st @ [t]" "ic_events (im_ctxs st' ! a) = {}" "im_ctxs st' ! b = im_ctxs st ! b"
    using wait_one [OF assms(1,2,5), of EvRead t] assms(4,6,7) by (auto simp: getEventContext_def)
  have "wait_event True (EpCtx a) \<lparr>re_data = EpCtx b, re_events = {EvRead}, re_err = False\<rparr> st' = Inr st'"
    using st'(3) by (simp add: wait_event_def)
  then show ?thesis using st' by (auto simp: wait_round_def wait_event_def)
qed

theorem second_event_lost_witness:
  "\<exists>st1 st2 st'. addEvent True 7 EvRead (TaskFiber 4 (- 1)) (new_IOManager 3) = Inr (True, st1) \<and>
    addEvent True 8 EvRead (TaskFiber 5 (- 1)) st1 = Inr (True, st2) \<and>
    wait_round True [] [\<lparr>re_data = EpCtx 7, re_events = {EvRead}, re_err = False\<rparr>,
        \<lparr>re_data = EpCtx 8, re_events = {EvRead}, re_err = False\<rparr>] st2 = Inr st' \<and>
    im_submitted st' = [TaskFiber 4 (- 1)]"
proof -
  have e: "events_of (new_IOManager 3) 7 = {}" "length (im_ctxs (new_IOManager 3)) = 64"
    "ic_events (im_ctxs (new_IOManager 3) ! 8) = {}" "im_submitted (new_IOManager 3) = []"
    by (simp_all add: events_of_def new_IOManager_def contextResize_def new_ctx_def)
  obtain st1 where s1: "addEvent True 7 EvRead (TaskFiber 4 (- 1)) (new_IOManager 3) = Inr (True, st1)" "im_inv 3 st1"
    "ic_events (im_ctxs st1 ! 7) = {EvRead}" "getEventContext EvRead (im_ctxs st1 ! 7) = Some (TaskFiber 4 (- 1))"
    "im_ctxs st1 ! 8 = im_ctxs (new_IOManager 3) ! 8" "64 \<le> length (im_ctxs st1)" "im_submitted st1 = []"
    using addEvent_eq [OF im_inv_new [of 3], of 7 EvRead "TaskFiber 4 (- 1)"] e by auto
  then have "EvRead \<notin> events_of st1 8" using e by (simp add: events_of_def)
  then obtain st2 where s2: "addEvent True 8 EvRead (TaskFiber 5 (- 1)) st1 = Inr (True, st2)" "im_inv 3 st2"
    "im_ctxs st2 ! 7 = im_ctxs st1 ! 7" "64 \<le> length (im_ctxs st2)" "im_submitted st2 = []"
    using addEvent_eq [OF s1(2), of 8 EvRead "TaskFiber 5 (- 1)"] s1(6,7) by auto
  then show ?thesis
    using second_event_lost [OF s2(2), of 7 8 "TaskFiber 4 (- 1)"] s1 by (auto simp: getEventContext_def)
qed

text \<open>
  The timeout of \<open>epoll_wait\<close>: at most three seconds when the next timer is less than
  \<open>2^31\<close> milliseconds away or there is none, but for a timer between \<open>2^31\<close> and \<open>2^32\<close> milliseconds away,
  such as the one that every waiting condition variable arms, the conversion to \<open>int\<close> makes it
  negative, which is no limit at all.
\<close>

theorem epoll_timeout_range:
  assumes "n < 2 ^ 32"
  shows "epoll_timeout (of_nat n) = (if n < 2 ^ 31 then min (int n) 3000 else int n - 2 ^ 32) \<and> epoll_timeout (- 1) = 3000"
proof -
  have u: "unat (of_nat n :: u64) = n" using assms by (simp add: unat_of_nat)
  then have ne: "(of_nat n :: u64) \<noteq> - 1" 
  proof -
    have "unat (- 1 :: u64) = 2 ^ 64 - 1" by (simp add: unat_word_ariths unsigned_minus_1_eq_mask mask_eq_exp_minus_1)
    then show ?thesis using u assms by auto
  qed
  have "(ucast (of_nat n :: u64) :: u32) = of_nat n" using u by (metis of_nat_unat)
  moreover have "sint (of_nat n :: u32) = (if n < 2 ^ 31 then int n else int n - 2 ^ 32)"
  proof -
    have s: "sint (of_nat n :: u32) = (int n + 2 ^ 31) mod 2 ^ 32 - 2 ^ 31"
      by (simp add: signed_of_nat signed_take_bit_eq_take_bit_shift take_bit_eq_mod)
    show ?thesis
    proof (cases "n < 2 ^ 31")
      case True
      then show ?thesis using s by simp
    next
      case False
      then have "(int n + 2 ^ 31) mod 2 ^ 32 = (int n - 2 ^ 31) mod 2 ^ 32" by (simp add: mod_eq_dvd_iff)
      also have "\<dots> = int n - 2 ^ 31" using False assms by simp
      finally show ?thesis using s False by simp
    qed
  qed
  ultimately show ?thesis using ne assms by (auto simp: epoll_timeout_def MAX_TIMEROUT_def)
qed

theorem epoll_timeout_range_witness: "epoll_timeout 0xFFFFFFFF = - 1 \<and> epoll_timeout 5 = 5"
  using epoll_timeout_range [where n = 4294967295] epoll_timeout_range [where n = 5] by simp

end
