(* ===== verification/Threads.thy ===== *)
theory Threads
  imports Scheduler IO_Manager
begin

text \<open>
  Threads and the life of the worker pool: \<open>src/thread.cc\<close>, \<open>include/thread.h\<close>, \<open>include/my_semaphore.h\<close>, and
  from \<open>src/scheduler.cc\<close> and \<open>src/io_manager.cc\<close> starting, stopping and destroying the pool.

  The constructor of a thread and the new thread's \<open>run\<close> interleave, so both have a program counter. The pool
  is described by where each worker is in the loop of \<open>Run\<close>. What a task computes is not modelled; it may submit
  other tasks and register and cancel events and timers.
\<close>

section \<open>Creating a thread\<close>

text \<open>
  The points of the constructor (lines 11, 15, after it) and of \<open>run\<close> (before line 39, line 42, line
  43, in the callback).
\<close>

datatype ctor_pc = Ctor11 | Ctor15 | CtorDone | CtorThrown
datatype run_pc = NoThread | Run39 | Run42 | Run43 | RunCb

record thread_obj =
  th_id :: "int option"
  th_handle :: bool
  th_name :: string
  th_func :: "nat option"
  th_sem :: nat
  th_ctor :: ctor_pc
  th_run :: run_pc
  th_cb :: "nat option"

text \<open>The initial count of the semaphore is a member initializer of the class.\<close>

definition sem_initial :: nat where "sem_initial = 1"

definition new_Thread :: "nat \<Rightarrow> string \<Rightarrow> nat \<Rightarrow> thread_obj" where
  "new_Thread count name cb =
     \<lparr>th_id = None, th_handle = False, th_name = (if name = [] then ''UNKNOWN'' else name), th_func = Some cb,
      th_sem = count, th_ctor = Ctor11, th_run = NoThread, th_cb = None\<rparr>"

text \<open>\<open>created\<close> is whether \<open>pthread_create\<close> succeeds. \<open>None\<close>: the step is not possible now.\<close>

definition ctor_step :: "bool \<Rightarrow> thread_obj \<Rightarrow> thread_obj option" where
  "ctor_step created th =
     (case th_ctor th of
        Ctor11 \<Rightarrow> Some (if created then th\<lparr>th_handle := True, th_run := Run39, th_ctor := Ctor15\<rparr>
                       else th\<lparr>th_ctor := CtorThrown\<rparr>)
      | Ctor15 \<Rightarrow> if th_sem th = 0 then None else Some (th\<lparr>th_sem := th_sem th - 1, th_ctor := CtorDone\<rparr>)
      | _ \<Rightarrow> None)"

definition run_step :: "int \<Rightarrow> thread_obj \<Rightarrow> thread_obj option" where
  "run_step tid th =
     (case th_run th of
        Run39 \<Rightarrow> Some (th\<lparr>th_id := Some tid, th_run := Run42\<rparr>)
      | Run42 \<Rightarrow> Some (th\<lparr>th_cb := th_func th, th_func := None, th_run := Run43\<rparr>)
      | Run43 \<Rightarrow> Some (th\<lparr>th_sem := Suc (th_sem th), th_run := RunCb\<rparr>)
      | _ \<Rightarrow> None)"

text \<open>\<open>joined\<close> is whether \<open>pthread_join\<close> succeeds; the destructor detaches a thread that was not joined.\<close>

definition thread_join :: "bool \<Rightarrow> thread_obj \<Rightarrow> thread_obj res" where
  "thread_join joined th =
     (if th_handle th then if joined then Inr (th\<lparr>th_handle := False\<rparr>) else Inl LogicError else Inr th)"

definition thread_detached :: "thread_obj \<Rightarrow> bool" where
  "thread_detached th \<longleftrightarrow> th_handle th"

inductive thread_reach :: "nat \<Rightarrow> string \<Rightarrow> nat \<Rightarrow> int \<Rightarrow> thread_obj \<Rightarrow> bool" for count name cb tid where
  thread_new: "thread_reach count name cb tid (new_Thread count name cb)"
| thread_ctor: "thread_reach count name cb tid th \<Longrightarrow> ctor_step created th = Some th' \<Longrightarrow> thread_reach count name cb tid th'"
| thread_run: "thread_reach count name cb tid th \<Longrightarrow> run_step tid th = Some th' \<Longrightarrow> thread_reach count name cb tid th'"

definition thread_inv :: "nat \<Rightarrow> nat \<Rightarrow> int \<Rightarrow> thread_obj \<Rightarrow> bool" where
  "thread_inv count cb tid th \<longleftrightarrow>
     th_sem th + (if th_ctor th = CtorDone then 1 else 0) = count + (if th_run th = RunCb then 1 else 0) \<and>
     (th_run th \<in> {Run42, Run43, RunCb} \<longrightarrow> th_id th = Some tid) \<and>
     (th_run th \<in> {Run43, RunCb} \<longrightarrow> th_cb th = Some cb) \<and>
     (th_run th \<notin> {Run43, RunCb} \<longrightarrow> th_cb th = None \<and> th_func th = Some cb) \<and>
     (th_run th = NoThread \<longleftrightarrow> th_ctor th \<in> {Ctor11, CtorThrown})"

lemma thread_reach_inv: "thread_reach count name cb tid th \<Longrightarrow> thread_inv count cb tid th"
proof (induction rule: thread_reach.induct)
  case thread_new
  show ?case by (simp add: thread_inv_def new_Thread_def)
next
  case (thread_ctor th created th')
  then show ?case by (auto simp: ctor_step_def thread_inv_def split: ctor_pc.splits if_splits)
next
  case (thread_run th th')
  then show ?case by (auto simp: run_step_def thread_inv_def split: run_pc.splits if_splits)
qed

text \<open>
  With the semaphore starting at zero the constructor would return only after the new thread has stored
  its id and taken its callback, which is what the waiting is for.
\<close>

theorem thread_handshake:
  assumes "thread_reach 0 name cb tid th" "th_ctor th = CtorDone"
  shows "th_id th = Some tid \<and> th_cb th = Some cb"
  using thread_reach_inv [OF assms(1)] assms(2) by (auto simp: thread_inv_def split: if_splits)

text \<open>
  The semaphore of the code starts at one, so the wait does not block: there is an execution in which
  the constructor has returned while the thread's id is not set and its callback not taken.
\<close>

theorem thread_id_race:
  "\<exists>th. thread_reach sem_initial name cb tid th \<and> th_ctor th = CtorDone \<and> th_id th = None \<and> th_run th = Run39"
proof -
  let ?t0 = "new_Thread sem_initial name cb"
  let ?t1 = "?t0\<lparr>th_handle := True, th_run := Run39, th_ctor := Ctor15\<rparr>"
  let ?t2 = "?t1\<lparr>th_sem := 0, th_ctor := CtorDone\<rparr>"
  have "thread_reach sem_initial name cb tid ?t1"
    by (rule thread_ctor [OF thread_new, where created = True]) (simp add: ctor_step_def new_Thread_def)
  then have "thread_reach sem_initial name cb tid ?t2"
    by (rule thread_ctor) (simp add: ctor_step_def new_Thread_def sem_initial_def)
  then show ?thesis by (intro exI [of _ ?t2]) (simp add: new_Thread_def)
qed

section \<open>The worker pool\<close>

text \<open>
  Where a worker is in the loop of \<open>Run\<close>: at the test of \<open>stop_\<close> (line 73); past it, before the search (78); with a task
  taken (102); running it, between the two changes of \<open>activeThreads_\<close>; behind them (112, 126), where a fiber that is ready is submitted
  again; before the idle fiber (134); in \<open>Wait\<close> up to the return of \<open>epoll_wait\<close>; there with the callbacks of the expired timers taken
  out of the timer manager and not yet submitted (\<open>io_manager.cc\<close> 270-274); out of \<open>Run\<close>. The idle fiber
  ends only when \<open>stop_\<close> is set, so that the \<open>break\<close> of line 136 is never reached before the test.
\<close>

datatype worker = AtTest | Search | Took task | Busy | After | Enter | Poll | Expired "task list" | Gone

record pool_state =
  wp_stop :: bool
  wp_tasks :: "task list"
  wp_workers :: "worker list"
  wp_pending :: u64
  wp_timers :: nat
  wp_pipe :: nat

text \<open>A scheduler is created stopped and without threads.\<close>

definition new_pool :: pool_state where
  "new_pool = \<lparr>wp_stop = True, wp_tasks = [], wp_workers = [], wp_pending = 0, wp_timers = 0, wp_pipe = 0\<rparr>"

text \<open>\<open>Start\<close> with \<open>n\<close> threads.\<close>

definition pool_Start :: "nat \<Rightarrow> pool_state \<Rightarrow> pool_state res" where
  "pool_Start n s =
     (if \<not> wp_stop s then Inr s
      else if wp_workers s \<noteq> [] then Inl AssertFail
      else Inr (s\<lparr>wp_stop := False, wp_workers := replicate n AtTest\<rparr>))"



text \<open>\<open>IOManager::Notify\<close>: a byte in the pipe if a thread is idle; and \<open>Submit\<close> of several tasks.\<close>

definition idle_worker :: "worker \<Rightarrow> bool" where
  "idle_worker p = (case p of Poll \<Rightarrow> True | Expired cbs \<Rightarrow> True | _ \<Rightarrow> False)"

definition pool_Notify :: "pool_state \<Rightarrow> pool_state" where
  "pool_Notify s = (if list_ex idle_worker (wp_workers s) then s\<lparr>wp_pipe := Suc (wp_pipe s)\<rparr> else s)"

fun pool_Submit :: "task list \<Rightarrow> pool_state \<Rightarrow> pool_state" where
  "pool_Submit [] s = s"
| "pool_Submit (t # ts) s =
     (case SubmitNoLock (Some t) (wp_tasks s) of (need_notify, q) \<Rightarrow>
      pool_Submit ts ((if need_notify then pool_Notify else id) (s\<lparr>wp_tasks := q\<rparr>)))"






definition pool_join :: "pool_state \<Rightarrow> pool_state option" where
  "pool_join s = (if \<forall>p \<in> set (wp_workers s). p = Gone then Some (s\<lparr>wp_workers := []\<rparr>) else None)"



subsection \<open>After the flag is set\<close>


lemma pool_Notify_fields [simp]:
  "wp_stop (pool_Notify s) = wp_stop s" "wp_tasks (pool_Notify s) = wp_tasks s" "wp_workers (pool_Notify s) = wp_workers s"
  "wp_pending (pool_Notify s) = wp_pending s" "wp_timers (pool_Notify s) = wp_timers s"
  by (simp_all add: pool_Notify_def)

lemma pool_Submit_fields [simp]:
  "wp_stop (pool_Submit ts s) = wp_stop s" "wp_tasks (pool_Submit ts s) = wp_tasks s @ ts"
  "wp_workers (pool_Submit ts s) = wp_workers s" "wp_pending (pool_Submit ts s) = wp_pending s"
  "wp_timers (pool_Submit ts s) = wp_timers s"
  by (induction ts s rule: pool_Submit.induct) (simp_all add: SubmitNoLock_def)

declare pool_Submit.simps [simp del]

















section \<open>Names of threads\<close>

text \<open>
  The thread-local state: the name of the \<open>Thread\<close> object of this thread, if it has one, and the thread's own copy of
  the name.
\<close>

record thread_local =
  tl_object_name :: "string option"
  tl_name :: string

definition no_thread_object :: thread_local where
  "no_thread_object = \<lparr>tl_object_name = None, tl_name = ''UNKNOWN''\<rparr>"

definition run_locals :: "thread_obj \<Rightarrow> thread_local" where
  "run_locals th = \<lparr>tl_object_name = Some (th_name th), tl_name = th_name th\<rparr>"

definition Thread_SetName :: "string \<Rightarrow> thread_local \<Rightarrow> thread_local" where
  "Thread_SetName name loc =
     (if tl_object_name loc \<noteq> None then loc\<lparr>tl_object_name := Some name\<rparr> else loc)\<lparr>tl_name := name\<rparr>"

definition Thread_getName :: "thread_local \<Rightarrow> string \<times> thread_local" where
  "Thread_getName loc =
     (case tl_object_name loc of
        Some name \<Rightarrow> (name, loc)
      | None \<Rightarrow> let loc = Thread_SetName ''main'' loc in (tl_name loc, loc))"

text \<open>
  A name that is set is read back on a thread that a \<open>Thread\<close> object created; on any other thread, for instance the main
  one, \<open>getName\<close> overwrites it with \<open>main\<close>.
\<close>

theorem thread_name_kept:
  "fst (Thread_getName (Thread_SetName name loc)) = (if tl_object_name loc = None then ''main'' else name) \<and>
   fst (Thread_getName (run_locals th)) = th_name th"
  by (auto simp: Thread_getName_def Thread_SetName_def run_locals_def)

end
