(* ===== verification/Event_Loop.thy ===== *)
theory Event_Loop
  imports IO_Manager Timer
begin

text \<open>
  A turn of the idle fiber: the loop of \<open>IOManager::Wait\<close> (\<open>src/io_manager.cc\<close>) from the point where the scheduler resumes it to
  the point where it yields or returns, over the timers of \<open>Timer\<close> and the events of \<open>IO_Manager\<close>; \<open>Scheduler::Wait\<close>
  (\<open>src/scheduler.cc\<close>); the clocks and identities of \<open>src/utils.cc\<close>; and the thread's current fiber
  (\<open>src/fiber.cc\<close>).
\<close>

section \<open>Clocks\<close>

text \<open>From the seconds and microseconds that \<open>gettimeofday\<close> gives, which are not negative.\<close>

definition GetCurrentMS :: "u64 \<Rightarrow> u64 \<Rightarrow> u64" where
  "GetCurrentMS tv_sec tv_usec = tv_sec * 1000 + tv_usec div 1000"

definition GetCurrentUS :: "u64 \<Rightarrow> u64 \<Rightarrow> u64" where
  "GetCurrentUS tv_sec tv_usec = tv_sec * 1000 * 1000 + tv_usec"

section \<open>The idle fiber\<close>

text \<open>
  The timeouts of the calls of \<open>epoll_wait\<close> when the first \<open>n\<close> are interrupted: the variable \<open>next_time\<close> keeps the
  converted value.
\<close>

fun poll_timeouts :: "nat \<Rightarrow> u64 \<Rightarrow> int list" where
  "poll_timeouts 0 next_time = [epoll_timeout next_time]"
| "poll_timeouts (Suc n) next_time =
     (let t = epoll_timeout next_time in t # poll_timeouts n (word_of_int t))"

text \<open>The callbacks of the expired timers as tasks; \<open>cl\<close> names the closures, and a null function is not queued.\<close>

definition timer_tasks :: "(callback \<Rightarrow> nat) \<Rightarrow> callback option list \<Rightarrow> task list" where
  "timer_tasks cl cbs = concat (map (\<lambda>cb. case cb of None \<Rightarrow> [] | Some c \<Rightarrow> [TaskFunc (cl c) (- 1)]) cbs)"

text \<open>
  \<open>scheduler_stopping\<close> is \<open>Scheduler::Stopping()\<close>; \<open>now0\<close> is the time at the beginning of the turn, \<open>now\<close> when \<open>epoll_wait\<close> comes
  back with \<open>events\<close>. \<open>None\<close>: the fiber returns.
\<close>

definition Wait_turn :: "bool \<Rightarrow> (callback \<Rightarrow> nat) \<Rightarrow> bool \<Rightarrow> u64 \<Rightarrow> nat \<Rightarrow> nat \<Rightarrow> u64 \<Rightarrow> reported list \<Rightarrow> timer_manager \<Rightarrow> iomanager \<Rightarrow>
    (int list \<times> timer_manager \<times> iomanager) option res" where
  "Wait_turn valid cl scheduler_stopping now0 interrupts a now events tm st =
     (let next_time = getNextTimerTime tm now0 in
      if im_Stopping st scheduler_stopping next_time then Inr None
      else case listOverTimeCallback tm a now of (cb, tm') \<Rightarrow>
        bindE (wait_round valid (timer_tasks cl cb) events st) (\<lambda>st'.
        Inr (Some (poll_timeouts interrupts next_time, tm', st'))))"

text \<open>The plain scheduler's idle fiber: whether it yields again.\<close>

definition Scheduler_Wait_turn :: "bool \<Rightarrow> task list \<Rightarrow> nat \<Rightarrow> bool" where
  "Scheduler_Wait_turn stop tasks activeThreads \<longleftrightarrow> \<not> sd_Stopping stop tasks activeThreads"

section \<open>The current fiber of a thread\<close>

text \<open>The thread's main fiber and its current fiber.\<close>

record fiber_local =
  fl_thread_fiber :: "nat option"
  fl_fiber :: "nat option"

definition Fiber_SetThis :: "nat option \<Rightarrow> fiber_local \<Rightarrow> fiber_local" where
  "Fiber_SetThis f loc = loc\<lparr>fl_fiber := f\<rparr>"

definition Fiber_GetThis :: "fiber_local \<Rightarrow> nat res" where
  "Fiber_GetThis loc = (case fl_fiber loc of None \<Rightarrow> Inl NullDeref | Some f \<Rightarrow> Inr f)"

text \<open>\<open>main\<close> is the address of a new main fiber, whose constructor makes it the current one.\<close>

definition EnableFiber :: "nat \<Rightarrow> fiber_local \<Rightarrow> fiber_local" where
  "EnableFiber main loc =
     (if fl_fiber loc = None then (Fiber_SetThis (Some main) loc)\<lparr>fl_thread_fiber := Some main\<rparr> else loc)"

definition Fiber_GetFiberId :: "(nat \<Rightarrow> u64) \<Rightarrow> fiber_local \<Rightarrow> u64" where
  "Fiber_GetFiberId ids loc = (case fl_fiber loc of None \<Rightarrow> 0 | Some f \<Rightarrow> ids f)"

text \<open>What \<open>Resume\<close> and \<open>Yield\<close> do to the current fiber; both use the context of the main fiber.\<close>

definition resume_local :: "nat \<Rightarrow> fiber_local \<Rightarrow> fiber_local res" where
  "resume_local f loc = (if fl_thread_fiber loc = None then Inl NullDeref else Inr (Fiber_SetThis (Some f) loc))"

definition yield_local :: "fiber_local \<Rightarrow> fiber_local res" where
  "yield_local loc = (if fl_thread_fiber loc = None then Inl NullDeref else Inr (Fiber_SetThis (fl_thread_fiber loc) loc))"

section \<open>Lemmas\<close>

text \<open>
  On a thread that has enabled fibers, a fiber that runs is the current one with its own id, and when it has yielded the
  main fiber is; on another thread there is no current fiber, the id is 0 and resuming dereferences null.
\<close>

lemma fiber_identity:
  "resume_local f (EnableFiber main \<lparr>fl_thread_fiber = None, fl_fiber = None\<rparr>) = Inr loc \<Longrightarrow>
     Fiber_GetThis loc = Inr f \<and> Fiber_GetFiberId ids loc = ids f \<and> bindE (yield_local loc) Fiber_GetThis = Inr main"
  "Fiber_GetThis \<lparr>fl_thread_fiber = None, fl_fiber = None\<rparr> = Inl NullDeref"
  "Fiber_GetFiberId ids \<lparr>fl_thread_fiber = None, fl_fiber = None\<rparr> = 0"
  "resume_local f \<lparr>fl_thread_fiber = None, fl_fiber = None\<rparr> = Inl NullDeref"
  by (auto simp: resume_local_def yield_local_def EnableFiber_def Fiber_SetThis_def Fiber_GetThis_def Fiber_GetFiberId_def)

lemma epoll_timeout_small:
  assumes "next_time < 2 ^ 31 \<or> next_time = - 1"
  shows "0 \<le> epoll_timeout next_time" "epoll_timeout next_time \<le> 3000"
    "next_time \<noteq> - 1 \<Longrightarrow> epoll_timeout next_time = min (int (unat next_time)) 3000"
proof -
  have "epoll_timeout next_time = (if next_time = - 1 then 3000 else min (int (unat next_time)) 3000)"
  proof (cases "next_time = - 1")
    case False
    then have n: "unat next_time < 2 ^ 31" using assms by (simp add: word_less_nat_alt)
    then have "epoll_timeout (of_nat (unat next_time)) = min (int (unat next_time)) 3000"
      using epoll_timeout_range [of "unat next_time"] by simp
    then show ?thesis using False by simp
  qed (use epoll_timeout_range [of 0] in simp)
  then show "0 \<le> epoll_timeout next_time" "epoll_timeout next_time \<le> 3000"
    "next_time \<noteq> - 1 \<Longrightarrow> epoll_timeout next_time = min (int (unat next_time)) 3000" by auto
qed

lemma poll_timeouts_bounds:
  "next_time < 2 ^ 31 \<or> next_time = - 1 \<Longrightarrow> set (poll_timeouts n next_time) \<subseteq> {0..3000}"
proof (induction n arbitrary: next_time)
  case 0
  then show ?case using epoll_timeout_small [of next_time] by simp
next
  case (Suc n)
  let ?t = "epoll_timeout next_time"
  have t: "0 \<le> ?t" "?t \<le> 3000" using epoll_timeout_small [OF Suc.prems] by auto
  then have "unat (word_of_int ?t :: u64) \<le> 3000" by (simp add: unat_eq_nat_uint uint_word_of_int)
  then have "(word_of_int ?t :: u64) < 2 ^ 31" by (simp add: word_less_nat_alt)
  then have "set (poll_timeouts n (word_of_int ?t)) \<subseteq> {0..3000}" using Suc.IH by blast
  then show ?case using t by (simp add: Let_def)
qed

lemma hd_poll_timeouts: "hd (poll_timeouts n next_time) = epoll_timeout next_time"
  by (cases n) (simp_all add: Let_def)

lemma epoll_timeout_large:
  assumes "2 ^ 31 \<le> next_time \<and> next_time < 2 ^ 32"
  shows "epoll_timeout next_time < 0"
proof -
  have n: "\<not> unat next_time < 2 ^ 31" "unat next_time < 2 ^ 32"
    using assms by (simp_all add: word_le_nat_alt word_less_nat_alt)
  then have "epoll_timeout (of_nat (unat next_time)) = int (unat next_time) - 2 ^ 32"
    using epoll_timeout_range [OF n(2)] by (simp only: if_False)
  moreover have "int (unat next_time) < 2 ^ 32"
    using n(2) by (metis of_nat_less_iff of_nat_numeral of_nat_power)
  ultimately show ?thesis by simp
qed

section \<open>Properties\<close>

text \<open>
  C13. One turn of the event loop, while an event is waited for: it does not return; if there is no timer or the next one is less than
  \<open>2^31\<close> milliseconds away, every call of \<open>epoll_wait\<close> waits between zero and three seconds, however often it is interrupted, but if the next
  one is between \<open>2^31\<close> and \<open>2^32\<close> milliseconds away, as the timer of a condition variable is, the first call gets a negative
  timeout and waits without limit; when the call returns, the callbacks of all expired timers are submitted, in the order of their
  deadlines, and after them the task of the event that the kernel reports; timers and contexts are consistent again.
\<close>

theorem event_loop_turn:
  assumes "tm_reach tm" "a \<notin> set (tm_timers tm)" "im_inv pipe st" "im_pending st \<noteq> 0"
    "i < length (im_ctxs st)" "int i \<noteq> pipe" "ev \<in> ic_events (im_ctxs st ! i)"
  shows "\<exists>ts tm' st' t. Wait_turn True cl stopping now0 interrupts a now
      [\<lparr>re_data = EpCtx i, re_events = {ev}, re_err = False\<rparr>] tm st = Inr (Some (ts, tm', st')) \<and>
    (getNextTimerTime tm now0 < 2 ^ 31 \<or> tm_timers tm = [] \<longrightarrow> set ts \<subseteq> {0..3000}) \<and>
    (2 ^ 31 \<le> getNextTimerTime tm now0 \<and> getNextTimerTime tm now0 < 2 ^ 32 \<longrightarrow> hd ts < 0) \<and>
    getEventContext ev (im_ctxs st ! i) = Some t \<and>
    im_submitted st' = im_submitted st @
      timer_tasks cl (map (\<lambda>x. t_callback (the (tm_obj tm x))) (filter (due tm a now) (tm_timers tm))) @ [t] \<and>
    sorted (map (next_of (tm_obj tm)) (filter (due tm a now) (tm_timers tm))) \<and> tm_inv tm' \<and> im_inv pipe st'"
proof -
  note inv = tm_reach_inv [OF assms(1)]
  let ?fire = "filter (due tm a now) (tm_timers tm)"
  obtain tm' where tm': "listOverTimeCallback tm a now = (map (\<lambda>x. t_callback (the (tm_obj tm x))) ?fire, tm')" "tm_inv tm'"
    using listOverTimeCallback_eq [OF inv assms(2)] by blast
  have "sorted_wrt (Comparator (tm_obj tm)) ?fire" using inv by (simp add: tm_inv_def sorted_wrt_filter)
  then have sorted: "sorted (map (next_of (tm_obj tm)) ?fire)"
    unfolding sorted_wrt_map by (rule sorted_wrt_mono_rel [rotated]) (auto simp: Comparator_def split: if_splits)
  obtain t where t: "getEventContext ev (im_ctxs st ! i) = Some t"
    using assms(3,5,6,7) by (fastforce simp: im_inv_def ctx_agrees_def)
  let ?st = "st\<lparr>im_submitted := im_submitted st @ timer_tasks cl (map (\<lambda>x. t_callback (the (tm_obj tm x))) ?fire)\<rparr>"
  have "im_inv pipe ?st" using assms(3) by (simp add: im_inv_def)
  then obtain st' where st': "wait_event True (EpCtx i) \<lparr>re_data = EpCtx i, re_events = {ev}, re_err = False\<rparr> ?st = Inr st'"
    "im_inv pipe st'" "im_submitted st' = im_submitted ?st @ [t]"
    using wait_one [of pipe ?st i ev t] assms(5,6,7) t by auto
  have "getNextTimerTime tm now0 < 2 ^ 31 \<or> tm_timers tm = [] \<Longrightarrow> set (poll_timeouts interrupts (getNextTimerTime tm now0)) \<subseteq> {0..3000}"
    by (rule poll_timeouts_bounds) (auto simp: getNextTimerTime_def)
  moreover have "2 ^ 31 \<le> getNextTimerTime tm now0 \<and> getNextTimerTime tm now0 < 2 ^ 32 \<Longrightarrow>
      hd (poll_timeouts interrupts (getNextTimerTime tm now0)) < 0"
    using hd_poll_timeouts epoll_timeout_large by metis
  ultimately show ?thesis using tm' st' sorted t assms(4)
    by (simp add: Wait_turn_def im_Stopping_def wait_round_def del: bindE_eq_Inr)
qed

theorem event_loop_turn_witness:
  "\<exists>st1 ts tm' st'. addEvent True 100 EvRead (TaskFiber 4 (- 1)) (new_IOManager 3) = Inr (True, st1) \<and>
    Wait_turn True (\<lambda>_. 9) False 0 2 8 20 [\<lparr>re_data = EpCtx 100, re_events = {EvRead}, re_err = False\<rparr>]
      (fst (addTimer new_TimerManager 4 10 5 (Some (Plain 2)) False)) st1 = Inr (Some (ts, tm', st')) \<and>
    set ts \<subseteq> {0..3000} \<and> im_submitted st' = [TaskFunc 9 (- 1), TaskFiber 4 (- 1)]"
proof -
  let ?tm = "fst (addTimer new_TimerManager 4 10 5 (Some (Plain 2)) False)"
  have tm: "tm_timers ?tm = [4]" "tm_obj ?tm 4 = Some (new_Timer 10 5 (Some (Plain 2)) False)" "tm_reach ?tm"
    using tm_reach_one by (simp_all add: addTimer_new)
  have none: "events_of (new_IOManager 3) 100 = {}" by (simp add: events_of_def new_IOManager_def contextResize_def)
  obtain st1 where s1: "addEvent True 100 EvRead (TaskFiber 4 (- 1)) (new_IOManager 3) = Inr (True, st1)" "im_inv 3 st1"
    "nat 100 < length (im_ctxs st1)" "EvRead \<in> ic_events (im_ctxs st1 ! nat 100)"
    "getEventContext EvRead (im_ctxs st1 ! nat 100) = Some (TaskFiber 4 (- 1))"
    "im_pending st1 = im_pending (new_IOManager 3) + 1" "im_submitted st1 = im_submitted (new_IOManager 3)"
    using addEvent_eq [OF im_inv_new [of 3], of 100 EvRead "TaskFiber 4 (- 1)"] none by auto
  have "im_pending st1 \<noteq> 0" "im_submitted st1 = []" using s1(6,7) by (simp_all add: new_IOManager_def contextResize_def)
  moreover have "getNextTimerTime ?tm 0 < 2 ^ 31" "due ?tm 8 20 4"
    by (simp_all add: getNextTimerTime_def tm due_def next_of_def new_Timer_def)
  ultimately show ?thesis
    using event_loop_turn [OF tm(3), of 8 3 st1 100 EvRead "\<lambda>_. 9" False 0 2 20] s1 tm(1,2)
    by (auto simp: timer_tasks_def new_Timer_def)
qed

end
