(* ===== verification/Byte_Buffers.thy ===== *)
theory Byte_Buffers
  imports Byte_Codec
begin

text \<open>
  The bulk interfaces of \<open>ByteArray\<close> (\<open>src/byte_array.cc\<close>): the scatter/gather vectors that
  \<open>getReadBuffers\<close> and \<open>getWriteBuffers\<close> hand to \<open>readv\<close>/\<open>writev\<close>, saving to and loading from a
  file, and the hexadecimal dump.

  An \<open>iovec\<close> into the block list is \<open>(block, offset, length)\<close>. \<open>gather\<close> is what a vectored send takes
  from the vectors, \<open>scatter\<close> what a vectored receive stores through them.
\<close>

section \<open>Scatter/gather vectors\<close>

type_synonym iovec = "nat \<times> nat \<times> nat"

function (sequential) iov_loop :: "bytes list \<Rightarrow> nat \<Rightarrow> nat \<Rightarrow> nat \<Rightarrow> iovec list res" where
  "iov_loop ns i npos len =
     (if len = 0 then Inr []
      else if length ns \<le> i then Inl NullDeref
      else let ncap = length (ns ! i) - npos in
        if len \<le> ncap then Inr [(i, npos, len)]
        else bindE (iov_loop ns (Suc i) 0 (len - ncap)) (\<lambda>iovs. Inr ((i, npos, ncap) # iovs)))"
  by pat_completeness auto
termination
  by (relation "measure (\<lambda>(ns, i, npos, len). length ns - i)") auto

declare iov_loop.simps [simp del]

definition getReadBuffers :: "bytearray \<Rightarrow> nat \<Rightarrow> (nat \<times> iovec list) res" where
  "getReadBuffers ba len =
     (let len = (if getReadableSize ba < len then getReadableSize ba else len) in
      if len = 0 then Inr (0, [])
      else bindE (iov_loop (ba_nodes ba) (ba_curr ba) (ba_pos ba mod ba_base ba) len)
        (\<lambda>iovs. Inr (len, iovs)))"

definition getReadBuffers_at :: "bytearray \<Rightarrow> nat \<Rightarrow> nat \<Rightarrow> (nat \<times> iovec list) res" where
  "getReadBuffers_at ba len position =
     (let len = (if getReadableSize ba < len then getReadableSize ba else len) in
      if len = 0 then Inr (0, [])
      else bindE (iov_loop (ba_nodes ba) (ba_curr ba) (position mod ba_base ba) len)
        (\<lambda>iovs. Inr (len, iovs)))"

definition getWriteBuffers :: "bytearray \<Rightarrow> nat \<Rightarrow> (nat \<times> iovec list \<times> bytearray) res" where
  "getWriteBuffers ba len =
     (if len = 0 then Inr (0, [], ba)
      else let ba1 = addCapacity ba len in
        bindE (iov_loop (ba_nodes ba1) (ba_curr ba1) (ba_pos ba1 mod ba_base ba1) len)
          (\<lambda>iovs. Inr (len, iovs, ba1)))"

definition gather :: "bytes list \<Rightarrow> iovec list \<Rightarrow> bytes" where
  "gather ns iovs = concat (map (\<lambda>(i, off, len). take len (drop off (ns ! i))) iovs)"

fun scatter :: "bytes list \<Rightarrow> iovec list \<Rightarrow> bytes \<Rightarrow> bytes list" where
  "scatter ns [] bs = ns"
| "scatter ns ((i, off, len) # iovs) bs =
     scatter (ns[i := overwrite off (take len bs) (ns ! i)]) iovs (drop len bs)"

section \<open>Files\<close>

text \<open>
  The loop of \<open>writeToFile\<close>. \<open>ofs.write\<close> takes a signed count: a negative one stores nothing and
  sets the bad bit, after which nothing is stored any more.
\<close>

function (sequential) file_loop :: "bytes list \<Rightarrow> nat \<Rightarrow> nat \<Rightarrow> nat \<Rightarrow> nat \<Rightarrow> bytes \<Rightarrow> bool \<Rightarrow>
    bytes res" where
  "file_loop ns b i pos read_size out good =
     (if read_size = 0 then Inr out
      else let diff = pos mod b;
               len = sz_sub (if b < read_size then b else read_size) diff in
        if length ns \<le> i then Inl NullDeref
        else if good \<and> len < 2 ^ 63 \<and> length (ns ! i) < diff + len then Inl OutOfBounds
        else file_loop ns b (Suc i) ((pos + len) mod 2 ^ 64) (sz_sub read_size len mod 2 ^ 64)
               (if good \<and> len < 2 ^ 63 then out @ take len (drop diff (ns ! i)) else out)
               (good \<and> len < 2 ^ 63))"
  by pat_completeness auto
termination
  by (relation "measure (\<lambda>(ns, b, i, pos, r, out, good). length ns - i)") auto

declare file_loop.simps [simp del]

text \<open>The content of the file afterwards; \<open>opened\<close> is whether the file could be opened.\<close>

definition writeToFile :: "bool \<Rightarrow> bytearray \<Rightarrow> bytes option res" where
  "writeToFile opened ba =
     (if \<not> opened then Inr None
      else bindE (file_loop (ba_nodes ba) (ba_base ba) (ba_curr ba) (ba_pos ba)
          (getReadableSize ba) [] True) (\<lambda>out. Inr (Some out)))"

text \<open>
  The loop of \<open>readFromFile\<close>: a read of \<open>base_size_\<close> bytes that comes up short sets the end-of-file
  bit. \<open>None\<close> is a loop that does not end.
\<close>

partial_function (option) load_loop :: "bytearray \<Rightarrow> bytes \<Rightarrow> bytearray res option" where
  "load_loop ba rest =
     (case ByteArray_write ba (take (ba_base ba) rest) of
        Inl e \<Rightarrow> Some (Inl e)
      | Inr ba' \<Rightarrow>
          if length rest < ba_base ba then Some (Inr ba') else load_loop ba' (drop (ba_base ba) rest))"

definition readFromFile :: "bytes option \<Rightarrow> bytearray \<Rightarrow> (bool \<times> bytearray) res option" where
  "readFromFile file ba =
     (case file of None \<Rightarrow> Some (Inr (False, ba))
      | Some content \<Rightarrow>
          (case load_loop ba content of None \<Rightarrow> None
           | Some r \<Rightarrow> Some (bindE r (\<lambda>ba'. Inr (True, ba')))))"

section \<open>Hexadecimal dump\<close>

definition hex_byte :: "u8 \<Rightarrow> bytes" where
  "hex_byte c = [hex_digit (unat c div 16), hex_digit (unat c mod 16)]"

fun hex_loop :: "nat \<Rightarrow> bytes \<Rightarrow> bytes" where
  "hex_loop i [] = []"
| "hex_loop i (c # cs) =
     (if 0 < i \<and> i mod 32 = 0 then [10] else []) @ hex_byte c @ [32] @ hex_loop (Suc i) cs"

definition toHexString :: "bytearray \<Rightarrow> bytes res" where
  "toHexString ba = bindE (ByteArray_toString ba) (\<lambda>str. Inr (hex_loop 0 str))"

section \<open>The vectors cover the bytes at the cursor\<close>

lemma iov_loop_spec:
  assumes "0 < b" "\<forall>nd \<in> set ns. length nd = b" "npos < b" "i * b + npos + n \<le> length ns * b"
  shows "\<exists>iovs. iov_loop ns i npos n = Inr iovs \<and> sum_list (map (\<lambda>v. snd (snd v)) iovs) = n \<and>
    gather ns iovs = take n (drop (i * b + npos) (concat ns))"
  using assms
proof (induction ns i npos n rule: iov_loop.induct)
  case (1 ns i npos n)
  note b = 1(2) and nodes = 1(3) and npos = 1(4) and room = 1(5)
  show ?case
  proof (cases "n = 0")
    case True
    then show ?thesis by (simp add: iov_loop.simps [of ns i npos 0] gather_def)
  next
    case False
    have cur: "i < length ns" using block_index_less [of i b npos n] room False by simp
    have nd: "length (ns ! i) = b" using nodes cur by simp
    have rest: "drop (i * b + npos) (concat ns) = drop npos (ns ! i) @ concat (drop (Suc i) ns)"
      using nodes cur npos by (intro drop_concat_nth) auto
    show ?thesis
    proof (cases "n \<le> b - npos")
      case True
      then show ?thesis
        using False cur nd rest by (simp add: iov_loop.simps [of ns i npos n] gather_def)
    next
      case more: False
      obtain iovs where iovs: "iov_loop ns (Suc i) 0 (n - (b - npos)) = Inr iovs"
        "sum_list (map (\<lambda>v. snd (snd v)) iovs) = n - (b - npos)"
        "gather ns iovs = take (n - (b - npos)) (drop (Suc i * b + 0) (concat ns))"
        using "1.IH" [of "b - npos"] False cur nd more b nodes npos room by auto
      have "drop (Suc i * b) (concat ns) = concat (drop (Suc i) ns)"
        using nodes by (rule drop_concat_blocks)
      then show ?thesis
        using iovs False cur nd more rest npos
        by (simp add: iov_loop.simps [of ns i npos n] gather_def Let_def)
    qed
  qed
qed

lemma scatter_spec:
  assumes "0 < b" "npos < b" "iov_loop ns i npos n = Inr iovs"
    "\<forall>nd \<in> set ns. length nd = b" "\<forall>nd \<in> set ns'. length nd = b" "length ns' = length ns"
    "length bs \<le> n" "i * b + npos + n \<le> length ns * b"
  shows "concat (scatter ns' iovs bs) = overwrite (i * b + npos) bs (concat ns') \<and>
    length (scatter ns' iovs bs) = length ns \<and> (\<forall>nd \<in> set (scatter ns' iovs bs). length nd = b)"
  using assms
proof (induction ns i npos n arbitrary: iovs ns' bs rule: iov_loop.induct)
  case (1 ns i npos n)
  note b = 1(2) and npos = 1(3) and run = 1(4) and nodes = 1(5) and nodes' = 1(6) and len = 1(7)
    and bs = 1(8) and room = 1(9)
  show ?case
  proof (cases "n = 0")
    case True
    then show ?thesis using run bs nodes' len by (simp add: iov_loop.simps [of ns i npos 0])
  next
    case False
    have cur: "i < length ns" "i < length ns'"
      using block_index_less [of i b npos n] room False len by simp_all
    have nd: "length (ns ! i) = b" using nodes cur by simp
    show ?thesis
    proof (cases "n \<le> b - npos")
      case True
      then have "iovs = [(i, npos, n)]"
        using run False cur nd by (simp add: iov_loop.simps [of ns i npos n])
      then show ?thesis
        using blocks_store [OF nodes' cur(2), of npos bs] bs True npos len by simp
    next
      case more: False
      let ?ncap = "b - npos"
      let ?ns = "ns'[i := overwrite npos (take ?ncap bs) (ns' ! i)]"
      obtain iovs' where iovs': "iov_loop ns (Suc i) 0 (n - ?ncap) = Inr iovs'"
        "iovs = (i, npos, ?ncap) # iovs'"
        using run False cur nd more by (auto simp: iov_loop.simps [of ns i npos n] Let_def)
      have fit: "npos + length (take ?ncap bs) \<le> b" using npos by simp
      note store = blocks_store [OF nodes' cur(2) fit]
      have rest: "concat (scatter ?ns iovs' (drop ?ncap bs)) =
          overwrite (Suc i * b + 0) (drop ?ncap bs) (concat ?ns) \<and>
        length (scatter ?ns iovs' (drop ?ncap bs)) = length ns \<and>
        (\<forall>nd \<in> set (scatter ?ns iovs' (drop ?ncap bs)). length nd = b)"
        by (rule "1.IH" [of ?ncap]) (use False cur nd more b npos iovs' nodes store(1) len bs room in auto)
      have joined: "overwrite (Suc i * b + 0) (drop ?ncap bs) (concat ?ns) =
          overwrite (i * b + npos) bs (concat ns')"
      proof (cases "length bs \<le> ?ncap")
        case True
        then show ?thesis using store(2) by simp
      next
        case long: False
        have "i * b + npos + length bs \<le> length (concat ns')"
          using room bs len length_concat_blocks [OF nodes'] by simp
        then have "overwrite (i * b + npos + length (take ?ncap bs)) (drop ?ncap bs)
            (overwrite (i * b + npos) (take ?ncap bs) (concat ns')) =
          overwrite (i * b + npos) (take ?ncap bs @ drop ?ncap bs) (concat ns')"
          by (intro overwrite_overwrite) simp
        then have ov: "overwrite (i * b + npos + length (take ?ncap bs)) (drop ?ncap bs)
            (overwrite (i * b + npos) (take ?ncap bs) (concat ns')) =
          overwrite (i * b + npos) bs (concat ns')"
          unfolding append_take_drop_id .
        have "Suc i * b + 0 = i * b + npos + length (take ?ncap bs)" using long npos by simp
        then show ?thesis unfolding store(2) using ov by argo
      qed
      from rest show ?thesis unfolding iovs'(2) scatter.simps joined .
    qed
  qed
qed

lemma getReadBuffers_view:
  assumes "ba_inv ba"
  shows "\<exists>iovs. getReadBuffers ba len = Inr (min len (length (ahead ba)), iovs) \<and>
    gather (ba_nodes ba) iovs = take len (ahead ba)"
proof -
  let ?n = "min len (length (ahead ba))"
  have sh: "ba_shape ba" "ba_pos ba + ?n \<le> ba_size ba" using assms by (auto simp: ba_inv_def)
  obtain iovs where iovs: "iov_loop (ba_nodes ba) (ba_curr ba) (ba_pos ba mod ba_base ba) ?n = Inr iovs"
    "gather (ba_nodes ba) iovs = take ?n (drop (ba_pos ba) (ba_mem ba))"
    using iov_loop_spec [of "ba_base ba" "ba_nodes ba" "ba_pos ba mod ba_base ba" "ba_curr ba" ?n] sh
    by (auto simp: ba_shape_def ba_mem_def)
  have "take ?n (drop (ba_pos ba) (ba_mem ba)) = take len (ahead ba)"
    using assms by (simp add: ahead_def min_def)
  moreover have "getReadBuffers ba len = Inr (?n, if ?n = 0 then [] else iovs)"
    using iovs(1) getReadableSize_ahead [OF assms]
    by (auto simp: getReadBuffers_def Let_def min_def simp del: length_ahead)
  ultimately show ?thesis
    using iovs(2) by (intro exI [of _ "if ?n = 0 then [] else iovs"]) (auto simp: gather_def)
qed

text \<open>
  Receiving into the write buffers and advancing the position has the effect of a \<open>write\<close>.
\<close>

lemma getWriteBuffers_fill:
  assumes "ba_inv ba" "0 < len"
  shows "\<exists>iovs ba1. getWriteBuffers ba len = Inr (len, iovs, ba1) \<and> ba_pos ba1 = ba_pos ba \<and>
    sum_list (map (\<lambda>v. snd (snd v)) iovs) = len \<and>
    (\<forall>bs. length bs \<le> len \<longrightarrow>
      (\<exists>ba'. ByteArray_setPosition (ba1\<lparr>ba_nodes := scatter (ba_nodes ba1) iovs bs\<rparr>)
          (ba_pos ba + length bs) = Inr ba' \<and> wrote ba bs ba'))"
proof -
  define ba1 where "ba1 = addCapacity ba len"
  have sh: "ba_shape ba" using assms(1) by (simp add: ba_inv_def)
  have sh1: "ba_shape ba1" and cap1: "ba_pos ba + len \<le> ba_cap ba1"
    using addCapacity_spec [OF sh] by (auto simp: ba1_def)
  obtain junk where junk: "ba_mem ba1 = ba_mem ba @ junk"
    using addCapacity_spec(3) [OF sh, of len] by (auto simp: ba1_def)
  have f1: "ba_pos ba1 = ba_pos ba" "ba_size ba1 = ba_size ba" by (simp_all add: ba1_def)
  let ?b = "ba_base ba1" and ?p = "ba_pos ba1 mod ba_base ba1"
  have b: "0 < ?b" "\<forall>nd \<in> set (ba_nodes ba1). length nd = ?b" "ba_curr ba1 * ?b + ?p = ba_pos ba"
    "ba_cap ba1 = length (ba_nodes ba1) * ?b"
    using sh1 f1 by (auto simp: ba_shape_def)
  have room: "ba_curr ba1 * ?b + ?p + len \<le> length (ba_nodes ba1) * ?b"
    using cap1 b by simp
  obtain iovs where iovs: "iov_loop (ba_nodes ba1) (ba_curr ba1) ?p len = Inr iovs"
    "sum_list (map (\<lambda>v. snd (snd v)) iovs) = len"
    using iov_loop_spec [OF b(1,2) _ room] b(1) by auto
  have "\<exists>ba'. ByteArray_setPosition (ba1\<lparr>ba_nodes := scatter (ba_nodes ba1) iovs bs\<rparr>)
      (ba_pos ba + length bs) = Inr ba' \<and> wrote ba bs ba'" if "length bs \<le> len" for bs
  proof -
    let ?ns = "scatter (ba_nodes ba1) iovs bs"
    let ?ba2 = "ba1\<lparr>ba_nodes := ?ns\<rparr>"
    have ns: "concat ?ns = overwrite (ba_pos ba) bs (ba_mem ba @ junk)"
      "length ?ns = length (ba_nodes ba1)" "\<forall>nd \<in> set ?ns. length nd = ?b"
      using scatter_spec [OF b(1) _ iovs(1) b(2,2) refl that room] b(1) unfolding b(3)
      by (simp_all add: junk [unfolded ba_mem_def] ba_mem_def)
    then have sh2: "ba_shape ?ba2" using sh1 by (auto simp: ba_shape_def)
    let ?ba' = "?ba2\<lparr>ba_pos := ba_pos ba + length bs, ba_size := max (ba_size ba) (ba_pos ba + length bs),
      ba_curr := (ba_pos ba + length bs) div ?b\<rparr>"
    have "ByteArray_setPosition ?ba2 (ba_pos ba + length bs) = Inr ?ba'"
      using ByteArray_setPosition_eq [OF sh2, of "ba_pos ba + length bs"] cap1 that f1 by simp
    moreover have "ba_inv ?ba'"
      using sh2 cap1 that f1 by (auto simp: ba_inv_def ba_shape_def)
    then have "wrote ba bs ?ba'"
      using assms(1) ns(1) by (intro wrote_overwrite [where junk = junk]) (simp_all add: ba_mem_def)
    ultimately show ?thesis by blast
  qed
  moreover have "getWriteBuffers ba len = Inr (len, iovs, ba1)"
    using assms(2) iovs(1) by (simp add: getWriteBuffers_def Let_def ba1_def)
  ultimately show ?thesis using f1(1) iovs(2) by blast
qed

section \<open>Files\<close>

lemma load_loop_loads:
  "ba_inv ba \<Longrightarrow> \<exists>ba'. load_loop ba content = Some (Inr ba') \<and> wrote ba content ba'"
proof (induction "length content" arbitrary: content ba rule: less_induct)
  case less
  obtain ba1 where ba1: "ByteArray_write ba (take (ba_base ba) content) = Inr ba1"
    "wrote ba (take (ba_base ba) content) ba1"
    using ByteArray_write_wrote [OF less.prems] by blast
  have b: "0 < ba_base ba" using less.prems by (simp add: ba_inv_defs)
  show ?case
  proof (cases "length content < ba_base ba")
    case True
    then show ?thesis using ba1 by (subst load_loop.simps) simp
  next
    case False
    then have "length content - ba_base ba < length content" using b by linarith
    then obtain ba2 where ba2: "load_loop ba1 (drop (ba_base ba) content) = Some (Inr ba2)"
      "wrote ba1 (drop (ba_base ba) content) ba2"
      using less.hyps [of "drop (ba_base ba) content" ba1] wrote_inv [OF ba1(2)] b by auto
    then show ?thesis
      using ba1 False wrote_trans [OF ba1(2) ba2(2)] by (subst load_loop.simps) simp
  qed
qed

lemma file_loop_spec:
  assumes "0 < b" "\<forall>nd \<in> set ns. length nd = b" "pos div b = i" "pos mod b = 0 \<or> b \<le> r"
    "pos + r \<le> length ns * b" "pos + r < 2 ^ 63"
  shows "file_loop ns b i pos r out True = Inr (out @ take r (drop pos (concat ns)))"
  using assms
proof (induction r arbitrary: i pos out rule: less_induct)
  case (less r)
  note b = less.prems(1) and nodes = less.prems(2) and i = less.prems(3) and al = less.prems(4)
    and room = less.prems(5) and small = less.prems(6)
  show ?case
  proof (cases "r = 0")
    case True
    then show ?thesis by (simp add: file_loop.simps [of ns b i pos 0])
  next
    case False
    define diff where "diff = pos mod b"
    define len where "len = (if b < r then b else r) - diff"
    have pos: "pos = i * b + diff" and diff: "diff < b" using i b by (auto simp: diff_def)
    have len: "sz_sub (if b < r then b else r) diff = len" "0 < len" "diff + len \<le> b" "len \<le> r"
      "len = r \<or> diff + len = b"
      using al diff False b by (auto simp: len_def diff_def split: if_splits)
    have cur: "i < length ns" using block_index_less [of i b diff r] room False pos by simp
    have nd: "length (ns ! i) = b" using nodes cur by simp
    have "drop pos (concat ns) = drop diff (ns ! i) @ concat (drop (Suc i) ns)"
      unfolding pos using nodes cur diff by (intro drop_concat_nth) auto
    then have chunk: "take len (drop diff (ns ! i)) = take len (drop pos (concat ns))"
      using len(3) nd by simp
    have step: "file_loop ns b i pos r out True =
        file_loop ns b (Suc i) (pos + len) (r - len) (out @ take len (drop pos (concat ns))) True"
      using False cur nd len small
      by (subst file_loop.simps) (simp add: Let_def diff_def [symmetric] chunk)
    have whole: "take len (drop pos (concat ns)) @ take (r - len) (drop (pos + len) (concat ns)) =
        take r (drop pos (concat ns))"
      using len(4) by (metis add.commute drop_drop le_add_diff_inverse take_add)
    show ?thesis
    proof (cases "len = r")
      case True
      then show ?thesis by (simp add: step file_loop.simps [of ns b "Suc i" "pos + r" 0])
    next
      case False
      then have "pos + len = Suc i * b" using len(5) pos by simp
      then have "(pos + len) div b = Suc i" "(pos + len) mod b = 0"
        using b by (simp_all only: nonzero_mult_div_cancel_right mod_mult_self2_is_0)
      then have "file_loop ns b (Suc i) (pos + len) (r - len) (out @ take len (drop pos (concat ns))) True =
          Inr ((out @ take len (drop pos (concat ns))) @ take (r - len) (drop (pos + len) (concat ns)))"
        by (intro less.IH) (use len b nodes room small in auto)
      then show ?thesis using step whole by simp
    qed
  qed
qed

section \<open>Properties\<close>

text \<open>
  The read vectors name exactly the first \<open>len\<close> readable bytes, in order, across block
  boundaries, and the result is their number.
\<close>

theorem read_buffers_gather:
  assumes "ba_inv ba"
  shows "\<exists>iovs. getReadBuffers ba len = Inr (min len (length (ahead ba)), iovs) \<and>
    gather (ba_nodes ba) iovs = take len (ahead ba)"
  using assms by (rule getReadBuffers_view)

theorem read_buffers_gather_witness:
  "\<exists>iovs. getReadBuffers sample_buffer 3 = Inr (min 3 4, iovs) \<and>
    gather (ba_nodes sample_buffer) iovs = [2, 3, 4]"
  using read_buffers_gather [of sample_buffer 3] by (simp add: numeral_3_eq_3)

text \<open>
  Storing any \<open>n \<le> len\<close> bytes through the vectors of \<open>getWriteBuffers(len)\<close>, as a vectored
  receive does, and moving the position by \<open>n\<close> has the effect of \<open>write\<close>: the bytes are appended
  behind the position and no other data is touched.
\<close>

theorem write_buffers_scatter:
  assumes "ba_inv ba" "0 < len" "length bs \<le> len"
  shows "\<exists>iovs ba1 ba'. getWriteBuffers ba len = Inr (len, iovs, ba1) \<and>
    sum_list (map (\<lambda>v. snd (snd v)) iovs) = len \<and>
    ByteArray_setPosition (ba1\<lparr>ba_nodes := scatter (ba_nodes ba1) iovs bs\<rparr>)
      (ba_pos ba1 + length bs) = Inr ba' \<and>
    ba_inv ba' \<and> behind ba' = behind ba @ bs \<and> ahead ba' = drop (length bs) (ahead ba)"
  using getWriteBuffers_fill [OF assms(1,2)] assms(3) unfolding wrote_def by metis

theorem write_buffers_scatter_witness:
  "\<exists>iovs ba1 ba'. getWriteBuffers sample_buffer 7 = Inr (7, iovs, ba1) \<and>
    ByteArray_setPosition (ba1\<lparr>ba_nodes := scatter (ba_nodes ba1) iovs [8, 9, 10]\<rparr>)
      (ba_pos ba1 + length [8, 9, 10 :: u8]) = Inr ba' \<and> behind ba' = [1, 8, 9, 10] \<and> ahead ba' = [5]"
  using write_buffers_scatter [of sample_buffer 7 "[8, 9, 10]"] by auto

text \<open>
  \<open>readFromFile\<close> on a file that opens terminates, for every content (also when its length is a
  multiple of the block size), and appends exactly the content of the file.
\<close>

theorem file_loaded:
  assumes "ba_inv ba"
  shows "\<exists>ba'. readFromFile (Some content) ba = Some (Inr (True, ba')) \<and> ba_inv ba' \<and>
    behind ba' = behind ba @ content"
  using load_loop_loads [OF assms, of content] by (auto simp: readFromFile_def wrote_def)

theorem file_loaded_witness:
  "\<exists>ba'. readFromFile (Some [1, 2, 3, 4]) (new_ByteArray (\<lambda>_ _. 7) 2) = Some (Inr (True, ba')) \<and>
    behind ba' = [1, 2, 3, 4]"
  using file_loaded [of "new_ByteArray (\<lambda>_ _. 7) 2" "[1, 2, 3, 4]"] by (auto simp: ba_inv_new_ByteArray)

text \<open>
  \<open>writeToFile\<close> stores exactly the readable bytes when the position is at the start of a block
  or at least a whole block is readable.
\<close>

theorem file_saved:
  assumes "ba_inv ba" "ba_pos ba mod ba_base ba = 0 \<or> ba_base ba \<le> length (ahead ba)"
    "ba_size ba < 2 ^ 63"
  shows "writeToFile True ba = Inr (Some (ahead ba))"
proof -
  have sh: "ba_shape ba" "ba_pos ba \<le> ba_size ba" using assms(1) by (auto simp: ba_inv_def)
  have "file_loop (ba_nodes ba) (ba_base ba) (ba_curr ba) (ba_pos ba) (length (ahead ba)) [] True =
      Inr ([] @ take (length (ahead ba)) (drop (ba_pos ba) (concat (ba_nodes ba))))"
    using sh assms by (intro file_loop_spec) (auto simp: ba_shape_def)
  then show ?thesis
    using assms(1) getReadableSize_ahead [OF assms(1)]
    by (simp add: writeToFile_def) (simp add: ahead_def ba_mem_def)
qed

theorem file_saved_witness: "writeToFile True sample_buffer = Inr (Some [2, 3, 4, 5])"
  using file_saved [of sample_buffer] by (simp add: sample_buffer_view(3)) (simp add: sample_buffer_def)

text \<open>
  Otherwise it breaks: with the position inside the last block and fewer bytes readable than
  lie before the position in that block, the chunk length wraps below zero, nothing is stored, and
  the loop goes on into the null pointer behind the last block.
\<close>

theorem file_save_misaligned:
  assumes "ba_inv ba" "0 < length (ahead ba)" "length (ahead ba) < ba_pos ba mod ba_base ba"
    "ba_curr ba = length (ba_nodes ba) - 1" "ba_size ba < 2 ^ 62"
  shows "writeToFile True ba = Inl NullDeref"
proof -
  let ?r = "length (ahead ba)" and ?d = "ba_pos ba mod ba_base ba"
  let ?len = "2 ^ 64 - (?d - ?r)"
  have sh: "0 < ba_base ba" "ba_nodes ba \<noteq> []" "ba_pos ba \<le> ba_size ba"
    using assms(1) by (auto simp: ba_inv_def ba_shape_def)
  have d: "?d < ba_base ba" "?d \<le> ba_pos ba" using sh(1) by (auto simp: mod_less_eq_dividend)
  then have "?d - ?r < 2 ^ 62" using assms(5) sh(3) by linarith
  then have len: "sz_sub (if ba_base ba < ?r then ba_base ba else ?r) ?d = ?len" "2 ^ 63 \<le> ?len"
    using assms(3) d(1) by (auto simp: sz_sub_def simp del: length_ahead)
  have "sz_sub ?r ?len mod 2 ^ 64 \<noteq> 0"
  proof -
    have "?r < 2 ^ 62" using assms(5) d(2) sh(3) assms(3) by linarith
    then have "\<not> ?len \<le> ?r" using len(2) by simp
    then have "sz_sub ?r ?len = 2 ^ 64 - (?len - ?r)" by (simp add: sz_sub_def)
    also have "\<dots> = ?d"
    proof -
      have "?d < 2 ^ 62" using assms(5) d(2) sh(3) by linarith
      then show ?thesis using assms(3) by (simp del: length_ahead mod_less_eq_dividend)
    qed
    finally have "sz_sub ?r ?len = ?d" .
    moreover have "0 < ?d" using assms(3) by linarith
    moreover have "?d < 2 ^ 62" using assms(5) d(2) sh(3) by linarith
    then have "?d < 2 ^ 64" by simp
    ultimately show ?thesis by (simp only: mod_less)
  qed
  then have "file_loop (ba_nodes ba) (ba_base ba) (ba_curr ba) (ba_pos ba) ?r [] True = Inl NullDeref"
    using assms(2,4) sh len
    by (subst file_loop.simps, subst file_loop.simps) (simp add: Let_def)
  then show ?thesis
    using getReadableSize_ahead [OF assms(1)] by (simp add: writeToFile_def)
qed

theorem file_save_misaligned_witness:
  "writeToFile True \<lparr>ba_nodes = [[1, 2, 3, 4]], ba_curr = 0, ba_base = 4, ba_pos = 2,
     ba_cap = 4, ba_size = 3, ba_endian = RPC_LITTLE_ENDIAN, ba_fill = (\<lambda>_ _. 7)\<rparr> = Inl NullDeref"
  by (rule file_save_misaligned) (simp_all add: ba_inv_defs ahead_def ba_mem_def)

end
