(* ===== verification/Socket.thy ===== *)
theory Socket
  imports IO_Manager Address Byte_Buffers
begin

text \<open>
  Sockets (\<open>include/socket.h\<close>, \<open>src/socket.cc\<close>) over the hooked system calls and the descriptor
  contexts.

  The answers of the kernel during one operation are a record \<open>kernel\<close>. Opening a descriptor is a
  function of the operating system's state, so that the documented behaviour, that the
  descriptor was not in use, can be stated (\<open>fresh_kernel\<close>). \<open>en\<close> tells whether the thread has
  hooks enabled, \<open>iom\<close> whether it has an IO manager.
\<close>

section \<open>The kernel\<close>

text \<open>What \<open>getsockname\<close> writes, read as each of the address structures.\<close>

record sock_name =
  nm_in :: sockaddr_in
  nm_in6 :: sockaddr_in6
  nm_path :: bytes
  nm_len :: nat

datatype opt_value = OptInt u32 | OptTime u64 u64

record kernel =
  kn_socket :: "os \<Rightarrow> (int \<times> u32) option"
  kn_setopt :: "nat \<times> nat \<Rightarrow> bool"
  kn_getopt :: "nat \<times> nat \<Rightarrow> u32 option"
  kn_bind :: bool
  kn_listen :: bool
  kn_connect :: "io_ret \<times> hk_wait \<times> (nat + nat)"
  kn_name :: "sock_name option"
  kn_peer :: "sock_name option"

definition fresh_kernel :: "kernel \<Rightarrow> bool" where
  "fresh_kernel k \<longleftrightarrow> (\<forall>os fd flags. kn_socket k os = Some (fd, flags) \<longrightarrow> os_stat os fd = None)"

text \<open>The hooked world and the options set on each descriptor.\<close>

record net_world =
  nw_hook :: hook_state
  nw_opts :: "int \<Rightarrow> nat \<times> nat \<Rightarrow> opt_value option"

definition SO_REUSEADDR :: nat where "SO_REUSEADDR = 2"
definition SO_ERROR :: nat where "SO_ERROR = 4"
definition IPPROTO_TCP :: nat where "IPPROTO_TCP = 6"
definition TCP_NODELAY :: nat where "TCP_NODELAY = 1"
definition SOCK_STREAM :: nat where "SOCK_STREAM = 1"
definition SOCK_DGRAM :: nat where "SOCK_DGRAM = 2"

section \<open>Sockets\<close>

datatype sock_address = NetAddress address | UnixAddress unix_address

fun getFamily :: "sock_address \<Rightarrow> u16" where
  "getFamily (NetAddress (IPv4Address a)) = sin_family a"
| "getFamily (NetAddress (IPv6Address a)) = sin6_family a"
| "getFamily (NetAddress (UnknownAddress f)) = f"
| "getFamily (UnixAddress a) = AF_UNIX"

fun sock_address_toString :: "sock_address \<Rightarrow> bytes" where
  "sock_address_toString (NetAddress a) = address_toString a"
| "sock_address_toString (UnixAddress a) = Unix_insert a"

record socket_obj =
  sk_fd :: int
  sk_family :: u16
  sk_type :: nat
  sk_protocol :: nat
  sk_connected :: bool
  sk_local :: "sock_address option"
  sk_remote :: "sock_address option"

definition new_Socket :: "u16 \<Rightarrow> nat \<Rightarrow> nat \<Rightarrow> socket_obj" where
  "new_Socket family type protocol =
     \<lparr>sk_fd = - 1, sk_family = family, sk_type = type, sk_protocol = protocol, sk_connected = False,
      sk_local = None, sk_remote = None\<rparr>"

definition CreateTCP :: "sock_address \<Rightarrow> socket_obj" where
  "CreateTCP address = new_Socket (getFamily address) SOCK_STREAM 0"

definition CreateUDP :: "sock_address \<Rightarrow> socket_obj" where
  "CreateUDP address = new_Socket (getFamily address) SOCK_DGRAM 0"

definition CreateTCPSocket :: socket_obj where
  "CreateTCPSocket = new_Socket AF_INET SOCK_STREAM 0"

definition CreateUDPSocket :: socket_obj where
  "CreateUDPSocket = new_Socket AF_INET SOCK_DGRAM 0"

definition CreateTCPSocket6 :: socket_obj where
  "CreateTCPSocket6 = new_Socket AF_INET6 SOCK_STREAM 0"

definition CreateUDPSocket6 :: socket_obj where
  "CreateUDPSocket6 = new_Socket AF_INET6 SOCK_DGRAM 0"

definition CreateUnixTCPSocket :: socket_obj where
  "CreateUnixTCPSocket = new_Socket AF_UNIX SOCK_STREAM 0"

definition CreateUnixUDPSocket :: socket_obj where
  "CreateUnixUDPSocket = new_Socket AF_UNIX SOCK_DGRAM 0"

subsection \<open>Options\<close>

fun opt_timeval :: "opt_value \<Rightarrow> u64 \<times> u64" where
  "opt_timeval (OptInt n) = (ucast n, 0)"
| "opt_timeval (OptTime sec usec) = (sec, usec)"

definition setOption :: "bool \<Rightarrow> kernel \<Rightarrow> nat \<Rightarrow> nat \<Rightarrow> opt_value \<Rightarrow> socket_obj \<Rightarrow> net_world \<Rightarrow>
    (bool \<times> net_world) res" where
  "setOption en k level optname v s w =
     (case opt_timeval v of (sec, usec) \<Rightarrow>
        bindE (hook_setsockopt en (sk_fd s) level optname sec usec (nw_hook w)) (\<lambda>h.
        let w = w\<lparr>nw_hook := h\<rparr> in
        Inr (if kn_setopt k (level, optname)
             then (True, w\<lparr>nw_opts := (nw_opts w)(sk_fd s := (nw_opts w (sk_fd s))((level, optname) \<mapsto> v))\<rparr>)
             else (False, w))))"

text \<open>The option's value, or none where the call fails.\<close>

definition getOption :: "kernel \<Rightarrow> nat \<Rightarrow> nat \<Rightarrow> u32 option" where
  "getOption k level optname = kn_getopt k (level, optname)"

definition sock_getError :: "kernel \<Rightarrow> int" where
  "sock_getError k = (case getOption k SOL_SOCKET SO_ERROR of None \<Rightarrow> - 1 | Some e \<Rightarrow> sint e)"

text \<open>The two fields are computed in \<open>uint64_t\<close>, cut to \<open>int\<close> and widened to \<open>long\<close>.\<close>

definition to_timeval :: "u64 \<Rightarrow> opt_value" where
  "to_timeval time = OptTime (scast (ucast (time div 1000) :: u32)) (scast (ucast (time mod 1000 * 1000) :: u32))"

definition setSendTimeout :: "bool \<Rightarrow> kernel \<Rightarrow> u64 \<Rightarrow> socket_obj \<Rightarrow> net_world \<Rightarrow> net_world res" where
  "setSendTimeout en k time s w =
     bindE (setOption en k SOL_SOCKET SO_SNDTIMEO (to_timeval time) s w) (\<lambda>(_, w). Inr w)"

definition setRecvTimeout :: "bool \<Rightarrow> kernel \<Rightarrow> u64 \<Rightarrow> socket_obj \<Rightarrow> net_world \<Rightarrow> net_world res" where
  "setRecvTimeout en k time s w =
     bindE (setOption en k SOL_SOCKET SO_RCVTIMEO (to_timeval time) s w) (\<lambda>(_, w). Inr w)"

definition sock_context :: "socket_obj \<Rightarrow> net_world \<Rightarrow> fd_context option res" where
  "sock_context s w =
     bindE (getFdContext (sk_fd s) False (hk_os (nw_hook w)) (hk_fds (nw_hook w))) (\<lambda>(ctx, _). Inr ctx)"

definition getSendTimeout :: "socket_obj \<Rightarrow> net_world \<Rightarrow> u64 res" where
  "getSendTimeout s w =
     bindE (sock_context s w) (\<lambda>ctx. Inr (case ctx of None \<Rightarrow> - 1 | Some c \<Rightarrow> fc_getTimeout SO_SNDTIMEO c))"

definition getRecvTimeout :: "socket_obj \<Rightarrow> net_world \<Rightarrow> u64 res" where
  "getRecvTimeout s w =
     bindE (sock_context s w) (\<lambda>ctx. Inr (case ctx of None \<Rightarrow> - 1 | Some c \<Rightarrow> fc_getTimeout SO_RCVTIMEO c))"

subsection \<open>Descriptors\<close>

definition initSocket :: "bool \<Rightarrow> kernel \<Rightarrow> socket_obj \<Rightarrow> net_world \<Rightarrow> net_world res" where
  "initSocket en k s w =
     bindE (setOption en k SOL_SOCKET SO_REUSEADDR (OptInt 1) s w) (\<lambda>(_, w).
     if sk_type s = SOCK_STREAM
     then bindE (setOption en k IPPROTO_TCP TCP_NODELAY (OptInt 1) s w) (\<lambda>(_, w). Inr w)
     else Inr w)"

text \<open>A new descriptor has no options set.\<close>

definition fresh_opts :: "int \<Rightarrow> net_world \<Rightarrow> net_world" where
  "fresh_opts fd w = w\<lparr>nw_opts := (nw_opts w)(fd := Map.empty)\<rparr>"

definition newSocket :: "bool \<Rightarrow> kernel \<Rightarrow> socket_obj \<Rightarrow> net_world \<Rightarrow> (socket_obj \<times> net_world) res" where
  "newSocket en k s w =
     bindE (hook_socket en (kn_socket k (hk_os (nw_hook w))) (nw_hook w)) (\<lambda>(fd, h).
     let s = s\<lparr>sk_fd := fd\<rparr>; w = w\<lparr>nw_hook := h\<rparr> in
     if fd = - 1 then Inr (s, w)
     else bindE (initSocket en k s (fresh_opts fd w)) (\<lambda>w. Inr (s, w)))"

definition isVaild :: "socket_obj \<Rightarrow> net_world \<Rightarrow> bool res" where
  "isVaild s w =
     (if sk_fd s = - 1 then Inr False
      else bindE (sock_context s w) (\<lambda>ctx.
        Inr (case ctx of None \<Rightarrow> False | Some c \<Rightarrow> \<not> fc_is_close c \<and> fc_is_socket c)))"

text \<open>The first lines of \<open>bind\<close> and \<open>connect\<close>: open a descriptor if there is no valid one.\<close>

definition sock_ready :: "bool \<Rightarrow> kernel \<Rightarrow> socket_obj \<Rightarrow> net_world \<Rightarrow> (bool \<times> socket_obj \<times> net_world) res" where
  "sock_ready en k s w =
     bindE (isVaild s w) (\<lambda>v.
     if v then Inr (True, s, w)
     else bindE (newSocket en k s w) (\<lambda>(s, w).
          bindE (isVaild s w) (\<lambda>v. Inr (v, s, w))))"

definition read_name :: "u16 \<Rightarrow> sock_name \<Rightarrow> sock_address" where
  "read_name family nm =
     (if family = AF_INET then NetAddress (IPv4Address (nm_in nm))
      else if family = AF_INET6 then NetAddress (IPv6Address (nm_in6 nm))
      else if family = AF_UNIX then UnixAddress (Unix_setAddrLen (new_UnixAddress\<lparr>ua_path := nm_path nm\<rparr>) (nm_len nm))
      else NetAddress (UnknownAddress family))"

definition getLocalAddress :: "kernel \<Rightarrow> socket_obj \<Rightarrow> sock_address \<times> socket_obj" where
  "getLocalAddress k s =
     (case sk_local s of
        Some a \<Rightarrow> (a, s)
      | None \<Rightarrow> (case kn_name k of
            None \<Rightarrow> (NetAddress (UnknownAddress (sk_family s)), s)
          | Some nm \<Rightarrow> let r = read_name (sk_family s) nm in (r, s\<lparr>sk_local := Some r\<rparr>)))"

definition getRemoteAddress :: "kernel \<Rightarrow> socket_obj \<Rightarrow> sock_address \<times> socket_obj" where
  "getRemoteAddress k s =
     (case sk_remote s of
        Some a \<Rightarrow> (a, s)
      | None \<Rightarrow> (case kn_peer k of
            None \<Rightarrow> (NetAddress (UnknownAddress (sk_family s)), s)
          | Some nm \<Rightarrow> let r = read_name (sk_family s) nm in (r, s\<lparr>sk_remote := Some r\<rparr>)))"

definition sock_bind :: "bool \<Rightarrow> kernel \<Rightarrow> sock_address \<Rightarrow> socket_obj \<Rightarrow> net_world \<Rightarrow>
    (bool \<times> socket_obj \<times> net_world) res" where
  "sock_bind en k address s w =
     bindE (sock_ready en k s w) (\<lambda>(ok, s, w).
     if \<not> ok then Inr (False, s, w)
     else if getFamily address \<noteq> sk_family s then Inr (False, s, w)
     else if \<not> kn_bind k then Inr (False, s, w)
     else Inr (True, snd (getLocalAddress k s), w))"

definition sock_listen :: "kernel \<Rightarrow> socket_obj \<Rightarrow> net_world \<Rightarrow> bool res" where
  "sock_listen k s w = bindE (isVaild s w) (\<lambda>v. Inr (v \<and> kn_listen k))"

definition sock_close :: "bool \<Rightarrow> bool \<Rightarrow> socket_obj \<Rightarrow> net_world \<Rightarrow> (socket_obj \<times> net_world) res" where
  "sock_close en iom s w =
     (if \<not> sk_connected s \<and> sk_fd s = - 1 then Inr (s, w)
      else let s = s\<lparr>sk_connected := False\<rparr> in
        if sk_fd s \<noteq> - 1
        then bindE (hook_close en iom (sk_fd s) (nw_hook w)) (\<lambda>(_, h).
          Inr (s\<lparr>sk_fd := - 1\<rparr>, w\<lparr>nw_hook := h\<rparr>))
        else Inr (s, w))"

definition sock_connect :: "bool \<Rightarrow> bool \<Rightarrow> kernel \<Rightarrow> sock_address \<Rightarrow> u64 \<Rightarrow> socket_obj \<Rightarrow> net_world \<Rightarrow>
    (bool \<times> socket_obj \<times> net_world) res" where
  "sock_connect en iom k address timeout_ms s w =
     bindE (sock_ready en k s w) (\<lambda>(ok, s, w).
     if \<not> ok then Inr (False, s, w)
     else if getFamily address \<noteq> sk_family s then Inr (False, s, w)
     else case kn_connect k of (n, wait, so_error) \<Rightarrow>
       bindE (if timeout_ms = - 1 then hook_connect en iom (sk_fd s) n wait so_error (nw_hook w)
              else connect_with_timeout en iom (sk_fd s) timeout_ms n wait so_error (nw_hook w)) (\<lambda>(ret, _).
       case ret of
         IoErr e \<Rightarrow> bindE (sock_close en iom s w) (\<lambda>(s, w). Inr (False, s, w))
       | IoRet r \<Rightarrow>
           if r = - 1 then bindE (sock_close en iom s w) (\<lambda>(s, w). Inr (False, s, w))
           else let s = s\<lparr>sk_connected := True\<rparr>;
                    s = snd (getLocalAddress k s);
                    s = snd (getRemoteAddress k s)
                in Inr (True, s, w)))"

definition initSocketByFd :: "bool \<Rightarrow> kernel \<Rightarrow> int \<Rightarrow> socket_obj \<Rightarrow> net_world \<Rightarrow>
    (bool \<times> socket_obj \<times> net_world) res" where
  "initSocketByFd en k fd s w =
     bindE (sock_context (s\<lparr>sk_fd := fd\<rparr>) w) (\<lambda>ctx.
     case ctx of
       None \<Rightarrow> Inr (False, s, w)
     | Some c \<Rightarrow>
         if fc_is_socket c \<and> \<not> fc_is_close c
         then let s = s\<lparr>sk_fd := fd, sk_connected := True\<rparr> in
           bindE (initSocket en k s w) (\<lambda>w.
           Inr (True, snd (getRemoteAddress k (snd (getLocalAddress k s))), w))
         else Inr (False, s, w))"

text \<open>The accepting call is still suspended, gave no socket, or gave one.\<close>

datatype accept_out = Suspended | NoSocket | Accepted socket_obj

definition sock_accept :: "bool \<Rightarrow> kernel \<Rightarrow> io_ret list \<Rightarrow> hk_wait list \<Rightarrow> socket_obj \<Rightarrow> net_world \<Rightarrow>
    (accept_out \<times> net_world) res" where
  "sock_accept en k rs ws s w =
     bindE (hook_accept en (sk_fd s) rs ws (nw_hook w)) (\<lambda>(out, h).
     let w = w\<lparr>nw_hook := h\<rparr> in
     case out of
       None \<Rightarrow> Inr (Suspended, w)
     | Some (IoErr _, _) \<Rightarrow> Inr (NoSocket, w)
     | Some (IoRet newsock, _) \<Rightarrow>
         if newsock < 0 then Inr (NoSocket, w)
         else let sock = new_Socket (sk_family s) (sk_type s) (sk_protocol s) in
           bindE (initSocketByFd en k newsock sock (fresh_opts newsock w)) (\<lambda>(ok, sock, w).
           Inr (if ok then Accepted sock else NoSocket, w)))"

section \<open>Transfers\<close>

text \<open>
  The original calls are functions of what they are passed, giving one outcome per attempt. A socket that
  is not connected or not valid gives \<open>-1\<close> and calls nothing.
\<close>

fun getSockAddrLen :: "sock_address \<Rightarrow> nat" where
  "getSockAddrLen (NetAddress (IPv4Address a)) = 16"
| "getSockAddrLen (NetAddress (IPv6Address a)) = 28"
| "getSockAddrLen (NetAddress (UnknownAddress f)) = 16"
| "getSockAddrLen (UnixAddress a) = ua_len a"

record msghdr =
  msg_name :: "(sock_address \<times> nat) option"
  msg_iov :: "iovec list"

definition no_io :: "(io_ret \<times> hk_effect list) option" where
  "no_io = Some (IoRet (- 1), [])"

definition sock_recv :: "bool \<Rightarrow> socket_obj \<Rightarrow> nat \<Rightarrow> nat \<Rightarrow> (nat \<times> nat \<Rightarrow> io_ret list) \<Rightarrow> hk_wait list \<Rightarrow>
    net_world \<Rightarrow> (io_ret \<times> hk_effect list) option res" where
  "sock_recv en s len flag orig ws w =
     (if \<not> sk_connected s then Inr no_io else hook_read en (sk_fd s) (orig (len, flag)) ws (nw_hook w))"

definition sock_recv_iov :: "bool \<Rightarrow> socket_obj \<Rightarrow> iovec list \<Rightarrow> nat \<Rightarrow> (msghdr \<times> nat \<Rightarrow> io_ret list) \<Rightarrow>
    hk_wait list \<Rightarrow> net_world \<Rightarrow> (io_ret \<times> hk_effect list) option res" where
  "sock_recv_iov en s iov flag orig ws w =
     (if \<not> sk_connected s then Inr no_io
      else hook_read en (sk_fd s) (orig (\<lparr>msg_name = None, msg_iov = iov\<rparr>, flag)) ws (nw_hook w))"

definition sock_send :: "bool \<Rightarrow> socket_obj \<Rightarrow> nat \<Rightarrow> nat \<Rightarrow> (nat \<times> nat \<Rightarrow> io_ret list) \<Rightarrow> hk_wait list \<Rightarrow>
    net_world \<Rightarrow> (io_ret \<times> hk_effect list) option res" where
  "sock_send en s len flag orig ws w =
     (if \<not> sk_connected s then Inr no_io else hook_write en (sk_fd s) (orig (len, flag)) ws (nw_hook w))"

definition sock_send_iov :: "bool \<Rightarrow> socket_obj \<Rightarrow> iovec list \<Rightarrow> nat \<Rightarrow> (msghdr \<times> nat \<Rightarrow> io_ret list) \<Rightarrow>
    hk_wait list \<Rightarrow> net_world \<Rightarrow> (io_ret \<times> hk_effect list) option res" where
  "sock_send_iov en s iov flag orig ws w =
     (if \<not> sk_connected s then Inr no_io
      else hook_write en (sk_fd s) (orig (\<lparr>msg_name = None, msg_iov = iov\<rparr>, flag)) ws (nw_hook w))"

definition sock_recvfrom :: "bool \<Rightarrow> socket_obj \<Rightarrow> nat \<Rightarrow> sock_address \<Rightarrow> nat \<Rightarrow>
    (nat \<times> nat \<times> sock_address \<times> nat \<Rightarrow> io_ret list) \<Rightarrow> hk_wait list \<Rightarrow> net_world \<Rightarrow>
    (io_ret \<times> hk_effect list) option res" where
  "sock_recvfrom en s len source flags orig ws w =
     bindE (isVaild s w) (\<lambda>v.
     if \<not> v then Inr no_io
     else hook_read en (sk_fd s) (orig (len, flags, source, getSockAddrLen source)) ws (nw_hook w))"

definition sock_sendto :: "bool \<Rightarrow> socket_obj \<Rightarrow> nat \<Rightarrow> sock_address \<Rightarrow> nat \<Rightarrow>
    (nat \<times> nat \<times> sock_address \<times> nat \<Rightarrow> io_ret list) \<Rightarrow> hk_wait list \<Rightarrow> net_world \<Rightarrow>
    (io_ret \<times> hk_effect list) option res" where
  "sock_sendto en s len dest flags orig ws w =
     bindE (isVaild s w) (\<lambda>v.
     if \<not> v then Inr no_io
     else hook_write en (sk_fd s) (orig (len, flags, dest, getSockAddrLen dest)) ws (nw_hook w))"

definition sock_recvfrom_iov :: "bool \<Rightarrow> socket_obj \<Rightarrow> iovec list \<Rightarrow> sock_address \<Rightarrow> nat \<Rightarrow>
    (msghdr \<times> nat \<Rightarrow> io_ret list) \<Rightarrow> hk_wait list \<Rightarrow> net_world \<Rightarrow> (io_ret \<times> hk_effect list) option res" where
  "sock_recvfrom_iov en s iov source flags orig ws w =
     bindE (isVaild s w) (\<lambda>v.
     if \<not> v then Inr no_io
     else hook_read en (sk_fd s)
       (orig (\<lparr>msg_name = Some (source, getSockAddrLen source), msg_iov = iov\<rparr>, flags)) ws (nw_hook w))"

definition sock_sendto_iov :: "bool \<Rightarrow> socket_obj \<Rightarrow> iovec list \<Rightarrow> sock_address \<Rightarrow> nat \<Rightarrow>
    (msghdr \<times> nat \<Rightarrow> io_ret list) \<Rightarrow> hk_wait list \<Rightarrow> net_world \<Rightarrow> (io_ret \<times> hk_effect list) option res" where
  "sock_sendto_iov en s iov dest flags orig ws w =
     bindE (isVaild s w) (\<lambda>v.
     if \<not> v then Inr no_io
     else hook_write en (sk_fd s)
       (orig (\<lparr>msg_name = Some (dest, getSockAddrLen dest), msg_iov = iov\<rparr>, flags)) ws (nw_hook w))"

section \<open>Cancellation and printing\<close>

text \<open>\<open>IOManager::GetThis()\<close> is null on a thread that has no IO manager.\<close>

definition with_iom :: "iomanager option \<Rightarrow> (iomanager \<Rightarrow> (bool \<times> iomanager) res) \<Rightarrow> (bool \<times> iomanager) res" where
  "with_iom iom f = (case iom of None \<Rightarrow> Inl NullDeref | Some m \<Rightarrow> f m)"

definition cancelRead where
  "cancelRead valid s iom = with_iom iom (cancelEvent valid (sk_fd s) EvRead)"

definition cancelWrite where
  "cancelWrite valid s iom = with_iom iom (cancelEvent valid (sk_fd s) EvWrite)"

definition cancelAccept where
  "cancelAccept valid s iom = with_iom iom (cancelEvent valid (sk_fd s) EvRead)"

definition cancelAll where
  "cancelAll valid s iom = with_iom iom (cancelAllEvent valid (sk_fd s))"

definition dec_int :: "int \<Rightarrow> bytes" where
  "dec_int i = (if i < 0 then lit ''-'' @ dec (nat (- i)) else dec (nat i))"

definition sock_dump :: "socket_obj \<Rightarrow> bytes" where
  "sock_dump s =
     lit ''[Socket sock='' @ dec_int (sk_fd s) @
     lit '' is_connected='' @ dec (if sk_connected s then 1 else 0) @
     lit '' family='' @ dec (unat (sk_family s)) @
     lit '' type='' @ dec (sk_type s) @
     lit '' protocol='' @ dec (sk_protocol s) @
     (case sk_local s of None \<Rightarrow> [] | Some a \<Rightarrow> lit '' local_address='' @ sock_address_toString a) @
     (case sk_remote s of None \<Rightarrow> [] | Some a \<Rightarrow> lit '' remote_address='' @ sock_address_toString a) @
     lit '']''"

section \<open>Ownership of descriptors\<close>

text \<open>The descriptors that are registered as sockets.\<close>

definition registered :: "hook_state \<Rightarrow> int set" where
  "registered h = {fd. 0 \<le> fd \<and> fd < 64 \<and> (\<exists>c. hk_fds h ! nat fd = Some c \<and> fc_is_socket c)}"

definition fds :: "socket_obj list \<Rightarrow> int list" where
  "fds ss = filter (\<lambda>fd. fd \<noteq> - 1) (map sk_fd ss)"

text \<open>
  The sockets \<open>ss\<close> of the program: every registered descriptor belongs to exactly one of them, and the
  connected ones have a descriptor.
\<close>

definition sock_inv :: "socket_obj list \<Rightarrow> net_world \<Rightarrow> bool" where
  "sock_inv ss w \<longleftrightarrow> hook_inv (nw_hook w) \<and> (\<forall>s \<in> set ss. sk_connected s \<longrightarrow> sk_fd s \<noteq> - 1) \<and>
     distinct (fds ss) \<and> set (fds ss) = registered (nw_hook w)"

text \<open>What one operation may do to the registered descriptors: give up its own and take a new one.\<close>

definition owner_ok :: "socket_obj \<Rightarrow> net_world \<Rightarrow> bool" where
  "owner_ok s w \<longleftrightarrow> hook_inv (nw_hook w) \<and> (sk_connected s \<longrightarrow> sk_fd s \<noteq> - 1) \<and>
     (sk_fd s \<noteq> - 1 \<longrightarrow> sk_fd s \<in> registered (nw_hook w))"

definition sock_moves :: "socket_obj \<Rightarrow> net_world \<Rightarrow> socket_obj \<Rightarrow> net_world \<Rightarrow> bool" where
  "sock_moves s w s' w' \<longleftrightarrow> owner_ok s' w' \<and>
     registered (nw_hook w') - {sk_fd s'} = registered (nw_hook w) - {sk_fd s} \<and>
     sk_fd s' \<notin> registered (nw_hook w) - {sk_fd s}"

lemma fds_simps [simp]: "fds [] = []" "fds (s # ss) = (if sk_fd s = - 1 then fds ss else sk_fd s # fds ss)"
  "fds (xs @ ys) = fds xs @ fds ys"
  by (simp_all add: fds_def)

lemma minus_one_not_registered [simp]: "- 1 \<notin> registered h"
  by (simp add: registered_def)

lemma minus_one_not_fds [simp]: "- 1 \<notin> set (fds ss)"
  by (simp add: fds_def)

lemma sock_moves_refl: "owner_ok s w \<Longrightarrow> sock_moves s w s w"
  by (auto simp: sock_moves_def)

lemma sock_moves_trans: "sock_moves s w s' w' \<Longrightarrow> sock_moves s' w' s'' w'' \<Longrightarrow> sock_moves s w s'' w''"
  by (auto simp: sock_moves_def)

lemma sock_inv_owner: "sock_inv ss w \<Longrightarrow> s \<in> set ss \<Longrightarrow> owner_ok s w"
  by (force simp: sock_inv_def owner_ok_def fds_def)

lemma sock_inv_moves:
  assumes "sock_inv (xs @ s # ys) w" "sock_moves s w s' w'"
  shows "sock_inv (xs @ s' # ys) w'"
proof -
  let ?rest = "set (fds (xs @ ys))"
  have "registered (nw_hook w) = set (fds (xs @ s # ys))" "distinct (fds (xs @ s # ys))"
    using assms(1) unfolding sock_inv_def by simp_all
  then have rest: "registered (nw_hook w) - {sk_fd s} = ?rest"
    by (cases "sk_fd s = - 1") auto
  then have "registered (nw_hook w') - {sk_fd s'} = ?rest" "sk_fd s' \<notin> ?rest"
    using assms(2) unfolding sock_moves_def by blast+
  moreover have "sk_fd s' \<noteq> - 1 \<longrightarrow> sk_fd s' \<in> registered (nw_hook w')"
    using assms(2) by (simp add: sock_moves_def owner_ok_def)
  ultimately have "set (fds (xs @ s' # ys)) = registered (nw_hook w')"
    by (cases "sk_fd s' = - 1") auto
  moreover have "distinct (fds (xs @ s' # ys))"
    using \<open>distinct (fds (xs @ s # ys))\<close> \<open>sk_fd s' \<notin> ?rest\<close> by (auto split: if_splits)
  moreover have "hook_inv (nw_hook w')" "sk_connected s' \<longrightarrow> sk_fd s' \<noteq> - 1"
    using assms(2) by (auto simp: sock_moves_def owner_ok_def)
  ultimately show ?thesis
    using assms(1) unfolding sock_inv_def by (auto simp del: fds_simps)
qed

text \<open>
  The contract of the operations of a socket, and what follows for the sockets around it.
\<close>

locale owned_op =
  fixes op :: "kernel \<Rightarrow> socket_obj \<Rightarrow> net_world \<Rightarrow> ('r \<times> socket_obj \<times> net_world) res"
  assumes moves: "fresh_kernel k \<Longrightarrow> owner_ok s w \<Longrightarrow> op k s w = Inr (r, s', w') \<Longrightarrow> sock_moves s w s' w'"
begin

lemma keeps_inv:
  assumes "fresh_kernel k" "sock_inv (xs @ s # ys) w" "op k s w = Inr (r, s', w')"
  shows "sock_inv (xs @ s' # ys) w'"
  using assms by (blast intro: sock_inv_moves moves sock_inv_owner [of "xs @ s # ys"] in_set_conv_decomp [THEN iffD2])

lemma keeps_others:
  assumes "fresh_kernel k" "sock_inv (xs @ s # ys) w" "op k s w = Inr (r, s', w')" "t \<in> set (xs @ ys)"
  shows "owner_ok t w'"
  using keeps_inv [OF assms(1-3)] assms(4) by (auto intro: sock_inv_owner)

end

subsection \<open>The hooked calls\<close>

lemma hook_inv_length: "hook_inv h \<Longrightarrow> length (hk_fds h) = 64"
  by (simp add: hook_inv_def)

text \<open>A registered descriptor has a context, is open and does not block in the kernel.\<close>

lemma registered_context:
  assumes "hook_inv h" "fd \<in> registered h"
  obtains c where "getFdContext fd False (hk_os h) (hk_fds h) = Inr (Some c, hk_os h, hk_fds h)"
    "hk_fds h ! nat fd = Some c" "0 \<le> fd" "fd < 64" "fc_is_socket c" "\<not> fc_is_close c"
    "os_stat (hk_os h) fd \<noteq> None" "nonblocking (hk_os h) fd"
proof -
  obtain c where c: "hk_fds h ! nat fd = Some c" "fc_is_socket c" "0 \<le> fd" "fd < 64"
    using assms(2) by (auto simp: registered_def)
  have "ctx_ok (hk_os h) (nat fd) (hk_fds h ! nat fd)"
    using assms(1) c(3,4) by (simp add: hook_inv_def)
  then show ?thesis
    using that c hook_inv_length [OF assms(1)] by (simp add: ctx_ok_def getFdContext_def)
qed

lemma registered_open: "hook_inv h \<Longrightarrow> fd \<in> registered h \<Longrightarrow> os_stat (hk_os h) fd \<noteq> None \<and> nonblocking (hk_os h) fd"
  by (erule (1) registered_context) simp

lemma registered_update:
  assumes "hook_inv h" "0 \<le> fd" "fd < 64" "hk_fds h' = (hk_fds h)[nat fd := ctx]"
  shows "registered h' = registered h - {fd} \<union> (if \<exists>c. ctx = Some c \<and> fc_is_socket c then {fd} else {})"
proof -
  have *: "hk_fds h' ! nat x = (if x = fd then ctx else hk_fds h ! nat x)" if "0 \<le> x" "x < 64" for x
    using assms that hook_inv_length [OF assms(1)] by (auto simp: nth_list_update eq_nat_nat_iff)
  show ?thesis
    using assms(2,3) * by (auto simp: registered_def split: if_splits)
qed

lemma hook_register_range:
  "hook_register fd st = Inr st' \<Longrightarrow> length (hk_fds st) = 64 \<Longrightarrow> 0 \<le> fd \<and> fd < 64"
  by (auto simp: hook_register_def getFdContext_def fd_create_def split: if_splits prod.splits)

lemma hook_register_stat:
  assumes "hook_register fd st = Inr st'"
  shows "os_stat (hk_os st') = os_stat (hk_os st)"
proof -
  obtain os' c where c: "new_FdContext (hk_os st) fd = (os', c)" by (cases "new_FdContext (hk_os st) fd")
  show ?thesis
    using assms c new_FdContext_eq(6) [OF c]
    by (auto simp: hook_register_def getFdContext_def fd_create_def split: if_splits)
qed

lemma hook_register_fds:
  assumes "hook_register fd st = Inr st'" "length (hk_fds st) = 64"
  shows "\<exists>c. hk_fds st' = (hk_fds st)[nat fd := Some c]"
proof -
  have rng: "0 \<le> fd" "fd < 64" using hook_register_range [OF assms] by simp_all
  show ?thesis
  proof (cases "hk_fds st ! nat fd")
    case None
    then show ?thesis using assms rng fd_create_eq [of fd "hk_fds st" "hk_os st"]
      by (auto simp: hook_register_def getFdContext_def)
  next
    case (Some c)
    then have "hk_fds st = (hk_fds st)[nat fd := Some c]" by (metis list_update_id)
    then show ?thesis using assms rng Some
      by (auto simp: hook_register_def getFdContext_def)
  qed
qed

lemma hook_open_registered:
  assumes "hook_inv h" "os_stat (hk_os h) fd = None"
    "hook_register fd (h\<lparr>hk_os := os_open fd flags (hk_os h)\<rparr>) = Inr h'"
  shows "hook_inv h' \<and> fd \<notin> registered h \<and> fd \<noteq> - 1 \<and> registered h' = insert fd (registered h)"
proof -
  note inv = hook_register_inv [OF assms]
  obtain c where c: "hk_fds h' = (hk_fds h)[nat fd := Some c]"
    using hook_register_fds [OF assms(3)] hook_inv_length [OF assms(1)] by auto
  have "fc_is_socket c" using inv c hook_inv_length [OF assms(1)] by auto
  moreover have "fd \<notin> registered h" using registered_open [OF assms(1), of fd] assms(2) by auto
  ultimately show ?thesis using inv registered_update [OF assms(1) _ _ c] by auto
qed

lemma hook_socket_registered:
  assumes "hook_inv h" "fresh_kernel k" "hook_socket True (kn_socket k (hk_os h)) h = Inr (fd, h')" "fd \<noteq> - 1"
  shows "hook_inv h' \<and> fd \<notin> registered h \<and> registered h' = insert fd (registered h)"
proof -
  obtain flags where k: "kn_socket k (hk_os h) = Some (fd, flags)"
    "hook_register fd (h\<lparr>hk_os := os_open fd flags (hk_os h)\<rparr>) = Inr h'"
    using assms(3,4) by (auto simp: hook_socket_def Let_def split: option.splits)
  then have "os_stat (hk_os h) fd = None" using assms(2) unfolding fresh_kernel_def by blast
  from hook_open_registered [OF assms(1) this k(2)] show ?thesis by blast
qed

lemma hook_socket_none: "hook_socket True opened h = Inr (- 1, h') \<Longrightarrow> hook_inv h \<Longrightarrow> h' = h"
  by (auto simp: hook_socket_def hook_register_def getFdContext_def fd_create_def Let_def
      split: option.splits if_splits prod.splits)

lemma hook_setsockopt_registered:
  assumes "hook_inv h" "hook_setsockopt True fd level opt sec usec h = Inr h'"
  shows "hook_inv h' \<and> registered h' = registered h"
proof -
  have "registered (set_context fd (fc_setTimeout opt t c) h) = registered h"
    if "hk_fds h ! nat fd = Some c" "0 \<le> fd" "fd < 64" for c t
  proof -
    have "fc_is_socket (fc_setTimeout opt t c) = fc_is_socket c" by (simp add: fc_setTimeout_def)
    then have "registered (set_context fd (fc_setTimeout opt t c) h) =
        registered h - {fd} \<union> (if fc_is_socket c then {fd} else {})"
      using registered_update [OF assms(1) that(2,3)] by (simp add: set_context_def)
    moreover have "fd \<in> registered h \<longleftrightarrow> fc_is_socket c" using that by (simp add: registered_def)
    ultimately show ?thesis by auto
  qed
  then show ?thesis
    using assms hook_setsockopt_inv [OF assms] hook_inv_length [OF assms(1)]
    by (auto simp: hook_setsockopt_def getFdContext_def split: if_splits option.splits)
qed

lemma hook_close_registered:
  assumes "hook_inv h" "fd \<in> registered h"
  shows "\<exists>eff h'. hook_close True iom fd h = Inr (eff, h') \<and> hook_inv h' \<and> registered h' = registered h - {fd} \<and>
    os_stat (hk_os h') fd = None"
proof -
  let ?h = "\<lparr>hk_os = os_close fd (hk_os h), hk_fds = (hk_fds h)[nat fd := None]\<rparr>"
  have c: "\<exists>eff. hook_close True iom fd h = Inr (eff, ?h)"
    using assms hook_inv_length [OF assms(1)]
    by (auto simp: hook_close_def getFdContext_def delFdContext_def registered_def)
  moreover have "hook_inv ?h" using c hook_close_inv [OF assms(1)] by blast
  moreover have "registered ?h = registered h - {fd}"
    using assms(2) by (subst registered_update [OF assms(1), of fd _ None]) (auto simp: registered_def)
  ultimately show ?thesis by (auto simp: os_close_def)
qed

subsection \<open>The operations\<close>

lemma owner_context:
  assumes "owner_ok s w" "sk_fd s \<noteq> - 1"
  obtains c where "sock_context s w = Inr (Some c)" "fc_is_socket c" "\<not> fc_is_close c"
    "hk_fds (nw_hook w) ! nat (sk_fd s) = Some c" "0 \<le> sk_fd s" "sk_fd s < 64"
  using assms by (auto simp: owner_ok_def sock_context_def elim!: registered_context)

lemma isVaild_owner: "owner_ok s w \<Longrightarrow> isVaild s w = Inr (sk_fd s \<noteq> - 1)"
  by (cases "sk_fd s = - 1") (auto simp: isVaild_def elim: owner_context)

lemma sock_moves_same:
  "owner_ok s w \<Longrightarrow> hook_inv (nw_hook w') \<Longrightarrow> registered (nw_hook w') = registered (nw_hook w) \<Longrightarrow>
   sk_fd s' = sk_fd s \<Longrightarrow> (sk_connected s' \<Longrightarrow> sk_fd s \<noteq> - 1) \<Longrightarrow> sock_moves s w s' w'"
  by (auto simp: sock_moves_def owner_ok_def)

lemma sock_moves_owner: "sock_moves s w s' w' \<Longrightarrow> owner_ok s' w'"
  by (simp add: sock_moves_def)

lemma setOption_moves:
  assumes "owner_ok s w" "setOption True k level opt v s w = Inr (b, w')"
  shows "sock_moves s w s w'"
proof -
  have inv: "hook_inv (nw_hook w)" using assms(1) by (simp add: owner_ok_def)
  obtain sec usec where "hook_setsockopt True (sk_fd s) level opt sec usec (nw_hook w) = Inr (nw_hook w')"
    using assms(2) by (auto simp: setOption_def Let_def split: if_splits prod.splits)
  from hook_setsockopt_registered [OF inv this] show ?thesis
    using assms(1) by (auto intro: sock_moves_same simp: owner_ok_def)
qed

lemma initSocket_moves:
  assumes "owner_ok s w" "initSocket True k s w = Inr w'"
  shows "sock_moves s w s w'"
proof -
  obtain b w1 where 1: "setOption True k SOL_SOCKET SO_REUSEADDR (OptInt 1) s w = Inr (b, w1)"
    and 2: "w' = w1 \<or> (\<exists>b. setOption True k IPPROTO_TCP TCP_NODELAY (OptInt 1) s w1 = Inr (b, w'))"
    using assms(2) by (auto simp: initSocket_def split: if_splits)
  note m = setOption_moves [OF assms(1) 1]
  from 2 show ?thesis
  proof
    assume "\<exists>b. setOption True k IPPROTO_TCP TCP_NODELAY (OptInt 1) s w1 = Inr (b, w')"
    then show ?thesis using setOption_moves [OF sock_moves_owner [OF m]] sock_moves_trans [OF m] by blast
  qed (simp add: m)
qed

lemma newSocket_moves:
  assumes "fresh_kernel k" "owner_ok s w" "sk_fd s = - 1" "newSocket True k s w = Inr (s', w')"
  shows "sock_moves s w s' w'"
proof -
  have inv: "hook_inv (nw_hook w)" and nc: "\<not> sk_connected s" using assms(2,3) by (simp_all add: owner_ok_def)
  obtain fd h where h: "hook_socket True (kn_socket k (hk_os (nw_hook w))) (nw_hook w) = Inr (fd, h)"
    and s': "s' = s\<lparr>sk_fd := fd\<rparr>"
    and w': "if fd = - 1 then w' = w\<lparr>nw_hook := h\<rparr> else initSocket True k s' (fresh_opts fd (w\<lparr>nw_hook := h\<rparr>)) = Inr w'"
    using assms(4) by (auto simp: newSocket_def Let_def split: if_splits)
  show ?thesis
  proof (cases "fd = - 1")
    case True
    then have "h = nw_hook w" using h hook_socket_none inv by blast
    then show ?thesis using True s' w' assms(2,3) nc by (intro sock_moves_same) (auto simp: owner_ok_def)
  next
    case False
    let ?w = "fresh_opts fd (w\<lparr>nw_hook := h\<rparr>)"
    have hook: "nw_hook ?w = h" by (simp add: fresh_opts_def)
    have "sock_moves s w s' ?w"
      using hook_socket_registered [OF inv assms(1) h False] False s' assms(3) nc
      by (auto simp: sock_moves_def owner_ok_def hook)
    then show ?thesis using initSocket_moves sock_moves_owner sock_moves_trans w' False by (metis (full_types))
  qed
qed

lemma sock_ready_moves:
  assumes "fresh_kernel k" "owner_ok s w" "sock_ready True k s w = Inr (ok, s', w')"
  shows "sock_moves s w s' w' \<and> (ok \<longrightarrow> sk_fd s' \<noteq> - 1) \<and> (sk_fd s \<noteq> - 1 \<longrightarrow> ok \<and> s' = s \<and> w' = w)"
proof (cases "sk_fd s = - 1")
  case True
  then have "newSocket True k s w = Inr (s', w')" "isVaild s' w' = Inr ok"
    using assms by (auto simp: sock_ready_def isVaild_owner)
  moreover from this have "sock_moves s w s' w'" using newSocket_moves assms True by blast
  ultimately show ?thesis using True by (auto dest: isVaild_owner [OF sock_moves_owner])
next
  case False
  then show ?thesis using assms by (auto simp: sock_ready_def isVaild_owner sock_moves_refl)
qed

text \<open>Preparing a socket changes its descriptor only.\<close>

lemma sock_ready_same:
  assumes "sock_ready en k s w = Inr (ok, s', w')"
  shows "\<exists>fd. s' = s\<lparr>sk_fd := fd\<rparr>"
proof -
  have "\<exists>fd. s = s\<lparr>sk_fd := fd\<rparr>" by (rule exI [of _ "sk_fd s"]) simp
  then show ?thesis using assms by (auto simp: sock_ready_def newSocket_def Let_def split: if_splits)
qed

lemma getAddress_same [simp]:
  "sk_fd (snd (getLocalAddress k s)) = sk_fd s" "sk_connected (snd (getLocalAddress k s)) = sk_connected s"
  "sk_family (snd (getLocalAddress k s)) = sk_family s" "sk_type (snd (getLocalAddress k s)) = sk_type s"
  "sk_fd (snd (getRemoteAddress k s)) = sk_fd s" "sk_connected (snd (getRemoteAddress k s)) = sk_connected s"
  "sk_family (snd (getRemoteAddress k s)) = sk_family s" "sk_type (snd (getRemoteAddress k s)) = sk_type s"
  by (simp_all add: getLocalAddress_def getRemoteAddress_def Let_def split: option.splits)

lemma sock_bind_moves:
  assumes "fresh_kernel k" "owner_ok s w" "sock_bind True k a s w = Inr (ok, s', w')"
  shows "sock_moves s w s' w' \<and> (ok \<longrightarrow> sk_fd s' \<noteq> - 1)"
proof -
  obtain r s1 where 1: "sock_ready True k s w = Inr (r, s1, w')"
    and s': "s' = s1 \<or> s' = snd (getLocalAddress k s1)" "ok \<longrightarrow> r"
    using assms(3) by (auto simp: sock_bind_def split: if_splits)
  have m: "sock_moves s w s1 w'" "r \<longrightarrow> sk_fd s1 \<noteq> - 1" using sock_ready_moves [OF assms(1,2) 1] by auto
  then have "sock_moves s1 w' s' w'"
    using s'(1) sock_moves_owner [OF m(1)] by (intro sock_moves_same) (auto simp: owner_ok_def)
  then show ?thesis using m s' sock_moves_trans by auto
qed

lemma sock_bind_same:
  assumes "sock_bind en k a s w = Inr (ok, s', w')"
  shows "sk_family s' = sk_family s" "sk_connected s' = sk_connected s" "ok \<Longrightarrow> kn_bind k \<and> getFamily a = sk_family s"
proof -
  obtain r s1 where "sock_ready en k s w = Inr (r, s1, w')" "s' = s1 \<or> s' = snd (getLocalAddress k s1)"
    "ok \<longrightarrow> kn_bind k \<and> getFamily a = sk_family s1"
    using assms by (auto simp: sock_bind_def split: if_splits)
  then show "sk_family s' = sk_family s" "sk_connected s' = sk_connected s" "ok \<Longrightarrow> kn_bind k \<and> getFamily a = sk_family s"
    by (auto dest!: sock_ready_same)
qed

lemma sock_close_moves:
  assumes "owner_ok s w"
  shows "\<exists>s' w'. sock_close True iom s w = Inr (s', w') \<and> sock_moves s w s' w' \<and> sk_fd s' = - 1 \<and> \<not> sk_connected s'"
proof (cases "sk_fd s = - 1")
  case True
  then have "sock_close True iom s w = Inr (s, w)" using assms by (auto simp: sock_close_def owner_ok_def)
  then show ?thesis using True assms sock_moves_refl by (auto simp: owner_ok_def)
next
  case False
  then have "hook_inv (nw_hook w)" "sk_fd s \<in> registered (nw_hook w)" using assms by (simp_all add: owner_ok_def)
  from hook_close_registered [OF this, of iom] obtain eff h where
    h: "hook_close True iom (sk_fd s) (nw_hook w) = Inr (eff, h)" "hook_inv h" "registered h = registered (nw_hook w) - {sk_fd s}"
    by auto
  have "sock_close True iom s w = Inr (s\<lparr>sk_connected := False, sk_fd := - 1\<rparr>, w\<lparr>nw_hook := h\<rparr>)"
    using False h(1) by (simp add: sock_close_def)
  then show ?thesis using False h(2,3) minus_one_not_registered [of "nw_hook w"]
    by (auto simp: sock_moves_def owner_ok_def)
qed

lemma sock_close_moves':
  "owner_ok s w \<Longrightarrow> sock_close True iom s w = Inr (s', w') \<Longrightarrow> sock_moves s w s' w' \<and> sk_fd s' = - 1 \<and> \<not> sk_connected s'"
  using sock_close_moves [of s w iom] by auto

lemma io_ret_not_err: "(\<forall>e. r \<noteq> IoErr e) \<longleftrightarrow> (\<exists>n. r = IoRet n)"
  by (cases r) auto

lemma sock_connect_moves:
  assumes "fresh_kernel k" "owner_ok s w" "sock_connect True iom k a t s w = Inr (ok, s', w')"
  shows "sock_moves s w s' w' \<and> (ok \<longrightarrow> sk_connected s')"
proof -
  obtain r s1 w1 where 1: "sock_ready True k s w = Inr (r, s1, w1)"
    and s': "s' = s1 \<and> w' = w1 \<and> \<not> ok \<or> sock_close True iom s1 w1 = Inr (s', w') \<and> \<not> ok \<or>
      r \<and> ok \<and> w' = w1 \<and> s' = snd (getRemoteAddress k (snd (getLocalAddress k (s1\<lparr>sk_connected := True\<rparr>))))"
    using assms(3) by (auto simp: sock_connect_def Let_def io_ret_not_err split: if_splits io_ret.splits prod.splits)
  have m: "sock_moves s w s1 w1" "r \<longrightarrow> sk_fd s1 \<noteq> - 1" using sock_ready_moves [OF assms(1,2) 1] by auto
  note ow = sock_moves_owner [OF m(1)]
  from s' show ?thesis
  proof (elim disjE conjE)
    assume "r" "ok" "w' = w1" and s': "s' = snd (getRemoteAddress k (snd (getLocalAddress k (s1\<lparr>sk_connected := True\<rparr>))))"
    then have "sock_moves s1 w1 s' w1"
      using m ow by (intro sock_moves_same) (auto simp: owner_ok_def)
    then show ?thesis using m sock_moves_trans \<open>w' = w1\<close> s' by auto
  qed (use m sock_moves_trans sock_close_moves' [OF ow] in auto)
qed

lemma setTimeout_moves:
  "owner_ok s w \<Longrightarrow> setSendTimeout True k t s w = Inr w' \<Longrightarrow> sock_moves s w s w'"
  "owner_ok s w \<Longrightarrow> setRecvTimeout True k t s w = Inr w' \<Longrightarrow> sock_moves s w s w'"
  by (auto simp: setSendTimeout_def setRecvTimeout_def dest: setOption_moves)

interpretation bind_op: owned_op "\<lambda>k s w. sock_bind True k a s w" for a
  by unfold_locales (simp add: sock_bind_moves)

interpretation connect_op: owned_op "\<lambda>k s w. sock_connect True iom k a t s w" for iom a t
  by unfold_locales (simp add: sock_connect_moves)

interpretation listen_op: owned_op "\<lambda>k s w. bindE (sock_listen k s w) (\<lambda>b. Inr (b, s, w))"
  by unfold_locales (auto simp: sock_moves_refl)

interpretation close_op: owned_op "\<lambda>k s w. bindE (sock_close True iom s w) (\<lambda>(s, w). Inr ((), s, w))" for iom
  by unfold_locales (auto dest: sock_close_moves')

interpretation send_timeout_op: owned_op "\<lambda>k s w. bindE (setSendTimeout True k t s w) (\<lambda>w. Inr ((), s, w))" for t
  by unfold_locales (auto dest: setTimeout_moves)

interpretation recv_timeout_op: owned_op "\<lambda>k s w. bindE (setRecvTimeout True k t s w) (\<lambda>w. Inr ((), s, w))" for t
  by unfold_locales (auto dest: setTimeout_moves)

subsection \<open>Accepting\<close>

text \<open>A successful accept hands the new descriptor to the new socket.\<close>

lemma hook_accept_out:
  assumes "hook_accept en fd rs ws h = Inr (out, h')"
  shows "do_io en fd EvRead rs ws h = Inr out"
proof -
  obtain out' where "do_io en fd EvRead rs ws h = Inr out'" using assms by (auto simp: hook_accept_def)
  moreover from this have "out' = out"
    using assms by (auto simp: hook_accept_def Let_def split: option.split_asm prod.split_asm io_ret.split_asm if_split_asm)
  ultimately show ?thesis by simp
qed

lemma hook_accept_registered:
  assumes "hook_inv h" "hook_accept True fd rs ws h = Inr (out, h')"
    "\<forall>n eff. out = Some (IoRet n, eff) \<longrightarrow> os_stat (hk_os h) n = None"
  shows "(\<forall>n eff. out = Some (IoRet n, eff) \<longrightarrow> n < 0) \<and> h' = h \<or>
    (\<exists>n eff. out = Some (IoRet n, eff) \<and> 0 \<le> n \<and> hook_inv h' \<and> n \<notin> registered h \<and> registered h' = insert n (registered h))"
proof -
  note dio = hook_accept_out [OF assms(2)]
  show ?thesis
  proof (cases "\<exists>n eff. out = Some (IoRet n, eff) \<and> 0 \<le> n")
    case True
    then obtain n eff where n: "out = Some (IoRet n, eff)" "0 \<le> n" by blast
    have "hook_register n (h\<lparr>hk_os := os_open n 0 (hk_os h)\<rparr>) = Inr h'"
      using assms(2) dio n by (auto simp: hook_accept_def Let_def)
    moreover have "os_stat (hk_os h) n = None" using assms(3) n(1) by simp
    ultimately show ?thesis using hook_open_registered [OF assms(1)] n by simp
  next
    case False
    have "h' = h"
    proof (cases out)
      case (Some p)
      then show ?thesis using assms(2) dio False by (cases p; cases "fst p") (auto simp: hook_accept_def)
    qed (use assms(2) dio in \<open>simp add: hook_accept_def\<close>)
    then show ?thesis using False by auto
  qed
qed

lemma do_io_loop_ret: "do_io_loop t ev rs ws = Some (IoRet n, eff) \<Longrightarrow> IoRet n \<in> set rs"
  by (induction t ev rs ws arbitrary: eff rule: do_io_loop.induct)
    (auto simp: Let_def split: if_splits list.splits hk_wait.splits)

lemma orig_call_ret: "orig_call rs = Some (r, eff) \<Longrightarrow> r \<in> set rs"
  by (cases rs) (auto simp: orig_call_def)

lemma do_io_ret:
  assumes "do_io en fd ev rs ws h = Inr (Some (IoRet n, eff))"
  shows "IoRet n \<in> set rs"
proof (cases en)
  case True
  then obtain ctx x where ctx: "getFdContext fd False (hk_os h) (hk_fds h) = Inr (ctx, x)"
    using assms by (auto simp: do_io_def)
  show ?thesis
    using assms True ctx by (cases ctx) (auto simp: do_io_def dest: orig_call_ret do_io_loop_ret split: if_splits)
qed (use assms in \<open>auto simp: do_io_def dest: orig_call_ret\<close>)

lemma hook_accept_ret: "hook_accept en fd rs ws h = Inr (Some (IoRet n, eff), h') \<Longrightarrow> IoRet n \<in> set rs"
  by (drule hook_accept_out) (rule do_io_ret)

lemma sock_inv_append:
  assumes "sock_inv ss w" "hook_inv (nw_hook w')" "registered (nw_hook w') = insert (sk_fd t) (registered (nw_hook w))"
    "sk_fd t \<notin> registered (nw_hook w)" "sk_fd t \<noteq> - 1"
  shows "sock_inv (ss @ [t]) w'"
  using assms by (auto simp: sock_inv_def)

lemma sock_accept_inv:
  assumes inv: "sock_inv ss w" and acc: "sock_accept True k rs ws s w = Inr (out, w')"
    and fresh: "\<forall>n. IoRet n \<in> set rs \<longrightarrow> os_stat (hk_os (nw_hook w)) n = None"
  shows "case out of Accepted t \<Rightarrow> sock_inv (ss @ [t]) w' | _ \<Rightarrow> sock_inv ss w'"
proof -
  have h: "hook_inv (nw_hook w)" using inv by (simp add: sock_inv_def)
  obtain o' h' where a: "hook_accept True (sk_fd s) rs ws (nw_hook w) = Inr (o', h')"
    using acc by (auto simp: sock_accept_def)
  have "\<forall>n eff. o' = Some (IoRet n, eff) \<longrightarrow> os_stat (hk_os (nw_hook w)) n = None"
    using fresh a by (auto dest: hook_accept_ret)
  from hook_accept_registered [OF h a this] show ?thesis
  proof (elim disjE exE conjE)
    assume "\<forall>n eff. o' = Some (IoRet n, eff) \<longrightarrow> n < 0" "h' = nw_hook w"
    then have "out = Suspended \<or> out = NoSocket" "w' = w"
      using acc a by (auto simp: sock_accept_def Let_def split: option.split_asm prod.split_asm io_ret.split_asm)
    then show ?thesis using inv by auto
  next
    fix n eff
    assume o': "o' = Some (IoRet n, eff)" and n: "0 \<le> n" "hook_inv h'" "n \<notin> registered (nw_hook w)"
      "registered h' = insert n (registered (nw_hook w))"
    let ?t = "(new_Socket (sk_family s) (sk_type s) (sk_protocol s))\<lparr>sk_fd := n, sk_connected := True\<rparr>"
    let ?w = "fresh_opts n (w\<lparr>nw_hook := h'\<rparr>)"
    have ok: "owner_ok ?t ?w" using n by (simp add: owner_ok_def fresh_opts_def)
    then obtain c where c: "sock_context ?t ?w = Inr (Some c)" "fc_is_socket c" "\<not> fc_is_close c"
      by (rule owner_context) (use n in auto)
    have ctx: "sock_context (s'\<lparr>sk_fd := n\<rparr>) ?w = sock_context ?t ?w" for s' :: socket_obj
      by (simp add: sock_context_def)
    obtain t where out: "out = Accepted t" "sk_fd t = n" "sk_connected t" "initSocket True k ?t ?w = Inr w'"
      using acc a o' n c by (auto simp: sock_accept_def initSocketByFd_def Let_def ctx)
    then have "hook_inv (nw_hook w')" "registered (nw_hook w') = insert n (registered (nw_hook w))"
      using initSocket_moves [OF ok out(4)] n by (auto simp: sock_moves_def owner_ok_def fresh_opts_def)
    then show ?thesis using out n sock_inv_append [OF inv] by auto
  qed
qed

section \<open>Executions\<close>

text \<open>
  The sockets of a program whose threads have hooks enabled: they are created, used and destroyed in any order, and
  the kernel hands out descriptors that are not in use.
\<close>

inductive sock_reach :: "socket_obj list \<Rightarrow> net_world \<Rightarrow> bool" where
  sock_start: "sock_reach [] \<lparr>nw_hook = \<lparr>hk_os = os, hk_fds = new_FdManager\<rparr>, nw_opts = opts\<rparr>"
| sock_create_step: "sock_reach ss w \<Longrightarrow> sock_reach (ss @ [new_Socket family type protocol]) w"
| sock_bind_step: "sock_reach (xs @ s # ys) w \<Longrightarrow> fresh_kernel k \<Longrightarrow> sock_bind True k a s w = Inr (r, s', w') \<Longrightarrow>
    sock_reach (xs @ s' # ys) w'"
| sock_connect_step: "sock_reach (xs @ s # ys) w \<Longrightarrow> fresh_kernel k \<Longrightarrow>
    sock_connect True iom k a t s w = Inr (r, s', w') \<Longrightarrow> sock_reach (xs @ s' # ys) w'"
| sock_accept_step: "sock_reach ss w \<Longrightarrow> s \<in> set ss \<Longrightarrow>
    \<forall>n. IoRet n \<in> set rs \<longrightarrow> os_stat (hk_os (nw_hook w)) n = None \<Longrightarrow>
    sock_accept True k rs ws s w = Inr (out, w') \<Longrightarrow>
    sock_reach (case out of Accepted t \<Rightarrow> ss @ [t] | _ \<Rightarrow> ss) w'"
| sock_timeout_step: "sock_reach ss w \<Longrightarrow> s \<in> set ss \<Longrightarrow>
    setSendTimeout True k t s w = Inr w' \<or> setRecvTimeout True k t s w = Inr w' \<Longrightarrow> sock_reach ss w'"
| sock_close_step: "sock_reach (xs @ s # ys) w \<Longrightarrow> sock_close True iom s w = Inr (s', w') \<Longrightarrow>
    sock_reach (xs @ s' # ys) w'"
| sock_destroy_step: "sock_reach (xs @ s # ys) w \<Longrightarrow> sock_close True iom s w = Inr (s', w') \<Longrightarrow>
    sock_reach (xs @ ys) w'"

lemma sock_inv_close:
  assumes "sock_inv (xs @ s # ys) w" "sock_close True iom s w = Inr (s', w')"
  shows "sock_inv (xs @ s' # ys) w'" "sock_inv (xs @ ys) w'"
proof -
  have ok: "owner_ok s w" using assms(1) by (rule sock_inv_owner) simp
  show inv: "sock_inv (xs @ s' # ys) w'"
    using sock_inv_moves [OF assms(1)] sock_close_moves' [OF ok assms(2)] by blast
  then show "sock_inv (xs @ ys) w'"
    using sock_close_moves' [OF ok assms(2)] by (simp add: sock_inv_def)
qed

lemma sock_reach_inv: "sock_reach ss w \<Longrightarrow> sock_inv ss w"
proof (induction rule: sock_reach.induct)
  case (sock_start os opts)
  show ?case by (auto simp: sock_inv_def registered_def hook_inv_def new_FdManager_def)
next
  case (sock_create_step ss w family type protocol)
  then show ?case by (auto simp: sock_inv_def new_Socket_def)
next
  case (sock_timeout_step ss w s k t w')
  then have m: "sock_moves s w s w'" using setTimeout_moves sock_inv_owner by blast
  from sock_timeout_step obtain xs ys where "ss = xs @ s # ys" by (meson split_list)
  then show ?case using sock_inv_moves sock_timeout_step m by blast
next
  case (sock_accept_step ss w s rs k ws out w')
  then show ?case using sock_accept_inv [of ss w k rs ws s out w'] by (auto split: accept_out.splits)
qed (auto intro: bind_op.keeps_inv connect_op.keeps_inv sock_inv_close)

text \<open>
  C12. In every execution each open socket holds a valid descriptor that the kernel has open and non-blocking
  and that no other socket holds, and every registered descriptor is held by a socket: none
  is leaked and none is closed twice. A connected socket always has one.
\<close>

theorem socket_descriptors:
  assumes "sock_reach ss w"
  shows "(\<forall>s \<in> set ss. sk_connected s \<longrightarrow> sk_fd s \<noteq> - 1) \<and>
    (\<forall>s \<in> set ss. sk_fd s \<noteq> - 1 \<longrightarrow> isVaild s w = Inr True \<and> os_stat (hk_os (nw_hook w)) (sk_fd s) \<noteq> None \<and>
       nonblocking (hk_os (nw_hook w)) (sk_fd s)) \<and>
    distinct (fds ss) \<and> set (fds ss) = registered (nw_hook w)"
proof -
  note inv = sock_reach_inv [OF assms]
  have "isVaild s w = Inr True \<and> os_stat (hk_os (nw_hook w)) (sk_fd s) \<noteq> None \<and> nonblocking (hk_os (nw_hook w)) (sk_fd s)"
    if "s \<in> set ss" "sk_fd s \<noteq> - 1" for s
    using isVaild_owner [OF sock_inv_owner [OF inv that(1)]] sock_inv_owner [OF inv that(1)] that(2)
    by (auto simp: owner_ok_def dest: registered_open)
  then show ?thesis using inv by (simp add: sock_inv_def)
qed

text \<open>A kernel that grants everything and opens the lowest free descriptor below 64, and a process with its
  standard streams open.\<close>

definition granting_kernel :: kernel where
  "granting_kernel = \<lparr>kn_socket = \<lambda>os. map_option (\<lambda>i. (i, 2)) (find (\<lambda>i. os_stat os i = None) [0..63]),
     kn_setopt = \<lambda>_. True, kn_getopt = \<lambda>_. Some 0, kn_bind = True, kn_listen = True,
     kn_connect = (IoErr EINPROGRESS, Woken False, Inr 0),
     kn_name = Some \<lparr>nm_in = new_IPv4 0x7F000001 4096, nm_in6 = new_IPv6, nm_path = [], nm_len = 16\<rparr>,
     kn_peer = Some \<lparr>nm_in = new_IPv4 0x7F000001 80, nm_in6 = new_IPv6, nm_path = [], nm_len = 16\<rparr>\<rparr>"

lemma fresh_granting_kernel: "fresh_kernel granting_kernel"
  by (auto simp: fresh_kernel_def granting_kernel_def find_Some_iff)

definition empty_world :: net_world where
  "empty_world = \<lparr>nw_hook = \<lparr>hk_os = \<lparr>os_stat = \<lambda>fd. if 0 \<le> fd \<and> fd < 3 then Some False else None, os_flags = \<lambda>_. 0\<rparr>, hk_fds = new_FdManager\<rparr>, nw_opts = \<lambda>_. Map.empty\<rparr>"

definition loopback :: sock_address where
  "loopback = NetAddress (IPv4Address (new_IPv4 0x7F000001 80))"

section \<open>Connecting\<close>

text \<open>Setting an option that is not a timeout only reaches the kernel.\<close>

lemma setOption_plain:
  assumes "(level, optname) \<noteq> (SOL_SOCKET, SO_RCVTIMEO)" "(level, optname) \<noteq> (SOL_SOCKET, SO_SNDTIMEO)"
  shows "\<exists>opts. setOption en k level optname v s w = Inr (kn_setopt k (level, optname), w\<lparr>nw_opts := opts\<rparr>) \<and>
    (kn_setopt k (level, optname) \<longrightarrow> opts (sk_fd s) (level, optname) = Some v) \<and>
    (\<forall>x. x \<noteq> (level, optname) \<longrightarrow> opts (sk_fd s) x = nw_opts w (sk_fd s) x)"
proof -
  have "w\<lparr>nw_opts := nw_opts w\<rparr> = w" by (cases w) simp
  then show ?thesis
    using assms by (cases "opt_timeval v") (auto simp: setOption_def hook_setsockopt_def Let_def
      intro: exI [of _ "nw_opts w"])
qed

lemma initSocket_opts:
  "\<exists>opts. initSocket en k s w = Inr (w\<lparr>nw_opts := opts\<rparr>) \<and>
     (kn_setopt k (SOL_SOCKET, SO_REUSEADDR) \<longrightarrow> opts (sk_fd s) (SOL_SOCKET, SO_REUSEADDR) = Some (OptInt 1)) \<and>
     (kn_setopt k (IPPROTO_TCP, TCP_NODELAY) \<and> sk_type s = SOCK_STREAM \<longrightarrow>
        opts (sk_fd s) (IPPROTO_TCP, TCP_NODELAY) = Some (OptInt 1))"
proof -
  obtain o1 where o1: "setOption en k SOL_SOCKET SO_REUSEADDR (OptInt 1) s w =
      Inr (kn_setopt k (SOL_SOCKET, SO_REUSEADDR), w\<lparr>nw_opts := o1\<rparr>)"
    "kn_setopt k (SOL_SOCKET, SO_REUSEADDR) \<longrightarrow> o1 (sk_fd s) (SOL_SOCKET, SO_REUSEADDR) = Some (OptInt 1)"
    using setOption_plain [of SOL_SOCKET SO_REUSEADDR en k "OptInt 1" s w]
    by (auto simp: SOL_SOCKET_def SO_REUSEADDR_def SO_RCVTIMEO_def SO_SNDTIMEO_def)
  obtain o2 where o2: "setOption en k IPPROTO_TCP TCP_NODELAY (OptInt 1) s (w\<lparr>nw_opts := o1\<rparr>) =
      Inr (kn_setopt k (IPPROTO_TCP, TCP_NODELAY), w\<lparr>nw_opts := o2\<rparr>)"
    "kn_setopt k (IPPROTO_TCP, TCP_NODELAY) \<longrightarrow> o2 (sk_fd s) (IPPROTO_TCP, TCP_NODELAY) = Some (OptInt 1)"
    "o2 (sk_fd s) (SOL_SOCKET, SO_REUSEADDR) = o1 (sk_fd s) (SOL_SOCKET, SO_REUSEADDR)"
    using setOption_plain [of IPPROTO_TCP TCP_NODELAY en k "OptInt 1" s "w\<lparr>nw_opts := o1\<rparr>"]
    by (auto simp: SOL_SOCKET_def IPPROTO_TCP_def)
  show ?thesis
    using o1 o2 by (cases "sk_type s = SOCK_STREAM") (auto simp: initSocket_def)
qed

text \<open>A kernel that opens a descriptor with a number below 64.\<close>

lemma hook_socket_opens:
  assumes "hook_inv h" "fresh_kernel k" "kn_socket k (hk_os h) = Some (fd, flags)" "0 \<le> fd" "fd < 64"
  shows "\<exists>h' c. hook_socket True (kn_socket k (hk_os h)) h = Inr (fd, h') \<and> hk_fds h' ! nat fd = Some c \<and>
    \<not> fc_user_nonblock c \<and> os_stat (hk_os h') = (os_stat (hk_os h))(fd \<mapsto> True)"
proof -
  let ?h = "h\<lparr>hk_os := os_open fd flags (hk_os h)\<rparr>"
  have "\<exists>h'. hook_register fd ?h = Inr h'"
    using assms hook_inv_length [OF assms(1)] fd_create_eq [of fd "hk_fds h" "os_open fd flags (hk_os h)"]
    by (cases "hk_fds h ! nat fd") (auto simp: hook_register_def getFdContext_def)
  then obtain h' where h': "hook_register fd ?h = Inr h'" by blast
  have "os_stat (hk_os h) fd = None" using assms(2,3) unfolding fresh_kernel_def by blast
  moreover have "os_stat (hk_os h') = (os_stat (hk_os h))(fd \<mapsto> True)"
    using hook_register_stat [OF h'] by (simp add: os_open_def)
  ultimately show ?thesis
    using hook_register_inv [OF assms(1) _ h'] assms(3) h' by (auto simp: hook_socket_def Let_def)
qed

lemma sock_ready_opens:
  assumes "owner_ok s w" "sk_fd s = - 1" "fresh_kernel k" "kn_socket k (hk_os (nw_hook w)) = Some (fd, flags)"
    "0 \<le> fd" "fd < 64"
  shows "\<exists>w'. sock_ready True k s w = Inr (True, s\<lparr>sk_fd := fd\<rparr>, w') \<and> sock_moves s w (s\<lparr>sk_fd := fd\<rparr>) w' \<and>
    (kn_setopt k (SOL_SOCKET, SO_REUSEADDR) \<longrightarrow> nw_opts w' fd (SOL_SOCKET, SO_REUSEADDR) = Some (OptInt 1)) \<and>
    (kn_setopt k (IPPROTO_TCP, TCP_NODELAY) \<and> sk_type s = SOCK_STREAM \<longrightarrow>
       nw_opts w' fd (IPPROTO_TCP, TCP_NODELAY) = Some (OptInt 1)) \<and>
    (\<exists>c. hk_fds (nw_hook w') ! nat fd = Some c \<and> \<not> fc_user_nonblock c) \<and>
    os_stat (hk_os (nw_hook w')) = (os_stat (hk_os (nw_hook w)))(fd \<mapsto> True)"
proof -
  let ?s = "s\<lparr>sk_fd := fd\<rparr>"
  have inv: "hook_inv (nw_hook w)" using assms(1) by (simp add: owner_ok_def)
  obtain h c where h: "hook_socket True (kn_socket k (hk_os (nw_hook w))) (nw_hook w) = Inr (fd, h)"
    "hk_fds h ! nat fd = Some c" "\<not> fc_user_nonblock c" "os_stat (hk_os h) = (os_stat (hk_os (nw_hook w)))(fd \<mapsto> True)"
    using hook_socket_opens [OF inv assms(3-6)] by blast
  obtain opts where o: "initSocket True k ?s (fresh_opts fd (w\<lparr>nw_hook := h\<rparr>)) = Inr (w\<lparr>nw_hook := h, nw_opts := opts\<rparr>)"
    "kn_setopt k (SOL_SOCKET, SO_REUSEADDR) \<longrightarrow> opts fd (SOL_SOCKET, SO_REUSEADDR) = Some (OptInt 1)"
    "kn_setopt k (IPPROTO_TCP, TCP_NODELAY) \<and> sk_type s = SOCK_STREAM \<longrightarrow> opts fd (IPPROTO_TCP, TCP_NODELAY) = Some (OptInt 1)"
    using initSocket_opts [of True k ?s "fresh_opts fd (w\<lparr>nw_hook := h\<rparr>)"] by (auto simp: fresh_opts_def)
  have new: "newSocket True k s w = Inr (?s, w\<lparr>nw_hook := h, nw_opts := opts\<rparr>)"
    using assms(5) h(1) o(1) by (simp add: newSocket_def)
  note m = newSocket_moves [OF assms(3,1,2) new]
  have "sock_ready True k s w = Inr (True, ?s, w\<lparr>nw_hook := h, nw_opts := opts\<rparr>)"
    using new isVaild_owner [OF assms(1)] isVaild_owner [OF sock_moves_owner [OF m]] assms(2,5)
    by (simp add: sock_ready_def)
  then show ?thesis using m o h(2-4) by auto
qed

text \<open>
  C20. A non-blocking connection attempt on a new socket, finished by the kernel with the pending error
  \<open>err\<close> or by the timer. It succeeds exactly when it was not timed out and there is no error; then the socket is
  connected on the new descriptor, with the options of the code set. Otherwise the descriptor is
  closed again and the registered descriptors are as before.
\<close>

theorem connect_outcome:
  assumes "owner_ok s w" "sk_fd s = - 1" "fresh_kernel k" "kn_socket k (hk_os (nw_hook w)) = Some (fd, flags)"
    "0 \<le> fd" "fd < 64" "getFamily a = sk_family s"
    and con: "kn_connect k = (IoErr EINPROGRESS, Woken timedout, Inr err)"
  shows "\<exists>s' w'. sock_connect True True k a t s w = Inr (\<not> (timedout \<and> t \<noteq> - 1) \<and> err = 0, s', w') \<and>
    (if \<not> (timedout \<and> t \<noteq> - 1) \<and> err = 0
     then sk_fd s' = fd \<and> sk_connected s' \<and> registered (nw_hook w') = insert fd (registered (nw_hook w)) \<and>
       (kn_setopt k (SOL_SOCKET, SO_REUSEADDR) \<longrightarrow> nw_opts w' fd (SOL_SOCKET, SO_REUSEADDR) = Some (OptInt 1)) \<and>
       (sk_remote s = None \<longrightarrow> sk_remote s' = map_option (read_name (sk_family s)) (kn_peer k))
     else sk_fd s' = - 1 \<and> \<not> sk_connected s' \<and> registered (nw_hook w') = registered (nw_hook w))"
proof -
  let ?s = "s\<lparr>sk_fd := fd\<rparr>" and ?ok = "\<not> (timedout \<and> t \<noteq> - 1) \<and> err = 0"
  obtain w1 c where w1: "sock_ready True k s w = Inr (True, ?s, w1)" "sock_moves s w ?s w1"
    "kn_setopt k (SOL_SOCKET, SO_REUSEADDR) \<longrightarrow> nw_opts w1 fd (SOL_SOCKET, SO_REUSEADDR) = Some (OptInt 1)"
    "hk_fds (nw_hook w1) ! nat fd = Some c" "\<not> fc_user_nonblock c"
    using sock_ready_opens [OF assms(1-6)] by blast
  note ow = sock_moves_owner [OF w1(2)]
  have reg: "hook_inv (nw_hook w1)" "fd \<in> registered (nw_hook w1)" using ow assms(5) by (auto simp: owner_ok_def)
  have io: "connect_with_timeout True True fd t' (IoErr EINPROGRESS) (Woken timedout) (Inr err) (nw_hook w1) =
      Inr (if timedout \<and> t' \<noteq> - 1 then IoErr ETIMEDOUT else if err = 0 then IoRet 0 else IoErr err,
           [OrigCall] @ arm t' @ [AddEvent EvWrite, Hold] @ disarm t')" for t'
    using reg w1(4,5) by (auto simp: connect_with_timeout_def elim!: registered_context)
  have new: "registered (nw_hook w1) = insert fd (registered (nw_hook w))" "fd \<notin> registered (nw_hook w)"
    using w1(2) reg(2) assms(2) minus_one_not_registered [of "nw_hook w"] by (auto simp: sock_moves_def)
  show ?thesis
  proof (cases ?ok)
    case True
    then have "sock_connect True True k a t s w = Inr (True,
        snd (getRemoteAddress k (snd (getLocalAddress k (?s\<lparr>sk_connected := True\<rparr>)))), w1)"
      using w1(1) assms(7) con io by (simp add: sock_connect_def hook_connect_def s_connect_timeout_def)
    then show ?thesis using True w1(3) new
      by (auto simp: getRemoteAddress_def getLocalAddress_def Let_def split: option.splits)
  next
    case False
    obtain s' w' where c: "sock_close True True ?s w1 = Inr (s', w')" "sock_moves ?s w1 s' w'" "sk_fd s' = - 1" "\<not> sk_connected s'"
      using sock_close_moves [OF ow, of True] by auto
    then have "sock_connect True True k a t s w = Inr (False, s', w')"
      using False w1(1) assms(7) con io by (auto simp: sock_connect_def hook_connect_def s_connect_timeout_def)
    moreover have "registered (nw_hook w') = registered (nw_hook w)"
      using c(2,3) new minus_one_not_registered [of "nw_hook w'"] by (auto simp: sock_moves_def)
    ultimately show ?thesis using False c(3,4) by auto
  qed
qed

theorem connect_outcome_witness:
  "\<exists>s w. sock_connect True True granting_kernel loopback 1000 (CreateTCP loopback) empty_world = Inr (True, s, w) \<and>
     sk_fd s = 3 \<and> sk_connected s \<and> sk_remote s = Some loopback \<and> registered (nw_hook w) = {3}"
proof -
  have 1: "owner_ok (CreateTCP loopback) empty_world"
    by (simp add: owner_ok_def CreateTCP_def new_Socket_def empty_world_def hook_inv_def new_FdManager_def)
  have 2: "sk_fd (CreateTCP loopback) = - 1" "getFamily loopback = sk_family (CreateTCP loopback)"
    by (simp_all add: CreateTCP_def new_Socket_def)
  have 3: "kn_socket granting_kernel (hk_os (nw_hook empty_world)) = Some (3, 2)"
    by (simp add: granting_kernel_def empty_world_def upto_rec1)
  have 4: "kn_connect granting_kernel = (IoErr EINPROGRESS, Woken False, Inr 0)" by (simp add: granting_kernel_def)
  have 5: "registered (nw_hook empty_world) = {}" by (auto simp: registered_def empty_world_def new_FdManager_def)
  have 6: "map_option (read_name AF_INET) (kn_peer granting_kernel) = Some loopback"
    by (simp add: read_name_def granting_kernel_def loopback_def)
  show ?thesis
    using connect_outcome [OF 1 2(1) fresh_granting_kernel 3 _ _ 2(2) 4, of 1000] 5 6
    by (auto simp: CreateTCP_def new_Socket_def loopback_def new_IPv4_def)
qed

section \<open>Binding\<close>

lemma sock_bind_opens:
  assumes "owner_ok s w" "sk_fd s = - 1" "fresh_kernel k" "kn_socket k (hk_os (nw_hook w)) = Some (fd, flags)"
    "0 \<le> fd" "fd < 64" "getFamily a = sk_family s"
  shows "\<exists>s' w'. sock_bind True k a s w = Inr (kn_bind k, s', w') \<and> sk_fd s' = fd \<and> sk_connected s' = sk_connected s \<and>
    os_stat (hk_os (nw_hook w')) = (os_stat (hk_os (nw_hook w)))(fd \<mapsto> True)"
proof -
  let ?s = "s\<lparr>sk_fd := fd\<rparr>"
  obtain w' where w': "sock_ready True k s w = Inr (True, ?s, w')"
    "os_stat (hk_os (nw_hook w')) = (os_stat (hk_os (nw_hook w)))(fd \<mapsto> True)"
    using sock_ready_opens [OF assms(1-6)] by blast
  then have "sock_bind True k a s w = Inr (kn_bind k, if kn_bind k then snd (getLocalAddress k ?s) else ?s, w')"
    using assms(7) by (simp add: sock_bind_def del: bindE_eq_Inr)
  then show ?thesis using w'(2) by auto
qed

lemma empty_world_owner:
  "owner_ok (CreateTCP loopback) empty_world" "sk_fd (CreateTCP loopback) = - 1"
  "getFamily loopback = sk_family (CreateTCP loopback)"
  "kn_socket granting_kernel (hk_os (nw_hook empty_world)) = Some (3, 2)"
  by (simp_all add: owner_ok_def CreateTCP_def new_Socket_def empty_world_def hook_inv_def new_FdManager_def
      granting_kernel_def upto_rec1)

theorem socket_descriptors_witness:
  "\<exists>s w. sock_reach [s] w \<and> sk_fd s = 3 \<and> isVaild s w = Inr True \<and> registered (nw_hook w) = {3}"
proof -
  obtain s w where b: "sock_bind True granting_kernel loopback (CreateTCP loopback) empty_world = Inr (True, s, w)" "sk_fd s = 3"
    using sock_bind_opens [OF empty_world_owner(1,2) fresh_granting_kernel empty_world_owner(4) _ _ empty_world_owner(3)]
    by (auto simp: granting_kernel_def)
  have "sock_reach ([] @ [CreateTCP loopback]) empty_world"
    unfolding empty_world_def CreateTCP_def by (rule sock_create_step [OF sock_start])
  then have r: "sock_reach ([] @ [s]) w"
    using sock_bind_step [OF _ fresh_granting_kernel b(1), of "[]" "[]"] by simp
  show ?thesis using socket_descriptors [OF r] b(2) r by auto
qed

section \<open>Timeouts\<close>

text \<open>The seconds survive the conversion to \<open>int\<close> exactly when they fit it.\<close>

lemma dvd_small:
  fixes d :: int
  assumes "2 ^ 64 dvd d * 1000" "\<bar>d\<bar> < 2 ^ 61"
  shows "d = 0"
proof -
  have "(2 ^ 61 * 8 :: int) dvd (d * 125) * 8" using assms(1) by (simp add: mult.commute)
  then have "(2 ^ 61 :: int) dvd d * 125" by (metis dvd_mult_cancel_right zero_neq_numeral)
  moreover have "coprime (2 ^ 61 :: int) 125" by (simp add: coprime_power_left_iff coprime_left_2_iff_odd del: power_numeral)
  ultimately have "(2 ^ 61 :: int) dvd d" by (simp only: coprime_dvd_mult_left_iff)
  then show ?thesis using assms(2) dvd_imp_le_int [of d "2 ^ 61"] by fastforce
qed

lemma wi_eq_dvd: "word_of_int a = (word_of_int b :: u64) \<longleftrightarrow> 2 ^ 64 dvd a - b"
  by (simp add: word_of_int_eq_iff take_bit_eq_mod mod_eq_dvd_iff)

lemma sint_exact: "sint (of_nat m :: u32) = int m \<longleftrightarrow> m < 2 ^ 31"
proof
  assume "m < 2 ^ 31"
  then show "sint (of_nat m :: u32) = int m" by (simp add: signed_of_nat signed_take_bit_int_eq_self)
next
  assume "sint (of_nat m :: u32) = int m"
  moreover have "sint (of_nat m :: u32) < 2 ^ 31" using sint_less [of "of_nat m :: u32"] by simp
  ultimately show "m < 2 ^ 31" by simp
qed

lemma sec_dvd:
  assumes "m < 2 ^ 55"
  shows "(2 ^ 64 :: int) dvd (sint (of_nat m :: u32) - int m) * 1000 \<longleftrightarrow> m < 2 ^ 31"
proof -
  have "- (2 ^ 31) \<le> sint (of_nat m :: u32)" "sint (of_nat m :: u32) < 2 ^ 31"
    using sint_greater_eq [of "of_nat m :: u32"] sint_less [of "of_nat m :: u32"] by simp_all
  then have "\<bar>sint (of_nat m :: u32) - int m\<bar> < 2 ^ 61" using assms by simp
  note d = dvd_small [OF _ this]
  show ?thesis unfolding sint_exact [symmetric]
  proof
    assume "(2 ^ 64 :: int) dvd (sint (of_nat m :: u32) - int m) * 1000"
    from d [OF this] show "sint (of_nat m :: u32) = int m" by simp
  qed simp
qed

lemma sec_exact:
  fixes t :: u64
  shows "(scast (ucast (t div 1000) :: u32) :: u64) * 1000 + t mod 1000 = t \<longleftrightarrow> unat t div 1000 < 2 ^ 31"
proof -
  let ?m = "unat t div 1000" and ?S = "scast (ucast (t div 1000) :: u32) :: u64"
  have m: "unat (t div 1000) = ?m" by (simp add: unat_div)
  have lt: "?m < 2 ^ 55" using unsigned_less [of t, where ?'a = nat] by simp
  have S: "?S = word_of_int (sint (of_nat ?m :: u32))" unfolding scast_eq m [symmetric] by (simp only: of_nat_unat)
  have q: "t div 1000 = word_of_int (int ?m)" unfolding m [symmetric] by simp
  have mult: "word_of_int x * 1000 = (word_of_int (x * 1000) :: u64)" for x
    by (simp only: wi_hom_mult [symmetric] of_int_numeral)
  have eq: "t div 1000 * 1000 + t mod 1000 = t" by (rule div_mult_mod_eq)
  have "(?S * 1000 + t mod 1000 = t) = (?S * 1000 + t mod 1000 = t div 1000 * 1000 + t mod 1000)"
    unfolding eq ..
  also have "\<dots> = (?S * 1000 = t div 1000 * 1000)" by (rule add_right_cancel)
  also have "\<dots> = (word_of_int (sint (of_nat ?m :: u32) * 1000) = (word_of_int (int ?m * 1000) :: u64))"
  proof -
    have "?S * 1000 = word_of_int (sint (of_nat ?m :: u32) * 1000)" by (subst S) (rule mult)
    moreover have "t div 1000 * 1000 = word_of_int (int ?m * 1000)" by (subst q) (rule mult)
    ultimately show ?thesis by (simp only:)
  qed
  also have "\<dots> = (?m < 2 ^ 31)"
    unfolding wi_eq_dvd left_diff_distrib [symmetric] by (rule sec_dvd [OF lt])
  finally show ?thesis .
qed

lemma usec_exact: "(scast (ucast (t mod 1000 * 1000 :: u64) :: u32) :: u64) div 1000 = t mod 1000"
proof -
  let ?n = "unat t mod 1000 * 1000"
  have n: "unat (t mod 1000) = unat t mod 1000" by (simp add: unat_mod)
  have "t mod 1000 = of_nat (unat t mod 1000)" unfolding n [symmetric] by simp
  then have eq: "t mod 1000 * 1000 = of_nat ?n" by simp
  have lt: "?n < 2 ^ 31" by (rule le_less_trans [of _ "999 * 1000"]) auto
  have small: "unat (of_nat m :: u64) = m" if "m < 2 ^ 31" for m :: nat
    using that by (simp add: unat_of_nat)
  have "unat (of_nat ?n div 1000 :: u64) = ?n div 1000"
    by (simp only: unat_div small [OF lt]) simp
  then have "(of_nat ?n :: u64) div 1000 = t mod 1000"
    using n by (intro word_unat_eq_iff [THEN iffD2]) simp
  then show ?thesis unfolding eq scast_ucast_small [OF lt] .
qed

lemma to_timeval_stored:
  obtains sec usec where "to_timeval t = OptTime sec usec"
    "sec * 1000 + usec div 1000 = t \<longleftrightarrow> unat t div 1000 < 2 ^ 31"
  using sec_exact [of t] usec_exact [of t] by (auto simp: to_timeval_def)

lemma hook_setsockopt_timeout:
  assumes "owner_ok s w" "sk_fd s \<noteq> - 1" "opt = SO_RCVTIMEO \<or> opt = SO_SNDTIMEO" "to_timeval t = OptTime sec usec"
  shows "\<exists>c w' b. setOption True k SOL_SOCKET opt (to_timeval t) s w = Inr (b, w') \<and> sock_context s w = Inr (Some c) \<and>
    sock_context s w' = Inr (Some (fc_setTimeout opt (sec * 1000 + usec div 1000) c))"
proof -
  let ?fd = "sk_fd s" and ?h = "nw_hook w"
  obtain c where c: "hk_fds ?h ! nat ?fd = Some c" "0 \<le> ?fd" "?fd < 64" "length (hk_fds ?h) = 64"
    using assms(1,2) by (rule owner_context) (use assms(1) in \<open>auto simp: owner_ok_def hook_inv_length\<close>)
  let ?c = "fc_setTimeout opt (sec * 1000 + usec div 1000) c"
  have "hook_setsockopt True ?fd SOL_SOCKET opt sec usec ?h = Inr (set_context ?fd ?c ?h)"
    using c assms(3) by (auto simp: hook_setsockopt_def getFdContext_def)
  then have "\<exists>b w'. setOption True k SOL_SOCKET opt (to_timeval t) s w = Inr (b, w') \<and> nw_hook w' = set_context ?fd ?c ?h"
    by (auto simp: setOption_def assms(4) Let_def simp del: bindE_eq_Inr)
  then obtain b w' where w': "setOption True k SOL_SOCKET opt (to_timeval t) s w = Inr (b, w')"
    "nw_hook w' = set_context ?fd ?c ?h" by blast
  have "sock_context s w = Inr (Some c)" "sock_context s w' = Inr (Some ?c)"
    using c w'(2) by (simp_all add: sock_context_def getFdContext_def set_context_def)
  then show ?thesis using w'(1) by blast
qed

text \<open>
  C29. A timeout set through an open socket is the one read back exactly when its seconds fit an \<open>int\<close>. The largest
  value, which stands for no timeout everywhere else, does not. The timeout of
  the other direction is kept.
\<close>

theorem timeouts_read_back:
  assumes "owner_ok s w" "sk_fd s \<noteq> - 1"
  shows "(\<exists>w'. setRecvTimeout True k t s w = Inr w' \<and> (getRecvTimeout s w' = Inr t \<longleftrightarrow> unat t div 1000 < 2 ^ 31) \<and>
      getSendTimeout s w' = getSendTimeout s w) \<and>
    (\<exists>w'. setSendTimeout True k t s w = Inr w' \<and> (getSendTimeout s w' = Inr t \<longleftrightarrow> unat t div 1000 < 2 ^ 31) \<and>
      getRecvTimeout s w' = getRecvTimeout s w)"
proof -
  obtain sec usec where tv: "to_timeval t = OptTime sec usec"
    "sec * 1000 + usec div 1000 = t \<longleftrightarrow> unat t div 1000 < 2 ^ 31"
    by (rule to_timeval_stored)
  note defs = setRecvTimeout_def setSendTimeout_def getRecvTimeout_def getSendTimeout_def fc_setTimeout_def
    fc_getTimeout_def SO_RCVTIMEO_def SO_SNDTIMEO_def
  show ?thesis
    using hook_setsockopt_timeout [OF assms _ tv(1), of SO_RCVTIMEO k]
      hook_setsockopt_timeout [OF assms _ tv(1), of SO_SNDTIMEO k] tv(2)
    by (intro conjI) (auto simp: defs)
qed

theorem timeouts_read_back_witness:
  "\<exists>s w w' w''. sk_fd s = 3 \<and> setRecvTimeout True granting_kernel 30000 s w = Inr w' \<and> getRecvTimeout s w' = Inr 30000 \<and>
     setSendTimeout True granting_kernel (- 1) s w = Inr w'' \<and> getSendTimeout s w'' \<noteq> Inr (- 1)"
proof -
  obtain s w where b: "sock_bind True granting_kernel loopback (CreateTCP loopback) empty_world = Inr (True, s, w)" "sk_fd s = 3"
    using sock_bind_opens [OF empty_world_owner(1,2) fresh_granting_kernel empty_world_owner(4) _ _ empty_world_owner(3)]
    by (auto simp: granting_kernel_def)
  then have ok: "owner_ok s w" "sk_fd s \<noteq> - 1"
    using sock_bind_moves [OF fresh_granting_kernel empty_world_owner(1) b(1)] by (auto dest: sock_moves_owner)
  show ?thesis
    using timeouts_read_back [OF ok, of granting_kernel 30000] timeouts_read_back [OF ok, of granting_kernel "- 1"] b(2)
    by (auto simp: unsigned_minus_1_eq_mask mask_eq_exp_minus_1)
qed

text \<open>
  A timeout of zero, which means to wait without a limit for \<open>setsockopt\<close>, is stored as a timer of zero
  milliseconds: a read that would block arms it and fails when it fires.
\<close>

theorem zero_timeout_fires:
  assumes "owner_ok s w" "sk_connected s" "setRecvTimeout True k 0 s w = Inr w'"
    "\<And>c. sock_context s w = Inr (Some c) \<Longrightarrow> \<not> fc_user_nonblock c"
    "orig (len, flag) = IoErr EAGAIN # rs"
  shows "sock_recv True s len flag orig (Woken True # ws) w' =
    Inr (Some (IoErr ETIMEDOUT, [OrigCall, ArmTimer 0, AddEvent EvRead, Hold, CancelTimer]))"
proof -
  have fd: "sk_fd s \<noteq> - 1" using assms(1,2) by (simp add: owner_ok_def)
  have tv: "to_timeval 0 = OptTime 0 0" by (simp add: to_timeval_def)
  obtain c where c: "sock_context s w = Inr (Some c)" "sock_context s w' = Inr (Some (fc_setTimeout SO_RCVTIMEO 0 c))"
    using hook_setsockopt_timeout [OF assms(1) fd _ tv, of SO_RCVTIMEO k] assms(3) by (auto simp: setRecvTimeout_def)
  obtain c' where "sock_context s w' = Inr (Some c')" "fc_is_socket c'" "\<not> fc_is_close c'"
    using owner_context [OF sock_moves_owner [OF setTimeout_moves(2) [OF assms(1,3)]] fd] by blast
  then have ok: "fc_is_socket c" "\<not> fc_is_close c" "\<not> fc_user_nonblock c"
    using c assms(4) by (auto simp: fc_setTimeout_def)
  then show ?thesis
    using c(2) assms(2,5)
    by (auto simp: sock_recv_def hook_read_def do_io_def sock_context_def fc_setTimeout_def fc_getTimeout_def
        EINTR_def EAGAIN_def arm_def disarm_def)
qed

section \<open>Defects\<close>

text \<open>
  \<open>close\<close> keeps the addresses, and the getters do not ask again: a socket that is connected a
  second time still reports the peer of its first connection.
\<close>

theorem reconnect_reports_old_peer:
  assumes "sk_remote s = Some a" "sock_close en iom s w = Inr (s1, w1)"
    "sock_connect en iom k b t s1 w1 = Inr (ok, s2, w2)"
  shows "sk_remote s2 = Some a" "fst (getRemoteAddress k' s2) = a"
proof -
  have close: "sk_remote s' = sk_remote t" if "sock_close en iom t w = Inr (s', w')" for t s' w w'
    using that by (auto simp: sock_close_def Let_def split: if_splits)
  have keep: "sk_remote (snd (getRemoteAddress k (snd (getLocalAddress k t)))) = Some a" if "sk_remote t = Some a" for t
    using that by (auto simp: getRemoteAddress_def getLocalAddress_def Let_def split: option.splits)
  obtain r s' w' where r: "sock_ready en k s1 w1 = Inr (r, s', w')"
    and s2: "s2 = s' \<or> sock_close en iom s' w' = Inr (s2, w2) \<or>
      s2 = snd (getRemoteAddress k (snd (getLocalAddress k (s'\<lparr>sk_connected := True\<rparr>))))"
    using assms(3) by (auto simp: sock_connect_def Let_def io_ret_not_err split: if_splits io_ret.splits prod.splits)
  have "sk_remote s' = Some a" using sock_ready_same [OF r] close [OF assms(2)] assms(1) by auto
  then show "sk_remote s2 = Some a" using s2 close keep by auto
  then show "fst (getRemoteAddress k' s2) = a" by (simp add: getRemoteAddress_def)
qed

text \<open>
  On a thread without hooks a new descriptor is not registered, so \<open>isVaild\<close> rejects it: \<open>bind\<close> fails although
  the kernel opened the descriptor, and the next attempt overwrites it with another one, leaving it open
  with no owner.
\<close>

lemma sock_bind_unhooked:
  assumes "length (hk_fds (nw_hook w)) = 64" "kn_socket k (hk_os (nw_hook w)) = Some (fd, flags)" "0 \<le> fd"
    "\<And>fd. 0 \<le> fd \<Longrightarrow> fd < 64 \<Longrightarrow> hk_fds (nw_hook w) ! nat fd = None" "sk_fd s = - 1 \<or> 0 \<le> sk_fd s"
  shows "\<exists>w'. sock_bind False k a s w = Inr (False, s\<lparr>sk_fd := fd\<rparr>, w') \<and>
    hk_fds (nw_hook w') = hk_fds (nw_hook w) \<and> hk_os (nw_hook w') = os_open fd flags (hk_os (nw_hook w))"
proof -
  have inv: "isVaild t w' = Inr False" if "hk_fds (nw_hook w') = hk_fds (nw_hook w)" "sk_fd t = - 1 \<or> 0 \<le> sk_fd t" for t w'
    using that assms(1) assms(4) [of "sk_fd t"]
    by (cases "sk_fd t < 64") (auto simp: isVaild_def sock_context_def getFdContext_def)
  let ?s = "s\<lparr>sk_fd := fd\<rparr>" and ?h = "(nw_hook w)\<lparr>hk_os := os_open fd flags (hk_os (nw_hook w))\<rparr>"
  obtain opts where o: "initSocket False k ?s (fresh_opts fd (w\<lparr>nw_hook := ?h\<rparr>)) = Inr (w\<lparr>nw_hook := ?h, nw_opts := opts\<rparr>)"
    using initSocket_opts [of False k ?s "fresh_opts fd (w\<lparr>nw_hook := ?h\<rparr>)"] by (auto simp: fresh_opts_def)
  have "sock_bind False k a s w = Inr (False, ?s, w\<lparr>nw_hook := ?h, nw_opts := opts\<rparr>)"
    using inv [of w s] inv [of "w\<lparr>nw_hook := ?h, nw_opts := opts\<rparr>" ?s] assms(2,3,5) o
    by (simp add: sock_bind_def sock_ready_def newSocket_def hook_socket_def Let_def del: bindE_eq_Inr)
  then show ?thesis by simp
qed

theorem unhooked_bind_leaks:
  assumes w: "length (hk_fds (nw_hook w)) = 64" "\<And>fd. 0 \<le> fd \<Longrightarrow> fd < 64 \<Longrightarrow> hk_fds (nw_hook w) ! nat fd = None"
    and k: "fresh_kernel k" "\<And>os. \<exists>fd flags. kn_socket k os = Some (fd, flags) \<and> 0 \<le> fd" and s: "sk_fd s = - 1"
  shows "\<exists>s1 w1 s2 w2. sock_bind False k a s w = Inr (False, s1, w1) \<and> sock_bind False k a s1 w1 = Inr (False, s2, w2) \<and>
    sk_fd s1 \<noteq> sk_fd s2 \<and> os_stat (hk_os (nw_hook w2)) (sk_fd s1) = Some True \<and>
    os_stat (hk_os (nw_hook w)) (sk_fd s1) = None"
proof -
  obtain fd flags where 1: "kn_socket k (hk_os (nw_hook w)) = Some (fd, flags)" "0 \<le> fd" using k(2) by blast
  obtain w1 where b1: "sock_bind False k a s w = Inr (False, s\<lparr>sk_fd := fd\<rparr>, w1)"
    "hk_fds (nw_hook w1) = hk_fds (nw_hook w)" "hk_os (nw_hook w1) = os_open fd flags (hk_os (nw_hook w))"
    using sock_bind_unhooked [OF w(1) 1 w(2)] s by blast
  obtain fd' flags' where 2: "kn_socket k (hk_os (nw_hook w1)) = Some (fd', flags')" "0 \<le> fd'" using k(2) by blast
  obtain w2 where b2: "sock_bind False k a (s\<lparr>sk_fd := fd\<rparr>) w1 = Inr (False, s\<lparr>sk_fd := fd, sk_fd := fd'\<rparr>, w2)"
    "hk_os (nw_hook w2) = os_open fd' flags' (hk_os (nw_hook w1))"
    using sock_bind_unhooked [of w1 k fd' flags' "s\<lparr>sk_fd := fd\<rparr>" a] 2 b1(2) w 1(2) by auto
  have "os_stat (hk_os (nw_hook w1)) fd' = None" "os_stat (hk_os (nw_hook w)) fd = None"
    using k(1) 1 2 unfolding fresh_kernel_def by blast+
  then show ?thesis using b1 b2 by (auto simp: os_open_def)
qed

end
