(* ===== verification/Tcp_Server.thy ===== *)
theory Tcp_Server
  imports Socket
begin

text \<open>
  The TCP server (\<open>include/tcp_server.h\<close>, \<open>src/tcp_server.cc\<close>): binding a list of addresses, and the tasks that
  accept connections and shut the server down.

  Socket objects are shared between the server and its tasks, so they live in a heap, a list that only
  grows; a pointer is an index. An object that is destroyed has closed its descriptor. \<open>ts_tasks\<close> are the
  tasks given to the two IO managers that have not finished; a pending or running accept task holds a
  reference to its socket.
\<close>

section \<open>State\<close>

datatype server_task = AcceptTask nat | HandleTask nat | CloseTask

record tcp_server =
  ts_heap :: "socket_obj list"
  ts_socks :: "nat list"
  ts_stop :: bool
  ts_tasks :: "server_task list"

definition new_TCPServer :: tcp_server where
  "new_TCPServer = \<lparr>ts_heap = [], ts_socks = [], ts_stop = True, ts_tasks = []\<rparr>"

section \<open>Binding\<close>

text \<open>One round of the loop: a socket that listens, or none; the local pointer destroys the socket of a failed round.\<close>

definition tcp_bind_one :: "bool \<Rightarrow> bool \<Rightarrow> kernel \<Rightarrow> sock_address \<Rightarrow> net_world \<Rightarrow>
    (socket_obj option \<times> net_world) res" where
  "tcp_bind_one en iom k addr w =
     bindE (sock_bind en k addr (CreateTCP addr) w) (\<lambda>(ok, sock, w).
     bindE (if ok then sock_listen k sock w else Inr False) (\<lambda>ok.
     if ok then Inr (Some sock, w)
     else bindE (sock_close en iom sock w) (\<lambda>(_, w). Inr (None, w))))"

definition push_sock :: "socket_obj \<Rightarrow> tcp_server \<Rightarrow> tcp_server" where
  "push_sock sock srv =
     srv\<lparr>ts_heap := ts_heap srv @ [sock], ts_socks := ts_socks srv @ [length (ts_heap srv)]\<rparr>"

text \<open>Each address comes with the kernel's answers to its round.\<close>

fun tcp_bind_loop :: "bool \<Rightarrow> bool \<Rightarrow> (sock_address \<times> kernel) list \<Rightarrow> sock_address list \<Rightarrow> tcp_server \<Rightarrow> net_world \<Rightarrow>
    (sock_address list \<times> tcp_server \<times> net_world) res" where
  "tcp_bind_loop en iom [] fail srv w = Inr (fail, srv, w)"
| "tcp_bind_loop en iom ((addr, k) # addrs) fail srv w =
     bindE (tcp_bind_one en iom k addr w) (\<lambda>(r, w).
     case r of
       None \<Rightarrow> tcp_bind_loop en iom addrs (fail @ [addr]) srv w
     | Some sock \<Rightarrow> tcp_bind_loop en iom addrs fail (push_sock sock srv) w)"

text \<open>Closing the object behind a pointer.\<close>

definition close_at :: "bool \<Rightarrow> bool \<Rightarrow> nat \<Rightarrow> tcp_server \<Rightarrow> net_world \<Rightarrow> (tcp_server \<times> net_world) res" where
  "close_at en iom i srv w =
     (if length (ts_heap srv) \<le> i then Inl WildPointer
      else bindE (sock_close en iom (ts_heap srv ! i) w) (\<lambda>(s, w).
        Inr (srv\<lparr>ts_heap := (ts_heap srv)[i := s]\<rparr>, w)))"

text \<open>\<open>socks_.clear()\<close> destroys the sockets that no accept task refers to.\<close>

fun tcp_release :: "bool \<Rightarrow> bool \<Rightarrow> nat list \<Rightarrow> tcp_server \<Rightarrow> net_world \<Rightarrow> (tcp_server \<times> net_world) res" where
  "tcp_release en iom [] srv w = Inr (srv, w)"
| "tcp_release en iom (i # is) srv w =
     (if AcceptTask i \<in> set (ts_tasks srv) then tcp_release en iom is srv w
      else bindE (close_at en iom i srv w) (\<lambda>(srv, w). tcp_release en iom is srv w))"

definition tcp_bind :: "bool \<Rightarrow> bool \<Rightarrow> (sock_address \<times> kernel) list \<Rightarrow> sock_address list \<Rightarrow> tcp_server \<Rightarrow> net_world \<Rightarrow>
    (bool \<times> sock_address list \<times> tcp_server \<times> net_world) res" where
  "tcp_bind en iom addrs fail srv w =
     bindE (tcp_bind_loop en iom addrs fail srv w) (\<lambda>(fail, srv, w).
     if fail \<noteq> []
     then bindE (tcp_release en iom (ts_socks srv) srv w) (\<lambda>(srv, w).
       Inr (False, fail, srv\<lparr>ts_socks := []\<rparr>, w))
     else Inr (True, fail, srv, w))"

definition tcp_bind_addr :: "bool \<Rightarrow> bool \<Rightarrow> sock_address \<Rightarrow> kernel \<Rightarrow> tcp_server \<Rightarrow> net_world \<Rightarrow>
    (bool \<times> tcp_server \<times> net_world) res" where
  "tcp_bind_addr en iom addr k srv w =
     bindE (tcp_bind en iom [(addr, k)] [] srv w) (\<lambda>(ok, _, srv, w). Inr (ok, srv, w))"

section \<open>Starting, accepting, stopping\<close>

definition tcp_start :: "tcp_server \<Rightarrow> bool \<times> tcp_server" where
  "tcp_start srv =
     (if \<not> ts_stop srv then (True, srv)
      else (True, srv\<lparr>ts_stop := False, ts_tasks := ts_tasks srv @ map AcceptTask (ts_socks srv)\<rparr>))"

definition tcp_stop :: "tcp_server \<Rightarrow> bool \<times> tcp_server" where
  "tcp_stop srv =
     (if ts_stop srv then (True, srv)
      else (True, srv\<lparr>ts_stop := True, ts_tasks := ts_tasks srv @ [CloseTask]\<rparr>))"

text \<open>
  One round of the loop of \<open>startAccept\<close> on the socket at \<open>i\<close>; the flag tells whether the loop goes on. A
  suspended accept leaves everything as it is. When the loop ends, its reference to the socket goes.
\<close>

definition accept_round :: "bool \<Rightarrow> bool \<Rightarrow> kernel \<Rightarrow> io_ret list \<Rightarrow> hk_wait list \<Rightarrow> nat \<Rightarrow> tcp_server \<Rightarrow> net_world \<Rightarrow>
    (bool \<times> tcp_server \<times> net_world) res" where
  "accept_round en iom k rs ws i srv w =
     (if ts_stop srv
      then let srv = srv\<lparr>ts_tasks := remove1 (AcceptTask i) (ts_tasks srv)\<rparr> in
        bindE (if i \<in> set (ts_socks srv) then Inr (srv, w) else tcp_release en iom [i] srv w) (\<lambda>(srv, w).
        Inr (False, srv, w))
      else if length (ts_heap srv) \<le> i then Inl WildPointer
      else bindE (sock_accept en k rs ws (ts_heap srv ! i) w) (\<lambda>(out, w).
        Inr (True, (case out of
            Accepted client \<Rightarrow> srv\<lparr>ts_heap := ts_heap srv @ [client],
              ts_tasks := ts_tasks srv @ [HandleTask (length (ts_heap srv))]\<rparr>
          | _ \<Rightarrow> srv), w)))"

text \<open>\<open>TCPServer::handleClient\<close> only logs; then the last pointer to the client goes.\<close>

definition tcp_handleClient :: "bool \<Rightarrow> bool \<Rightarrow> nat \<Rightarrow> tcp_server \<Rightarrow> net_world \<Rightarrow> (tcp_server \<times> net_world) res" where
  "tcp_handleClient en iom i srv w =
     close_at en iom i (srv\<lparr>ts_tasks := remove1 (HandleTask i) (ts_tasks srv)\<rparr>) w"

text \<open>The task submitted by \<open>stop\<close>; \<open>m\<close> is the IO manager that runs it.\<close>

fun close_loop :: "bool \<Rightarrow> bool \<Rightarrow> nat list \<Rightarrow> tcp_server \<Rightarrow> net_world \<Rightarrow> iomanager \<Rightarrow>
    (tcp_server \<times> net_world \<times> iomanager) res" where
  "close_loop en valid [] srv w m = Inr (srv, w, m)"
| "close_loop en valid (i # is) srv w m =
     (if length (ts_heap srv) \<le> i then Inl WildPointer
      else bindE (cancelAll valid (ts_heap srv ! i) (Some m)) (\<lambda>(_, m).
           bindE (close_at en True i srv w) (\<lambda>(srv, w). close_loop en valid is srv w m)))"

definition close_task :: "bool \<Rightarrow> bool \<Rightarrow> tcp_server \<Rightarrow> net_world \<Rightarrow> iomanager \<Rightarrow>
    (tcp_server \<times> net_world \<times> iomanager) res" where
  "close_task en valid srv w m =
     bindE (close_loop en valid (ts_socks srv) srv w m) (\<lambda>(srv, w, m).
     Inr (srv\<lparr>ts_socks := [], ts_tasks := remove1 CloseTask (ts_tasks srv)\<rparr>, w, m))"

section \<open>Lemmas\<close>

definition srv_ok :: "tcp_server \<Rightarrow> bool" where
  "srv_ok srv \<longleftrightarrow> (\<forall>i \<in> set (ts_socks srv). i < length (ts_heap srv))"

lemma CreateTCP_simps [simp]:
  "sk_fd (CreateTCP a) = - 1" "\<not> sk_connected (CreateTCP a)" "sk_family (CreateTCP a) = getFamily a"
  by (simp_all add: CreateTCP_def new_Socket_def)

lemma sock_inv_new: "sock_inv ss w \<Longrightarrow> sock_inv (ss @ [CreateTCP a]) w"
  by (simp add: sock_inv_def)

lemma sock_inv_closed: "sk_fd s = - 1 \<Longrightarrow> sock_inv (ss @ [s]) w \<Longrightarrow> sock_inv ss w"
  by (simp add: sock_inv_def)

text \<open>A round gives a listening socket, or fails and closes what it opened.\<close>

lemma tcp_bind_one_inv:
  assumes "sock_inv ss w" "fresh_kernel k" "tcp_bind_one True iom k addr w = Inr (r, w')"
  shows "case r of Some s \<Rightarrow> sock_inv (ss @ [s]) w' \<and> sk_fd s \<noteq> - 1 \<and> sk_family s = getFamily addr \<and> \<not> sk_connected s
    | None \<Rightarrow> sock_inv ss w'"
proof -
  obtain ok s w1 where b: "sock_bind True k addr (CreateTCP addr) w = Inr (ok, s, w1)"
    and r: "r = Some s \<and> w' = w1 \<and> ok \<or> r = None \<and> (\<exists>s'. sock_close True iom s w1 = Inr (s', w'))"
    using assms(3) by (auto simp: tcp_bind_one_def split: if_splits)
  have new: "sock_inv (ss @ [CreateTCP addr]) w" using sock_inv_new [OF assms(1)] .
  have inv: "sock_inv (ss @ [s]) w1" using bind_op.keeps_inv [OF assms(2) new b] by simp
  have "owner_ok (CreateTCP addr) w" using sock_inv_owner [OF new] by simp
  then have fd: "ok \<longrightarrow> sk_fd s \<noteq> - 1" using sock_bind_moves [OF assms(2) _ b] by blast
  from r show ?thesis
  proof (elim disjE conjE exE)
    fix s'
    assume "r = None" "sock_close True iom s w1 = Inr (s', w')"
    then show ?thesis using sock_inv_close(2) [of ss s "[]" w1 iom s' w'] inv by simp
  next
    assume "r = Some s" "w' = w1" "ok"
    then show ?thesis using inv fd by (simp add: sock_bind_same(1,2) [OF b])
  qed
qed

text \<open>Whether a round succeeds is up to the kernel: it grants the calls and has a descriptor left.\<close>

definition grants :: "kernel \<Rightarrow> bool" where
  "grants k \<longleftrightarrow> kn_bind k \<and> kn_listen k"

lemma tcp_bind_one_granted:
  assumes "sock_inv ss w" "fresh_kernel k" "tcp_bind_one True iom k addr w = Inr (r, w')"
  shows "(r \<noteq> None) = (grants k \<and> kn_socket k (hk_os (nw_hook w)) \<noteq> None)"
proof -
  obtain ok s w1 where b: "sock_bind True k addr (CreateTCP addr) w = Inr (ok, s, w1)"
    using assms(3) by (auto simp: tcp_bind_one_def)
  have ow: "owner_ok (CreateTCP addr) w" using sock_inv_owner [OF sock_inv_new [OF assms(1)], of _ addr] by simp
  have nv: "isVaild (CreateTCP addr) w = Inr False" by (simp add: isVaild_def)
  show ?thesis
  proof (cases "kn_socket k (hk_os (nw_hook w))")
    case None
    then have "newSocket True k (CreateTCP addr) w = Inr (CreateTCP addr, w)"
      by (simp add: newSocket_def hook_socket_def CreateTCP_def new_Socket_def)
    then have "\<not> ok" using b nv by (auto simp: sock_bind_def sock_ready_def)
    then show ?thesis using None assms(3) b by (auto simp: tcp_bind_one_def)
  next
    case (Some p)
    obtain fd flags where p: "kn_socket k (hk_os (nw_hook w)) = Some (fd, flags)" using Some by (cases p) simp
    then obtain h where "hook_socket True (Some (fd, flags)) (nw_hook w) = Inr h"
      using b nv by (auto simp: sock_bind_def sock_ready_def newSocket_def)
    then have rng: "0 \<le> fd" "fd < 64"
      using assms(1) hook_register_range [of fd "(nw_hook w)\<lparr>hk_os := os_open fd flags (hk_os (nw_hook w))\<rparr>"]
      by (auto simp: hook_socket_def Let_def sock_inv_def hook_inv_length)
    have ok: "ok = kn_bind k" "sk_fd s = fd"
      using sock_bind_opens [OF ow _ assms(2) p rng, of addr] b by auto
    have "isVaild s w1 = Inr True"
      using sock_bind_moves [OF assms(2) ow b] ok(2) rng by (auto dest!: sock_moves_owner simp: isVaild_owner)
    then show ?thesis using assms(3) b ok(1) p
      by (auto simp: tcp_bind_one_def grants_def sock_listen_def split: if_splits)
  qed
qed

text \<open>The loop appends a listening socket for every address that succeeds and collects the others.\<close>

lemma tcp_bind_loop_outcome:
  assumes "sock_inv (others @ ts_heap srv) w" "\<forall>(a, k) \<in> set addrs. fresh_kernel k"
    "tcp_bind_loop True iom addrs fail srv w = Inr (fail', srv', w')"
  shows "\<exists>new ext. sock_inv (others @ ts_heap srv') w' \<and> fail' = fail @ ext \<and>
    srv' = srv\<lparr>ts_heap := ts_heap srv @ new,
      ts_socks := ts_socks srv @ [length (ts_heap srv)..<length (ts_heap srv) + length new]\<rparr> \<and>
    (\<forall>s \<in> set new. sk_fd s \<noteq> - 1) \<and> (ext = [] \<longrightarrow> map sk_family new = map (\<lambda>(a, k). getFamily a) addrs) \<and>
    (\<forall>(a, k) \<in> set addrs. \<not> grants k \<longrightarrow> a \<in> set ext) \<and> set ext \<subseteq> fst ` set addrs"
  using assms
proof (induction addrs arbitrary: fail srv w)
  case Nil
  then show ?case by (auto intro!: exI [of _ "[]"])
next
  case (Cons ak addrs)
  obtain addr k where ak: "ak = (addr, k)" by (cases ak)
  then obtain r w1 where 1: "tcp_bind_one True iom k addr w = Inr (r, w1)"
    using Cons.prems(3) by auto
  have k: "fresh_kernel k" using Cons.prems(2) ak by auto
  note granted = tcp_bind_one_granted [OF Cons.prems(1) k 1]
  note inv = tcp_bind_one_inv [OF Cons.prems(1) k 1]
  show ?case
  proof (cases r)
    case None
    then have "tcp_bind_loop True iom addrs (fail @ [addr]) srv w1 = Inr (fail', srv', w')"
      using Cons.prems(3) 1 ak by simp
    from Cons.IH [OF _ _ this] obtain new ext where new: "sock_inv (others @ ts_heap srv') w'" "fail' = (fail @ [addr]) @ ext"
      "srv' = srv\<lparr>ts_heap := ts_heap srv @ new,
        ts_socks := ts_socks srv @ [length (ts_heap srv)..<length (ts_heap srv) + length new]\<rparr>"
      "\<forall>s \<in> set new. sk_fd s \<noteq> - 1" "\<forall>(a, k) \<in> set addrs. \<not> grants k \<longrightarrow> a \<in> set ext"
      "set ext \<subseteq> fst ` set addrs"
      using inv None Cons.prems(2) by auto
    then show ?thesis using ak by (intro exI [of _ new] exI [of _ "addr # ext"] conjI) auto
  next
    case (Some s)
    then have "tcp_bind_loop True iom addrs fail (push_sock s srv) w1 = Inr (fail', srv', w')"
      using Cons.prems(3) 1 ak by simp
    from Cons.IH [OF _ _ this] obtain new ext where new: "sock_inv (others @ ts_heap srv') w'" "fail' = fail @ ext"
      "srv' = (push_sock s srv)\<lparr>ts_heap := ts_heap (push_sock s srv) @ new,
        ts_socks := ts_socks (push_sock s srv) @ [length (ts_heap (push_sock s srv))..<length (ts_heap (push_sock s srv)) + length new]\<rparr>"
      "\<forall>s \<in> set new. sk_fd s \<noteq> - 1" "ext = [] \<longrightarrow> map sk_family new = map (\<lambda>(a, k). getFamily a) addrs"
      "\<forall>(a, k) \<in> set addrs. \<not> grants k \<longrightarrow> a \<in> set ext" "set ext \<subseteq> fst ` set addrs"
      using inv Some Cons.prems(2) by (auto simp: push_sock_def)
    have "srv' = srv\<lparr>ts_heap := ts_heap srv @ s # new,
        ts_socks := ts_socks srv @ [length (ts_heap srv)..<length (ts_heap srv) + length (s # new)]\<rparr>"
      using new(3) by (simp add: push_sock_def upt_conv_Cons del: upt_Suc)
    then show ?thesis
      using inv granted Some ak new by (intro exI [of _ "s # new"] exI [of _ ext] conjI) auto
  qed
qed

lemma close_at_inv:
  assumes "sock_inv (others @ ts_heap srv) w" "i < length (ts_heap srv)"
  shows "\<exists>s w'. close_at True iom i srv w = Inr (srv\<lparr>ts_heap := (ts_heap srv)[i := s]\<rparr>, w') \<and>
    sock_inv (others @ (ts_heap srv)[i := s]) w' \<and> sk_fd s = - 1 \<and> \<not> sk_connected s"
proof -
  let ?xs = "others @ take i (ts_heap srv)" and ?ys = "drop (Suc i) (ts_heap srv)"
  have inv: "sock_inv (?xs @ ts_heap srv ! i # ?ys) w" using assms by (simp add: id_take_nth_drop [symmetric])
  then have "owner_ok (ts_heap srv ! i) w" by (rule sock_inv_owner) simp
  from sock_close_moves [OF this, of iom] obtain s w' where c: "sock_close True iom (ts_heap srv ! i) w = Inr (s, w')"
    "sk_fd s = - 1" "\<not> sk_connected s" by auto
  then show ?thesis
    using sock_inv_close(1) [OF inv c(1)] assms(2) by (auto simp: close_at_def upd_conv_take_nth_drop)
qed

text \<open>Clearing the list of sockets closes those without an accept task and nothing else.\<close>

lemma tcp_release_outcome:
  assumes "sock_inv (others @ ts_heap srv) w" "\<forall>i \<in> set is. i < length (ts_heap srv)"
  shows "\<exists>heap w'. tcp_release True iom is srv w = Inr (srv\<lparr>ts_heap := heap\<rparr>, w') \<and> sock_inv (others @ heap) w' \<and>
    length heap = length (ts_heap srv) \<and>
    (\<forall>i < length heap. if i \<in> set is \<and> AcceptTask i \<notin> set (ts_tasks srv) then sk_fd (heap ! i) = - 1
       else heap ! i = ts_heap srv ! i)"
  using assms
proof (induction "is" arbitrary: srv w)
  case Nil
  then show ?case by (auto intro!: exI [of _ "ts_heap srv"])
next
  case (Cons i "is")
  show ?case
  proof (cases "AcceptTask i \<in> set (ts_tasks srv)")
    case True
    from Cons.IH [OF Cons.prems(1)] Cons.prems(2) obtain heap w' where
      h: "tcp_release True iom is srv w = Inr (srv\<lparr>ts_heap := heap\<rparr>, w')" "sock_inv (others @ heap) w'"
      "length heap = length (ts_heap srv)"
      "\<forall>j < length heap. if j \<in> set is \<and> AcceptTask j \<notin> set (ts_tasks srv) then sk_fd (heap ! j) = - 1
         else heap ! j = ts_heap srv ! j" by auto
    have "if j \<in> set (i # is) \<and> AcceptTask j \<notin> set (ts_tasks srv) then sk_fd (heap ! j) = - 1 else heap ! j = ts_heap srv ! j"
      if "j < length heap" for j
      using h(4) that True by (cases "j = i") (auto split: if_splits)
    then show ?thesis using h True by (intro exI [of _ heap] exI [of _ w']) simp
  next
    case False
    obtain s w1 where c: "close_at True iom i srv w = Inr (srv\<lparr>ts_heap := (ts_heap srv)[i := s]\<rparr>, w1)"
      "sock_inv (others @ (ts_heap srv)[i := s]) w1" "sk_fd s = - 1"
      using close_at_inv [OF Cons.prems(1), of i iom] Cons.prems(2) by auto
    from Cons.IH [of "srv\<lparr>ts_heap := (ts_heap srv)[i := s]\<rparr>" w1] obtain heap w' where
      h: "tcp_release True iom is (srv\<lparr>ts_heap := (ts_heap srv)[i := s]\<rparr>) w1 = Inr (srv\<lparr>ts_heap := heap\<rparr>, w')"
      "sock_inv (others @ heap) w'" "length heap = length (ts_heap srv)"
      "\<forall>j < length heap. if j \<in> set is \<and> AcceptTask j \<notin> set (ts_tasks srv) then sk_fd (heap ! j) = - 1
         else heap ! j = (ts_heap srv)[i := s] ! j"
      using c Cons.prems by auto
    have "if j \<in> set (i # is) \<and> AcceptTask j \<notin> set (ts_tasks srv) then sk_fd (heap ! j) = - 1 else heap ! j = ts_heap srv ! j"
      if "j < length heap" for j
      using h(3,4) that False c(3) Cons.prems(2) by (cases "j = i") (auto split: if_splits)
    then show ?thesis using h c(1) False by (intro exI [of _ heap] exI [of _ w']) (simp del: bindE_eq_Inr)
  qed
qed

text \<open>
  C18. Binding a list of addresses before the server is started. Every address that the kernel refuses is
  reported. If no address is reported, the server
  listens on one socket per address, in order. Otherwise every descriptor of the server, also of
  earlier calls, is closed and its list is empty. The sockets of the rest of the program are
  untouched.
\<close>

theorem tcp_bind_outcome:
  assumes "sock_inv (others @ ts_heap srv) w" "srv_ok srv" "\<forall>i. AcceptTask i \<notin> set (ts_tasks srv)"
    "\<forall>(a, k) \<in> set addrs. fresh_kernel k" "tcp_bind True iom addrs [] srv w = Inr (ok, fail, srv', w')"
  shows "sock_inv (others @ ts_heap srv') w' \<and> ok = (fail = []) \<and>
    (\<forall>(a, k) \<in> set addrs. \<not> grants k \<longrightarrow> a \<in> set fail) \<and> set fail \<subseteq> fst ` set addrs \<and>
    (if ok then
       (\<exists>new. ts_heap srv' = ts_heap srv @ new \<and> (\<forall>s \<in> set new. sk_fd s \<noteq> - 1) \<and>
          map sk_family new = map (\<lambda>(a, k). getFamily a) addrs \<and>
          ts_socks srv' = ts_socks srv @ [length (ts_heap srv)..<length (ts_heap srv) + length addrs])
     else ts_socks srv' = [] \<and> (\<forall>i \<in> set (ts_socks srv) \<union> {length (ts_heap srv)..<length (ts_heap srv')}.
       sk_fd (ts_heap srv' ! i) = - 1))"
proof -
  obtain srv1 w1 where l: "tcp_bind_loop True iom addrs [] srv w = Inr (fail, srv1, w1)"
    and e: "ok = (fail = [])" "if ok then srv' = srv1 \<and> w' = w1
      else \<exists>s. tcp_release True iom (ts_socks srv1) srv1 w1 = Inr (s, w') \<and> srv' = s\<lparr>ts_socks := []\<rparr>"
    using assms(5) by (auto simp: tcp_bind_def split: if_splits)
  from tcp_bind_loop_outcome [OF assms(1,4) l] obtain new where new: "sock_inv (others @ ts_heap srv1) w1"
    "srv1 = srv\<lparr>ts_heap := ts_heap srv @ new,
      ts_socks := ts_socks srv @ [length (ts_heap srv)..<length (ts_heap srv) + length new]\<rparr>"
    "\<forall>s \<in> set new. sk_fd s \<noteq> - 1" "fail = [] \<longrightarrow> map sk_family new = map (\<lambda>(a, k). getFamily a) addrs"
    and fail: "\<forall>(a, k) \<in> set addrs. \<not> grants k \<longrightarrow> a \<in> set fail" "set fail \<subseteq> fst ` set addrs"
    by auto
  show ?thesis
  proof (cases ok)
    case True
    then have fam: "map sk_family new = map (\<lambda>(a, k). getFamily a) addrs" using e(1) new(4) by simp
    then have "length new = length addrs" by (metis length_map)
    then show ?thesis using True e new(1-3) fail fam by auto
  next
    case False
    have "\<forall>i \<in> set (ts_socks srv1). i < length (ts_heap srv1)" using assms(2) new(2) by (auto simp: srv_ok_def)
    from tcp_release_outcome [OF new(1) this, of iom] obtain heap w2 where
      r: "tcp_release True iom (ts_socks srv1) srv1 w1 = Inr (srv1\<lparr>ts_heap := heap\<rparr>, w2)" "sock_inv (others @ heap) w2"
      "length heap = length (ts_heap srv1)" "\<forall>i < length heap. i \<in> set (ts_socks srv1) \<longrightarrow> sk_fd (heap ! i) = - 1"
      using assms(3) new(2) by (auto split: if_splits)
    then have "srv' = srv1\<lparr>ts_heap := heap, ts_socks := []\<rparr>" "w' = w2" using False e(2) by auto
    then show ?thesis using False e(1) new(2) fail r assms(2) by (auto simp: srv_ok_def)
  qed
qed

text \<open>
  With enough free descriptors below 64 and a kernel that uses them and grants every call, binding
  succeeds.
\<close>

definition low_fds :: "os \<Rightarrow> int set" where
  "low_fds os = {fd. 0 \<le> fd \<and> fd < 64 \<and> os_stat os fd = None}"

definition willing :: "kernel \<Rightarrow> bool" where
  "willing k \<longleftrightarrow> grants k \<and> (\<forall>os. low_fds os \<noteq> {} \<longrightarrow> (\<exists>fd flags. kn_socket k os = Some (fd, flags) \<and> fd \<in> low_fds os))"

lemma finite_low_fds: "finite (low_fds os)"
  by (rule finite_subset [of _ "{0..<64}"]) (auto simp: low_fds_def)

lemma tcp_bind_one_willing:
  assumes "sock_inv ss w" "fresh_kernel k" "willing k" "low_fds (hk_os (nw_hook w)) \<noteq> {}"
  shows "\<exists>s w'. tcp_bind_one True iom k addr w = Inr (Some s, w') \<and>
    card (low_fds (hk_os (nw_hook w))) = Suc (card (low_fds (hk_os (nw_hook w'))))"
proof -
  obtain fd flags where fd: "kn_socket k (hk_os (nw_hook w)) = Some (fd, flags)" "fd \<in> low_fds (hk_os (nw_hook w))"
    using assms(3,4) unfolding willing_def by blast
  then have rng: "0 \<le> fd" "fd < 64" by (auto simp: low_fds_def)
  have ow: "owner_ok (CreateTCP addr) w" using sock_inv_owner [OF sock_inv_new [OF assms(1)], of _ addr] by simp
  obtain s w' where b: "sock_bind True k addr (CreateTCP addr) w = Inr (kn_bind k, s, w')" "sk_fd s = fd"
    "os_stat (hk_os (nw_hook w')) = (os_stat (hk_os (nw_hook w)))(fd \<mapsto> True)"
    using sock_bind_opens [OF ow _ assms(2) fd(1) rng, of addr] by auto
  have "isVaild s w' = Inr True"
    using sock_bind_moves [OF assms(2) ow b(1)] b(2) rng by (auto dest!: sock_moves_owner simp: isVaild_owner)
  then have "tcp_bind_one True iom k addr w = Inr (Some s, w')"
    using b(1) assms(3) by (simp add: tcp_bind_one_def sock_listen_def willing_def grants_def del: bindE_eq_Inr)
  moreover have "low_fds (hk_os (nw_hook w')) = low_fds (hk_os (nw_hook w)) - {fd}"
    using b(3) by (auto simp: low_fds_def)
  ultimately show ?thesis using card_Suc_Diff1 [OF finite_low_fds fd(2)] by simp
qed

lemma tcp_bind_loop_willing:
  assumes "sock_inv (others @ ts_heap srv) w" "\<forall>(a, k) \<in> set addrs. fresh_kernel k \<and> willing k"
    "length addrs \<le> card (low_fds (hk_os (nw_hook w)))"
  shows "\<exists>srv' w'. tcp_bind_loop True iom addrs fail srv w = Inr (fail, srv', w')"
  using assms
proof (induction addrs arbitrary: srv w)
  case (Cons ak addrs)
  obtain addr k where ak: "ak = (addr, k)" "fresh_kernel k" "willing k" using Cons.prems(2) by (cases ak) auto
  have "low_fds (hk_os (nw_hook w)) \<noteq> {}" using Cons.prems(3) by auto
  from tcp_bind_one_willing [OF Cons.prems(1) ak(2,3) this, of iom addr] obtain s w1 where
    1: "tcp_bind_one True iom k addr w = Inr (Some s, w1)"
    "card (low_fds (hk_os (nw_hook w))) = Suc (card (low_fds (hk_os (nw_hook w1))))" by blast
  have "sock_inv (others @ ts_heap (push_sock s srv)) w1"
    using tcp_bind_one_inv [OF Cons.prems(1) ak(2) 1(1)] by (simp add: push_sock_def)
  from Cons.IH [OF this] show ?case using Cons.prems(2,3) ak(1) 1 by (simp del: bindE_eq_Inr)
qed simp

theorem tcp_bind_succeeds:
  assumes "sock_inv (others @ ts_heap srv) w" "\<forall>(a, k) \<in> set addrs. fresh_kernel k \<and> willing k"
    "length addrs \<le> card (low_fds (hk_os (nw_hook w)))"
  shows "\<exists>srv' w'. tcp_bind True iom addrs [] srv w = Inr (True, [], srv', w')"
  using tcp_bind_loop_willing [OF assms, of iom "[]"] by (auto simp: tcp_bind_def simp del: bindE_eq_Inr)

section \<open>Stopping\<close>

lemma close_loop_outcome:
  assumes "sock_inv (others @ ts_heap srv) w" "close_loop True valid is srv w m = Inr (srv', w', m')"
  shows "\<exists>heap. srv' = srv\<lparr>ts_heap := heap\<rparr> \<and> sock_inv (others @ heap) w' \<and> length heap = length (ts_heap srv) \<and>
    (\<forall>i < length heap. if i \<in> set is then sk_fd (heap ! i) = - 1 \<and> \<not> sk_connected (heap ! i) else heap ! i = ts_heap srv ! i)"
  using assms
proof (induction "is" arbitrary: srv w m)
  case Nil
  then show ?case by (auto intro!: exI [of _ "ts_heap srv"])
next
  case (Cons i "is")
  then have i: "i < length (ts_heap srv)" by (auto split: if_splits)
  obtain s w1 where c: "close_at True True i srv w = Inr (srv\<lparr>ts_heap := (ts_heap srv)[i := s]\<rparr>, w1)"
    "sock_inv (others @ (ts_heap srv)[i := s]) w1" "sk_fd s = - 1" "\<not> sk_connected s"
    using close_at_inv [OF Cons.prems(1) i, of True] by auto
  obtain m1 where l: "close_loop True valid is (srv\<lparr>ts_heap := (ts_heap srv)[i := s]\<rparr>) w1 m1 = Inr (srv', w', m')"
    using Cons.prems(2) i c(1) by auto
  from Cons.IH [OF _ l] obtain heap where h: "srv' = srv\<lparr>ts_heap := heap\<rparr>" "sock_inv (others @ heap) w'"
    "length heap = length (ts_heap srv)"
    "\<forall>j < length heap. if j \<in> set is then sk_fd (heap ! j) = - 1 \<and> \<not> sk_connected (heap ! j) else heap ! j = (ts_heap srv)[i := s] ! j"
    using c(2) by auto
  have "if j \<in> set (i # is) then sk_fd (heap ! j) = - 1 \<and> \<not> sk_connected (heap ! j) else heap ! j = ts_heap srv ! j"
    if "j < length heap" for j
    using h(3,4) that i c(3,4) by (cases "j = i") (auto split: if_splits)
  then show ?case using h by blast
qed

text \<open>
  After \<open>stop\<close> and the task it submits, every socket the server listened on is closed, the list is
  empty, no other socket of the program is touched, and an accept loop that runs again ends.
\<close>

theorem stop_closes:
  assumes "sock_inv (others @ ts_heap srv) w" "\<not> ts_stop srv" "close_task True valid (snd (tcp_stop srv)) w m = Inr (srv', w', m')"
  shows "sock_inv (others @ ts_heap srv') w' \<and> ts_socks srv' = [] \<and> ts_stop srv' \<and>
    (\<forall>i < length (ts_heap srv). if i \<in> set (ts_socks srv) then sk_fd (ts_heap srv' ! i) = - 1 else ts_heap srv' ! i = ts_heap srv ! i) \<and>
    (\<forall>k rs ws i. AcceptTask i \<in> set (ts_tasks srv') \<longrightarrow> i < length (ts_heap srv') \<longrightarrow>
       (\<exists>srv'' w''. accept_round True iom k rs ws i srv' w' = Inr (False, srv'', w'')))"
proof -
  let ?s = "srv\<lparr>ts_stop := True, ts_tasks := ts_tasks srv @ [CloseTask]\<rparr>"
  obtain srv1 m1 where l: "close_loop True valid (ts_socks srv) ?s w m = Inr (srv1, w', m1)"
    and s': "srv' = srv1\<lparr>ts_socks := [], ts_tasks := remove1 CloseTask (ts_tasks srv1)\<rparr>"
    using assms(2,3) by (auto simp: close_task_def tcp_stop_def)
  from close_loop_outcome [OF _ l, of others] assms(1) obtain heap where h: "srv1 = ?s\<lparr>ts_heap := heap\<rparr>"
    "sock_inv (others @ heap) w'" "length heap = length (ts_heap srv)"
    "\<forall>i < length heap. if i \<in> set (ts_socks srv) then sk_fd (heap ! i) = - 1 \<and> \<not> sk_connected (heap ! i) else heap ! i = ts_heap srv ! i"
    by auto
  have "\<exists>srv'' w''. accept_round True iom k rs ws i srv' w' = Inr (False, srv'', w'')" if "i < length heap" for i k rs ws
  proof -
    let ?t = "srv'\<lparr>ts_tasks := remove1 (AcceptTask i) (ts_tasks srv')\<rparr>"
    have "\<exists>srv'' w''. tcp_release True iom [i] ?t w' = Inr (srv'', w'')"
      using close_at_inv [of others ?t w' i iom] h that s' by (auto simp del: bindE_eq_Inr)
    then show ?thesis using s' h(1) by (auto simp: accept_round_def simp del: tcp_release.simps bindE_eq_Inr)
  qed
  then show ?thesis using h s' by auto
qed

text \<open>
  A server that is started again before the task of \<open>stop\<close> has run submits accept loops for sockets which
  that task then closes: the loops run, and their first accept indexes the descriptor contexts with
  \<open>-1\<close>.
\<close>

theorem restart_accepts_closed:
  assumes "sock_inv (others @ ts_heap srv) w" "srv_ok srv" "\<not> ts_stop srv" "i \<in> set (ts_socks srv)"
    "close_task True valid (snd (tcp_start (snd (tcp_stop srv)))) w m = Inr (srv', w', m')"
  shows "AcceptTask i \<in> set (ts_tasks srv') \<and> \<not> ts_stop srv' \<and> accept_round True iom k rs ws i srv' w' = Inl OutOfBounds"
proof -
  let ?s = "srv\<lparr>ts_stop := False, ts_tasks := ts_tasks srv @ [CloseTask] @ map AcceptTask (ts_socks srv)\<rparr>"
  obtain srv1 m1 where l: "close_loop True valid (ts_socks srv) ?s w m = Inr (srv1, w', m1)"
    and s': "srv' = srv1\<lparr>ts_socks := [], ts_tasks := remove1 CloseTask (ts_tasks srv1)\<rparr>"
    using assms(3,5) by (auto simp: close_task_def tcp_stop_def tcp_start_def)
  from close_loop_outcome [OF _ l, of others] assms(1) obtain heap where h: "srv1 = ?s\<lparr>ts_heap := heap\<rparr>"
    "length heap = length (ts_heap srv)" "\<forall>i < length heap. i \<in> set (ts_socks srv) \<longrightarrow> sk_fd (heap ! i) = - 1"
    "sock_inv (others @ heap) w'"
    by (auto split: if_splits)
  have i: "i < length heap" using h(2) assms(2,4) by (simp add: srv_ok_def)
  have "AcceptTask i \<in> set (ts_tasks srv')" using s' h(1) assms(4) by (auto intro!: in_set_remove1 [THEN iffD2])
  moreover have "sock_accept True k rs ws (heap ! i) w' = Inl OutOfBounds"
    using i h(3,4) assms(4) by (simp add: sock_accept_def hook_accept_def do_io_def getFdContext_def sock_inv_def hook_inv_length)
  ultimately show ?thesis using s' h(1) i by (simp add: accept_round_def)
qed

section \<open>Executions\<close>

text \<open>The calls and tasks of a server, interleaved in any order.\<close>

inductive tcp_reach :: "tcp_server \<Rightarrow> net_world \<Rightarrow> bool" where
  tcp_init: "tcp_reach new_TCPServer \<lparr>nw_hook = \<lparr>hk_os = os, hk_fds = new_FdManager\<rparr>, nw_opts = opts\<rparr>"
| tcp_bind_step: "tcp_reach srv w \<Longrightarrow> \<forall>(a, k) \<in> set addrs. fresh_kernel k \<Longrightarrow>
    tcp_bind True iom addrs fail srv w = Inr (ok, fail', srv', w') \<Longrightarrow> tcp_reach srv' w'"
| tcp_start_step: "tcp_reach srv w \<Longrightarrow> tcp_reach (snd (tcp_start srv)) w"
| tcp_stop_step: "tcp_reach srv w \<Longrightarrow> tcp_reach (snd (tcp_stop srv)) w"
| tcp_accept_step: "tcp_reach srv w \<Longrightarrow> AcceptTask i \<in> set (ts_tasks srv) \<Longrightarrow>
    \<forall>n. IoRet n \<in> set rs \<longrightarrow> os_stat (hk_os (nw_hook w)) n = None \<Longrightarrow>
    accept_round True iom k rs ws i srv w = Inr (b, srv', w') \<Longrightarrow> tcp_reach srv' w'"
| tcp_handle_step: "tcp_reach srv w \<Longrightarrow> HandleTask i \<in> set (ts_tasks srv) \<Longrightarrow>
    tcp_handleClient True iom i srv w = Inr (srv', w') \<Longrightarrow> tcp_reach srv' w'"
| tcp_close_step: "tcp_reach srv w \<Longrightarrow> CloseTask \<in> set (ts_tasks srv) \<Longrightarrow>
    close_task True valid srv w m = Inr (srv', w', m') \<Longrightarrow> tcp_reach srv' w'"

text \<open>The pointers that keep an object alive.\<close>

definition held :: "tcp_server \<Rightarrow> nat set" where
  "held srv = set (ts_socks srv) \<union> {i. AcceptTask i \<in> set (ts_tasks srv)} \<union> {i. HandleTask i \<in> set (ts_tasks srv)}"

definition tcp_inv :: "tcp_server \<Rightarrow> net_world \<Rightarrow> bool" where
  "tcp_inv srv w \<longleftrightarrow> sock_inv (ts_heap srv) w \<and> held srv \<subseteq> {..<length (ts_heap srv)} \<and>
     (\<forall>i < length (ts_heap srv). sk_fd (ts_heap srv ! i) \<noteq> - 1 \<longrightarrow> i \<in> held srv)"

lemma tcp_inv_bind:
  assumes "tcp_inv srv w" "\<forall>(a, k) \<in> set addrs. fresh_kernel k"
    "tcp_bind True iom addrs fail srv w = Inr (ok, fail', srv', w')"
  shows "tcp_inv srv' w'"
proof -
  obtain srv1 w1 where l: "tcp_bind_loop True iom addrs fail srv w = Inr (fail', srv1, w1)"
    and e: "srv' = srv1 \<and> w' = w1 \<or> (\<exists>s. tcp_release True iom (ts_socks srv1) srv1 w1 = Inr (s, w') \<and> srv' = s\<lparr>ts_socks := []\<rparr>)"
    using assms(3) by (auto simp: tcp_bind_def split: if_splits)
  from tcp_bind_loop_outcome [OF _ assms(2) l, of "[]"] assms(1) obtain new where new: "sock_inv (ts_heap srv1) w1"
    "srv1 = srv\<lparr>ts_heap := ts_heap srv @ new,
      ts_socks := ts_socks srv @ [length (ts_heap srv)..<length (ts_heap srv) + length new]\<rparr>"
    by (auto simp: tcp_inv_def)
  have inv1: "tcp_inv srv1 w1"
    using assms(1) new by (auto simp: tcp_inv_def held_def nth_append)
  from e show ?thesis
  proof (elim disjE exE conjE)
    fix s
    assume r: "tcp_release True iom (ts_socks srv1) srv1 w1 = Inr (s, w')" and s: "srv' = s\<lparr>ts_socks := []\<rparr>"
    have "\<forall>i \<in> set (ts_socks srv1). i < length (ts_heap srv1)" using inv1 by (auto simp: tcp_inv_def held_def)
    from tcp_release_outcome [of "[]", OF _ this, of w1 iom] new(1) r obtain heap where
      h: "s = srv1\<lparr>ts_heap := heap\<rparr>" "sock_inv heap w'" "length heap = length (ts_heap srv1)"
      "\<forall>i < length heap. if i \<in> set (ts_socks srv1) \<and> AcceptTask i \<notin> set (ts_tasks srv1) then sk_fd (heap ! i) = - 1
         else heap ! i = ts_heap srv1 ! i" by auto
    have "i \<in> held srv'" if i: "i < length heap" "sk_fd (heap ! i) \<noteq> - 1" for i
    proof -
      have "AcceptTask i \<in> set (ts_tasks srv1) \<or> i \<notin> set (ts_socks srv1)" "heap ! i = ts_heap srv1 ! i"
        using h(4) [rule_format, OF i(1)] i(2) by (auto split: if_splits)
      then show ?thesis using i h(1,3) s inv1 by (auto simp: tcp_inv_def held_def)
    qed
    then show ?thesis using h s inv1 by (auto simp: tcp_inv_def held_def)
  qed (use inv1 in simp)
qed

text \<open>Closing one object whose other references are gone.\<close>

lemma tcp_inv_close_at:
  assumes "sock_inv (ts_heap srv) w" "i < length (ts_heap srv)" "held srv \<subseteq> {..<length (ts_heap srv)}"
    "\<forall>j < length (ts_heap srv). sk_fd (ts_heap srv ! j) \<noteq> - 1 \<longrightarrow> j \<in> insert i (held srv)"
    "close_at True iom i srv w = Inr (srv', w')"
  shows "tcp_inv srv' w'"
proof -
  from close_at_inv [of "[]", OF _ assms(2), of w iom] assms(1,5) obtain s where
    s: "srv' = srv\<lparr>ts_heap := (ts_heap srv)[i := s]\<rparr>" "sock_inv ((ts_heap srv)[i := s]) w'" "sk_fd s = - 1" by auto
  have "j \<in> held srv" if "j < length (ts_heap srv)" "sk_fd ((ts_heap srv)[i := s] ! j) \<noteq> - 1" for j
    using that s(3) assms(4) by (cases "j = i") auto
  then show ?thesis using s assms(3) by (auto simp: tcp_inv_def held_def)
qed

text \<open>Finishing a task drops its reference only.\<close>

lemma held_remove:
  "held (srv\<lparr>ts_tasks := remove1 (AcceptTask i) (ts_tasks srv)\<rparr>) \<subseteq> held srv"
  "held srv \<subseteq> insert i (held (srv\<lparr>ts_tasks := remove1 (AcceptTask i) (ts_tasks srv)\<rparr>))"
  "held (srv\<lparr>ts_tasks := remove1 (HandleTask i) (ts_tasks srv)\<rparr>) \<subseteq> held srv"
  "held srv \<subseteq> insert i (held (srv\<lparr>ts_tasks := remove1 (HandleTask i) (ts_tasks srv)\<rparr>))"
  using set_remove1_subset [of "AcceptTask i" "ts_tasks srv"] set_remove1_subset [of "HandleTask i" "ts_tasks srv"]
  by (auto simp: held_def)

lemma tcp_inv_accept:
  assumes "tcp_inv srv w" "AcceptTask i \<in> set (ts_tasks srv)"
    "\<forall>n. IoRet n \<in> set rs \<longrightarrow> os_stat (hk_os (nw_hook w)) n = None"
    "accept_round True iom k rs ws i srv w = Inr (b, srv', w')"
  shows "tcp_inv srv' w'"
proof -
  have inv: "sock_inv (ts_heap srv) w" and i: "i < length (ts_heap srv)"
    using assms(1,2) by (auto simp: tcp_inv_def held_def)
  show ?thesis
  proof (cases "ts_stop srv")
    case True
    let ?s = "srv\<lparr>ts_tasks := remove1 (AcceptTask i) (ts_tasks srv)\<rparr>"
    note held = held_remove(1,2) [where srv = srv and i = i]
    have "srv' = ?s \<and> w' = w \<and> i \<in> held ?s \<or> close_at True iom i ?s w = Inr (srv', w')"
      using assms(4) True by (auto simp: accept_round_def Let_def held_def split: if_splits)
    then show ?thesis
    proof (elim disjE conjE)
      assume "srv' = ?s" "w' = w" "i \<in> held ?s"
      then show ?thesis using held assms(1) by (auto simp: tcp_inv_def)
    qed (use tcp_inv_close_at [of ?s w i iom srv' w'] inv i held assms(1) in \<open>auto simp: tcp_inv_def\<close>)
  next
    case False
    then obtain out where a: "sock_accept True k rs ws (ts_heap srv ! i) w = Inr (out, w')"
      and s': "srv' = (case out of Accepted client \<Rightarrow> srv\<lparr>ts_heap := ts_heap srv @ [client],
          ts_tasks := ts_tasks srv @ [HandleTask (length (ts_heap srv))]\<rparr> | _ \<Rightarrow> srv)"
      using assms(4) i by (auto simp: accept_round_def)
    show ?thesis
    proof (cases out)
      case (Accepted client)
      then show ?thesis using sock_accept_inv [OF inv a assms(3)] s' assms(1)
        by (auto simp: tcp_inv_def held_def nth_append less_Suc_eq)
    qed (use sock_accept_inv [OF inv a assms(3)] s' assms(1) in \<open>auto simp: tcp_inv_def\<close>)
  qed
qed

lemma tcp_inv_close:
  assumes "tcp_inv srv w" "close_task True valid srv w m = Inr (srv', w', m')"
  shows "tcp_inv srv' w'"
proof -
  obtain srv1 where l: "close_loop True valid (ts_socks srv) srv w m = Inr (srv1, w', m')"
    and s': "srv' = srv1\<lparr>ts_socks := [], ts_tasks := remove1 CloseTask (ts_tasks srv1)\<rparr>"
    using assms(2) by (auto simp: close_task_def)
  from close_loop_outcome [of "[]", OF _ l] assms(1) obtain heap where h: "srv1 = srv\<lparr>ts_heap := heap\<rparr>"
    "sock_inv heap w'" "length heap = length (ts_heap srv)"
    "\<forall>i < length heap. if i \<in> set (ts_socks srv) then sk_fd (heap ! i) = - 1 \<and> \<not> sk_connected (heap ! i) else heap ! i = ts_heap srv ! i"
    by (auto simp: tcp_inv_def)
  have task: "t \<in> set (remove1 CloseTask (ts_tasks srv))" if "t \<in> set (ts_tasks srv)" "t \<noteq> CloseTask" for t
    using that by (simp add: in_set_remove1)
  have "i \<in> held srv'" if i: "i < length heap" "sk_fd (heap ! i) \<noteq> - 1" for i
  proof -
    have "i \<notin> set (ts_socks srv)" "heap ! i = ts_heap srv ! i"
      using h(4) [rule_format, OF i(1)] i(2) by (auto split: if_splits)
    then show ?thesis using i h(1,3) s' assms(1) task by (auto simp: tcp_inv_def held_def)
  qed
  moreover have "held srv' \<subseteq> held srv" using s' h(1) set_remove1_subset [of CloseTask "ts_tasks srv"] by (auto simp: held_def)
  ultimately show ?thesis using h s' assms(1) by (auto simp: tcp_inv_def)
qed

lemma tcp_inv_handle:
  assumes "tcp_inv srv w" "HandleTask i \<in> set (ts_tasks srv)" "tcp_handleClient True iom i srv w = Inr (srv', w')"
  shows "tcp_inv srv' w'"
proof -
  let ?s = "srv\<lparr>ts_tasks := remove1 (HandleTask i) (ts_tasks srv)\<rparr>"
  have i: "i < length (ts_heap srv)" using assms(1,2) by (auto simp: tcp_inv_def held_def)
  note held = held_remove(3,4) [where srv = srv and i = i]
  show ?thesis
    using held tcp_inv_close_at [of ?s w i iom srv' w'] i assms(1,3) by (auto simp: tcp_inv_def tcp_handleClient_def)
qed

lemma tcp_reach_inv: "tcp_reach srv w \<Longrightarrow> tcp_inv srv w"
proof (induction rule: tcp_reach.induct)
  case (tcp_init os opts)
  show ?case
    by (auto simp: tcp_inv_def held_def new_TCPServer_def sock_inv_def registered_def hook_inv_def new_FdManager_def)
next
  case (tcp_start_step srv w)
  then show ?case by (auto simp: tcp_inv_def held_def tcp_start_def)
next
  case (tcp_stop_step srv w)
  then show ?case by (auto simp: tcp_inv_def held_def tcp_stop_def)
qed (blast intro: tcp_inv_bind tcp_inv_accept tcp_inv_handle tcp_inv_close)+

text \<open>
  C19. However the calls of the server, its accept loops, client handlers and shutdown task interleave, the
  registered descriptors are exactly those of its open socket objects, no two of which share one, and each of
  these objects is still referred to by the server or one of its tasks: no descriptor leaks.
\<close>

theorem server_descriptors:
  assumes "tcp_reach srv w"
  shows "distinct (fds (ts_heap srv)) \<and> registered (nw_hook w) = set (fds (ts_heap srv)) \<and>
    (\<forall>fd \<in> registered (nw_hook w). \<exists>i \<in> held srv. i < length (ts_heap srv) \<and> sk_fd (ts_heap srv ! i) = fd)"
proof -
  note inv = tcp_reach_inv [OF assms]
  have "\<exists>i \<in> held srv. i < length (ts_heap srv) \<and> sk_fd (ts_heap srv ! i) = fd" if "fd \<in> set (fds (ts_heap srv))" for fd
    using that inv by (force simp: fds_def tcp_inv_def in_set_conv_nth)
  then show ?thesis using inv by (auto simp: tcp_inv_def sock_inv_def)
qed

section \<open>A server at work\<close>

lemma willing_granting_kernel: "willing granting_kernel"
proof -
  have "\<exists>fd. find (\<lambda>i. os_stat os i = None) [0..63] = Some fd \<and> fd \<in> low_fds os" if free: "low_fds os \<noteq> {}" for os
  proof -
    have "find (\<lambda>i. os_stat os i = None) [0..63] \<noteq> None"
      using free unfolding find_None_iff low_fds_def by fastforce
    then obtain fd where fd: "find (\<lambda>i. os_stat os i = None) [0..63] = Some fd" by blast
    then obtain n where "n < length [0..63]" "os_stat os ([0..63] ! n) = None" "fd = [0..63] ! n"
      by (auto simp: find_Some_iff)
    moreover from this have "fd \<in> set [0..63]" by (metis nth_mem)
    ultimately show ?thesis using fd by (auto simp: low_fds_def)
  qed
  then show ?thesis by (fastforce simp: willing_def grants_def granting_kernel_def)
qed

lemma empty_world_inv: "sock_inv [] empty_world"
  by (auto simp: sock_inv_def registered_def empty_world_def hook_inv_def new_FdManager_def)

lemma empty_world_free: "2 \<le> card (low_fds (hk_os (nw_hook empty_world)))"
proof -
  have "{3, 4} \<subseteq> low_fds (hk_os (nw_hook empty_world))" by (simp add: low_fds_def empty_world_def)
  from card_mono [OF finite_low_fds this] show ?thesis by simp
qed

text \<open>A server that has bound one address.\<close>

lemma bound_server:
  obtains srv s w where "tcp_bind True True [(loopback, granting_kernel)] [] new_TCPServer empty_world = Inr (True, [], srv, w)"
    "srv = \<lparr>ts_heap = [s], ts_socks = [0], ts_stop = True, ts_tasks = []\<rparr>" "sock_inv [s] w" "sk_fd s \<noteq> - 1"
proof -
  have k: "\<forall>(a, k) \<in> set [(loopback, granting_kernel)]. fresh_kernel k \<and> willing k"
    by (simp add: fresh_granting_kernel willing_granting_kernel)
  obtain srv w where l: "tcp_bind_loop True True [(loopback, granting_kernel)] [] new_TCPServer empty_world = Inr ([], srv, w)"
    using tcp_bind_loop_willing [of "[]" new_TCPServer empty_world "[(loopback, granting_kernel)]" True "[]"] k
      empty_world_inv empty_world_free by (auto simp: new_TCPServer_def)
  from tcp_bind_loop_outcome [of "[]", OF _ _ l] obtain new where new: "sock_inv (ts_heap srv) w"
    "srv = new_TCPServer\<lparr>ts_heap := new, ts_socks := [0..<length new]\<rparr>" "\<forall>s \<in> set new. sk_fd s \<noteq> - 1"
    "map sk_family new = [getFamily loopback]"
    using empty_world_inv fresh_granting_kernel by (auto simp: new_TCPServer_def)
  then obtain s where "new = [s]" by (cases new) auto
  then show ?thesis using that [of srv w s] l new by (auto simp: tcp_bind_def new_TCPServer_def)
qed

theorem tcp_bind_outcome_witness:
  "\<exists>srv w. tcp_bind True True [(loopback, granting_kernel)] [] new_TCPServer empty_world = Inr (True, [], srv, w) \<and>
     length (ts_heap srv) = 1 \<and> ts_socks srv = [0] \<and> sk_fd (ts_heap srv ! 0) \<noteq> - 1"
proof -
  obtain srv s w where b: "tcp_bind True True [(loopback, granting_kernel)] [] new_TCPServer empty_world = Inr (True, [], srv, w)"
    by (rule bound_server)
  have "sock_inv ([] @ ts_heap new_TCPServer) empty_world" using empty_world_inv by (simp add: new_TCPServer_def)
  from tcp_bind_outcome [OF this _ _ _ b] obtain new where "ts_heap srv = new" "\<forall>s \<in> set new. sk_fd s \<noteq> - 1"
    "map sk_family new = [getFamily loopback]" "ts_socks srv = [0]"
    using fresh_granting_kernel by (auto simp: new_TCPServer_def srv_ok_def)
  then show ?thesis using b by (cases new) auto
qed

theorem tcp_bind_succeeds_witness:
  "\<exists>srv w. tcp_bind True True [(loopback, granting_kernel), (loopback, granting_kernel)] [] new_TCPServer empty_world = Inr (True, [], srv, w)"
  using tcp_bind_succeeds [of "[]" new_TCPServer empty_world "[(loopback, granting_kernel), (loopback, granting_kernel)]" True]
    empty_world_inv empty_world_free fresh_granting_kernel willing_granting_kernel
  by (simp add: new_TCPServer_def)

text \<open>The IO manager knows no events of the listening descriptor.\<close>

lemma close_task_idle:
  assumes "sock_inv [s] w" "0 \<le> sk_fd s" "sk_fd s < 64"
  shows "\<exists>srv' w'. close_task True valid \<lparr>ts_heap = [s], ts_socks = [0], ts_stop = st, ts_tasks = ts\<rparr> w (new_IOManager 5) =
    Inr (srv', w', new_IOManager 5)"
proof -
  have "length (im_ctxs (new_IOManager 5)) = 64" "im_ctxs (new_IOManager 5) ! nat (sk_fd s) = new_ctx (nat (sk_fd s))"
    using assms by (simp_all add: new_IOManager_def contextResize_def)
  then have "cancelAllEvent valid (sk_fd s) (new_IOManager 5) = Inr (False, new_IOManager 5)"
    using assms by (simp add: cancelAllEvent_def known_ctx_def new_ctx_def)
  then show ?thesis
    using close_at_inv [of "[]" "\<lparr>ts_heap = [s], ts_socks = [0], ts_stop = st, ts_tasks = ts\<rparr>" w 0 True] assms
    by (auto simp: close_task_def cancelAll_def with_iom_def simp del: bindE_eq_Inr)
qed

text \<open>The bound server, running.\<close>

lemma running_server:
  obtains s w where "tcp_reach \<lparr>ts_heap = [s], ts_socks = [0], ts_stop = False, ts_tasks = [AcceptTask 0]\<rparr> w"
    "sock_inv [s] w" "0 \<le> sk_fd s" "sk_fd s < 64"
proof -
  obtain srv s w where b: "tcp_bind True True [(loopback, granting_kernel)] [] new_TCPServer empty_world = Inr (True, [], srv, w)"
    "srv = \<lparr>ts_heap = [s], ts_socks = [0], ts_stop = True, ts_tasks = []\<rparr>" "sock_inv [s] w" "sk_fd s \<noteq> - 1"
    by (rule bound_server)
  have "tcp_reach new_TCPServer empty_world" unfolding empty_world_def by (rule tcp_init)
  from tcp_bind_step [OF this _ b(1)] have "tcp_reach srv w" by (simp add: fresh_granting_kernel)
  from tcp_start_step [OF this] show ?thesis
    using that [of s w] b(2-4) by (auto simp: tcp_start_def sock_inv_def registered_def)
qed

theorem server_descriptors_witness:
  "\<exists>s w. tcp_reach \<lparr>ts_heap = [s], ts_socks = [0], ts_stop = False, ts_tasks = [AcceptTask 0]\<rparr> w \<and>
     registered (nw_hook w) = {sk_fd s}"
proof -
  obtain s w where r: "tcp_reach \<lparr>ts_heap = [s], ts_socks = [0], ts_stop = False, ts_tasks = [AcceptTask 0]\<rparr> w"
    "0 \<le> sk_fd s" by (rule running_server)
  have "registered (nw_hook w) = {sk_fd s}" using server_descriptors [OF r(1), THEN conjunct2, THEN conjunct1] r(2) by simp
  then show ?thesis using r(1) by blast
qed

theorem stop_closes_witness:
  "\<exists>s w srv w'. sk_fd s \<noteq> - 1 \<and>
     close_task True True (snd (tcp_stop \<lparr>ts_heap = [s], ts_socks = [0], ts_stop = False, ts_tasks = [AcceptTask 0]\<rparr>)) w (new_IOManager 5) =
       Inr (srv, w', new_IOManager 5) \<and> sk_fd (ts_heap srv ! 0) = - 1"
proof -
  obtain s w where r: "sock_inv [s] w" "0 \<le> sk_fd s" "sk_fd s < 64" by (rule running_server)
  let ?srv = "\<lparr>ts_heap = [s], ts_socks = [0], ts_stop = False, ts_tasks = [AcceptTask 0]\<rparr>"
  obtain srv w' where c: "close_task True True (snd (tcp_stop ?srv)) w (new_IOManager 5) = Inr (srv, w', new_IOManager 5)"
    using close_task_idle [OF r, of True True "[AcceptTask 0, CloseTask]"] by (auto simp: tcp_stop_def)
  have "sock_inv ([] @ ts_heap ?srv) w" using r(1) by simp
  from stop_closes [OF this _ c] have "sk_fd (ts_heap srv ! 0) = - 1" by simp
  then show ?thesis using c r(2) by (intro exI [of _ s] exI [of _ w] exI [of _ srv] exI [of _ w']) simp
qed

theorem restart_accepts_closed_witness:
  "\<exists>s w srv w'. close_task True True (snd (tcp_start (snd (tcp_stop
       \<lparr>ts_heap = [s], ts_socks = [0], ts_stop = False, ts_tasks = [AcceptTask 0]\<rparr>)))) w (new_IOManager 5) = Inr (srv, w', new_IOManager 5) \<and>
     accept_round True True granting_kernel [] [] 0 srv w' = Inl OutOfBounds"
proof -
  obtain s w where r: "sock_inv [s] w" "0 \<le> sk_fd s" "sk_fd s < 64" by (rule running_server)
  let ?srv = "\<lparr>ts_heap = [s], ts_socks = [0], ts_stop = False, ts_tasks = [AcceptTask 0]\<rparr>"
  obtain srv w' where c: "close_task True True (snd (tcp_start (snd (tcp_stop ?srv)))) w (new_IOManager 5) = Inr (srv, w', new_IOManager 5)"
    using close_task_idle [OF r, of True False "[AcceptTask 0, CloseTask, AcceptTask 0]"] by (auto simp: tcp_stop_def tcp_start_def)
  have "sock_inv ([] @ ts_heap ?srv) w" using r(1) by simp
  from restart_accepts_closed [OF this _ _ _ c, of 0 True granting_kernel "[]" "[]"] show ?thesis
    using c by (auto simp: srv_ok_def)
qed

end
