(* ===== verification/Stream_Session.thy ===== *)
theory Stream_Session
  imports Byte_Buffers Protocol
begin

text \<open>
  Streams and sessions: the fixed-size loops of \<open>src/stream.cc\<close>, the socket stream
  (\<open>src/socket_stream.cc\<close>) and the framing of \<open>src/rpc/rpc_session.cc\<close>.

  The system calls are parameters over a world \<open>'w\<close>: \<open>conn w\<close> is \<open>isConnected()\<close>;
  \<open>recv w n\<close> is a receive of at most \<open>n\<close> bytes, giving the return value, the bytes stored and the
  new world; \<open>send w bs\<close> is a send of \<open>bs\<close>, giving the return value and the new world. What a
  connected stream socket does is stated by \<open>recv_delivers\<close> and \<open>send_accepts\<close>.

  The loops compare an unsigned length with zero, so only a return value of 0 ends them early; an
  error (-1) becomes the largest \<open>size_t\<close>. They are partial functions: \<open>None\<close> is a loop that does not
  end. The results are C++ \<open>int\<close>s.
\<close>

section \<open>Fixed-size loops\<close>

text \<open>Conversion of a \<open>size_t\<close> to the \<open>int\<close> result.\<close>

definition int_of_size :: "nat \<Rightarrow> int" where
  "int_of_size n = sint (of_nat n :: 32 word)"

type_synonym 'w recv_fun = "'w \<Rightarrow> nat \<Rightarrow> int \<times> bytes \<times> 'w"
type_synonym 'w send_fun = "'w \<Rightarrow> bytes \<Rightarrow> int \<times> 'w"

definition SocketStream_read :: "('w \<Rightarrow> bool) \<Rightarrow> 'w recv_fun \<Rightarrow> 'w \<Rightarrow> nat \<Rightarrow> int \<times> bytes \<times> 'w" where
  "SocketStream_read conn recv w len = (if \<not> conn w then (- 1, [], w) else recv w len)"

definition SocketStream_read_ba :: "('w \<Rightarrow> bool) \<Rightarrow> 'w recv_fun \<Rightarrow> 'w \<Rightarrow> bytearray \<Rightarrow> nat \<Rightarrow>
    (int \<times> bytearray \<times> 'w) res" where
  "SocketStream_read_ba conn recv w ba len =
     (if \<not> conn w then Inr (- 1, ba, w)
      else bindE (getWriteBuffers ba len) (\<lambda>(_, iov, ba).
        let (ret, bs, w) = recv w (sum_list (map (\<lambda>v. snd (snd v)) iov));
            ba = ba\<lparr>ba_nodes := scatter (ba_nodes ba) iov bs\<rparr>
        in if 0 < ret
           then bindE (ByteArray_setPosition ba (ba_pos ba + nat ret)) (\<lambda>ba. Inr (ret, ba, w))
           else Inr (ret, ba, w)))"

definition SocketStream_write :: "('w \<Rightarrow> bool) \<Rightarrow> 'w send_fun \<Rightarrow> 'w \<Rightarrow> bytes \<Rightarrow> int \<times> 'w" where
  "SocketStream_write conn send w bs = (if \<not> conn w then (- 1, w) else send w bs)"

definition SocketStream_write_ba :: "('w \<Rightarrow> bool) \<Rightarrow> 'w send_fun \<Rightarrow> 'w \<Rightarrow> bytearray \<Rightarrow> nat \<Rightarrow>
    (int \<times> bytearray \<times> 'w) res" where
  "SocketStream_write_ba conn send w ba len =
     (if \<not> conn w then Inr (- 1, ba, w)
      else bindE (getReadBuffers ba len) (\<lambda>(_, iov).
        let (ret, w) = send w (gather (ba_nodes ba) iov)
        in if 0 < ret
           then bindE (ByteArray_setPosition ba (ba_pos ba + nat ret)) (\<lambda>ba. Inr (ret, ba, w))
           else Inr (ret, ba, w)))"

text \<open>\<open>readFixSize(void *, size_t)\<close>: \<open>off\<close> and \<open>left\<close> are the loop variables, \<open>buf\<close> the caller's buffer.\<close>

partial_function (option) readFixSize_loop :: "('w \<Rightarrow> bool) \<Rightarrow> 'w recv_fun \<Rightarrow> nat \<Rightarrow> 'w \<Rightarrow> bytes \<Rightarrow>
    nat \<Rightarrow> nat \<Rightarrow> (int \<times> bytes \<times> 'w) res option" where
  "readFixSize_loop conn recv len w buf off left =
     (if left = 0 then Some (Inr (int_of_size len, buf, w))
      else let (ret, bs, w') = SocketStream_read conn recv w left; l = to_size ret in
        if length buf < off + length bs then Some (Inl OutOfBounds)
        else let buf' = overwrite off bs buf in
          if l = 0 then Some (Inr (0, buf', w'))
          else readFixSize_loop conn recv len w' buf' ((off + l) mod 2 ^ 64) (sz_sub left l))"

definition readFixSize :: "('w \<Rightarrow> bool) \<Rightarrow> 'w recv_fun \<Rightarrow> 'w \<Rightarrow> bytes \<Rightarrow> nat \<Rightarrow>
    (int \<times> bytes \<times> 'w) res option" where
  "readFixSize conn recv w buf len = readFixSize_loop conn recv len w buf 0 len"

partial_function (option) readFixSize_ba_loop :: "('w \<Rightarrow> bool) \<Rightarrow> 'w recv_fun \<Rightarrow> nat \<Rightarrow> 'w \<Rightarrow>
    bytearray \<Rightarrow> nat \<Rightarrow> (int \<times> bytearray \<times> 'w) res option" where
  "readFixSize_ba_loop conn recv len w ba left =
     (if left = 0 then Some (Inr (int_of_size len, ba, w))
      else case SocketStream_read_ba conn recv w ba left of
          Inl e \<Rightarrow> Some (Inl e)
        | Inr (ret, ba', w') \<Rightarrow>
            if to_size ret = 0 then Some (Inr (0, ba', w'))
            else readFixSize_ba_loop conn recv len w' ba' (sz_sub left (to_size ret)))"

definition readFixSize_ba :: "('w \<Rightarrow> bool) \<Rightarrow> 'w recv_fun \<Rightarrow> 'w \<Rightarrow> bytearray \<Rightarrow> nat \<Rightarrow>
    (int \<times> bytearray \<times> 'w) res option" where
  "readFixSize_ba conn recv w ba len = readFixSize_ba_loop conn recv len w ba len"

partial_function (option) writeFixSize_loop :: "('w \<Rightarrow> bool) \<Rightarrow> 'w send_fun \<Rightarrow> nat \<Rightarrow> 'w \<Rightarrow> bytes \<Rightarrow>
    nat \<Rightarrow> nat \<Rightarrow> (int \<times> 'w) res option" where
  "writeFixSize_loop conn send len w buf off left =
     (if left = 0 then Some (Inr (int_of_size len, w))
      else if length buf < off + left then Some (Inl OutOfBounds)
      else let (ret, w') = SocketStream_write conn send w (take left (drop off buf)); l = to_size ret in
        if l = 0 then Some (Inr (0, w'))
        else writeFixSize_loop conn send len w' buf ((off + l) mod 2 ^ 64) (sz_sub left l))"

definition writeFixSize :: "('w \<Rightarrow> bool) \<Rightarrow> 'w send_fun \<Rightarrow> 'w \<Rightarrow> bytes \<Rightarrow> nat \<Rightarrow> (int \<times> 'w) res option" where
  "writeFixSize conn send w buf len = writeFixSize_loop conn send len w buf 0 len"

partial_function (option) writeFixSize_ba_loop :: "('w \<Rightarrow> bool) \<Rightarrow> 'w send_fun \<Rightarrow> nat \<Rightarrow> 'w \<Rightarrow>
    bytearray \<Rightarrow> nat \<Rightarrow> (int \<times> bytearray \<times> 'w) res option" where
  "writeFixSize_ba_loop conn send len w ba left =
     (if left = 0 then Some (Inr (int_of_size len, ba, w))
      else case SocketStream_write_ba conn send w ba left of
          Inl e \<Rightarrow> Some (Inl e)
        | Inr (ret, ba', w') \<Rightarrow>
            if to_size ret = 0 then Some (Inr (0, ba', w'))
            else writeFixSize_ba_loop conn send len w' ba' (sz_sub left (to_size ret)))"

definition writeFixSize_ba :: "('w \<Rightarrow> bool) \<Rightarrow> 'w send_fun \<Rightarrow> 'w \<Rightarrow> bytearray \<Rightarrow> nat \<Rightarrow>
    (int \<times> bytearray \<times> 'w) res option" where
  "writeFixSize_ba conn send w ba len = writeFixSize_ba_loop conn send len w ba len"

section \<open>Sessions\<close>

fun opt_bind :: "'a res option \<Rightarrow> ('a \<Rightarrow> 'b res option) \<Rightarrow> 'b res option" where
  "opt_bind None f = None"
| "opt_bind (Some (Inl e)) f = Some (Inl e)"
| "opt_bind (Some (Inr x)) f = f x"

text \<open>\<open>recvRequest\<close>; the inner \<open>None\<close> is the null pointer it returns.\<close>

definition recvRequest :: "(nat \<Rightarrow> nat \<Rightarrow> u8) \<Rightarrow> ('w \<Rightarrow> bool) \<Rightarrow> 'w recv_fun \<Rightarrow> 'w \<Rightarrow>
    (protocol option \<times> 'w) res option" where
  "recvRequest fill conn recv w =
     opt_bind (readFixSize_ba conn recv w (new_ByteArray fill default_base) BASE_LENGTH) (\<lambda>(r, ba, w).
       if r \<le> 0 then Some (Inr (None, w))
       else opt_bind (Some (ByteArray_setPosition ba 0)) (\<lambda>ba.
         opt_bind (Some (decodeMeta new_Protocol ba)) (\<lambda>(request, ba).
           if p_magic request \<noteq> MAGIC then Some (Inr (None, w))
           else if p_content_length request = 0 then Some (Inr (Some request, w))
           else
             let n = unat (p_content_length request) in
             opt_bind (readFixSize conn recv w (replicate n 0) n) (\<lambda>(r, buff, w).
               if r \<le> 0 then Some (Inr (None, w))
               else Some (Inr (Some (request\<lparr>p_content := buff\<rparr>), w))))))"

definition sendResponse :: "(nat \<Rightarrow> nat \<Rightarrow> u8) \<Rightarrow> ('w \<Rightarrow> bool) \<Rightarrow> 'w send_fun \<Rightarrow> 'w \<Rightarrow> protocol \<Rightarrow>
    (int \<times> 'w) res option" where
  "sendResponse fill conn send w response =
     opt_bind (Some (encode fill response)) (\<lambda>ba.
       opt_bind (writeFixSize_ba conn send w ba (ba_size ba)) (\<lambda>(r, ba, w). Some (Inr (r, w))))"

section \<open>What a connected stream socket does\<close>

text \<open>
  \<open>inp w\<close> are the bytes still to arrive, \<open>out w\<close> the bytes accepted. A receive returns some nonempty
  part of what is to arrive, a send accepts some nonempty part of what it is given; how much is
  not determined.
\<close>

definition recv_delivers :: "('w \<Rightarrow> bool) \<Rightarrow> 'w recv_fun \<Rightarrow> ('w \<Rightarrow> bytes) \<Rightarrow> bool" where
  "recv_delivers conn recv inp \<longleftrightarrow>
     (\<forall>w n. conn w \<and> 0 < n \<and> inp w \<noteq> [] \<longrightarrow>
       (\<exists>k w'. 0 < k \<and> k \<le> n \<and> k \<le> length (inp w) \<and> k < 2 ^ 31 \<and> conn w' \<and>
          recv w n = (int k, take k (inp w), w') \<and> inp w' = drop k (inp w)))"

definition send_accepts :: "('w \<Rightarrow> bool) \<Rightarrow> 'w send_fun \<Rightarrow> ('w \<Rightarrow> bytes) \<Rightarrow> bool" where
  "send_accepts conn send out \<longleftrightarrow>
     (\<forall>w bs. conn w \<and> bs \<noteq> [] \<longrightarrow>
       (\<exists>k w'. 0 < k \<and> k \<le> length bs \<and> k < 2 ^ 31 \<and> conn w' \<and>
          send w bs = (int k, w') \<and> out w' = out w @ take k bs))"

lemma recv_deliversD:
  assumes "recv_delivers conn recv inp" "conn w" "0 < n" "n \<le> length (inp w)"
  obtains k w' where "0 < k" "k \<le> n" "k < 2 ^ 31" "conn w'" "recv w n = (int k, take k (inp w), w')"
    "inp w' = drop k (inp w)"
proof -
  have "inp w \<noteq> []" using assms(3,4) by auto
  then show ?thesis using assms(1-3) that unfolding recv_delivers_def by blast
qed

lemma send_acceptsD:
  assumes "send_accepts conn send out" "conn w" "bs \<noteq> []"
  obtains k w' where "0 < k" "k \<le> length bs" "k < 2 ^ 31" "conn w'" "send w bs = (int k, w')"
    "out w' = out w @ take k bs"
  using assms unfolding send_accepts_def by blast

lemma to_size_int: "k < 2 ^ 64 \<Longrightarrow> to_size (int k) = k"
  by (simp add: to_size_def)

lemma to_size_neg1 [simp]: "to_size (- 1) = 2 ^ 64 - 1"
  by (simp add: to_size_def)

lemma int_of_size_small: "n < 2 ^ 31 \<Longrightarrow> int_of_size n = int n"
proof -
  assume "n < 2 ^ 31"
  then have "signed_take_bit 31 (int n) = int n" by (intro signed_take_bit_int_eq_self) simp_all
  then show ?thesis by (simp add: int_of_size_def signed_of_nat)
qed

section \<open>The loops read and write exactly the given length\<close>

lemma SocketStream_read_ba_step:
  assumes "recv_delivers conn recv inp" "ba_inv ba" "conn w" "0 < n" "n \<le> length (inp w)"
  obtains k ba' w' where "0 < k" "k \<le> n" "k < 2 ^ 31" "conn w'" "inp w' = drop k (inp w)"
    "SocketStream_read_ba conn recv w ba n = Inr (int k, ba', w')" "wrote ba (take k (inp w)) ba'"
proof -
  obtain iov ba1 where iov: "getWriteBuffers ba n = Inr (n, iov, ba1)" "ba_pos ba1 = ba_pos ba"
    "sum_list (map (\<lambda>v. snd (snd v)) iov) = n"
    and fill: "\<forall>bs. length bs \<le> n \<longrightarrow>
      (\<exists>ba'. ByteArray_setPosition (ba1\<lparr>ba_nodes := scatter (ba_nodes ba1) iov bs\<rparr>)
          (ba_pos ba + length bs) = Inr ba' \<and> wrote ba bs ba')"
    using getWriteBuffers_fill [OF assms(2,4)] by blast
  obtain k w' where k: "0 < k" "k \<le> n" "k < 2 ^ 31" "conn w'"
    "recv w n = (int k, take k (inp w), w')" "inp w' = drop k (inp w)"
    using recv_deliversD [OF assms(1,3-5)] .
  have "length (take k (inp w)) = k" using k(2) assms(5) by simp
  then obtain ba' where "ByteArray_setPosition
      (ba1\<lparr>ba_nodes := scatter (ba_nodes ba1) iov (take k (inp w))\<rparr>) (ba_pos ba + k) = Inr ba'"
    "wrote ba (take k (inp w)) ba'"
    using fill k(2) by metis
  then show ?thesis
    using that [of k w' ba'] k iov assms(3) by (simp add: SocketStream_read_ba_def Let_def)
qed

lemma readFixSize_ba_loop_reads:
  assumes "recv_delivers conn recv inp"
  shows "ba_inv ba \<Longrightarrow> conn w \<Longrightarrow> left \<le> length (inp w) \<Longrightarrow>
    \<exists>ba' w'. readFixSize_ba_loop conn recv len w ba left = Some (Inr (int_of_size len, ba', w')) \<and>
      wrote ba (take left (inp w)) ba' \<and> conn w' \<and> inp w' = drop left (inp w)"
proof (induction left arbitrary: ba w rule: less_induct)
  case (less left)
  show ?case
  proof (cases "left = 0")
    case True
    then show ?thesis
      using less.prems by (simp add: readFixSize_ba_loop.simps [of _ _ _ _ _ 0] wrote_refl)
  next
    case False
    then obtain k ba1 w1 where k: "0 < k" "k \<le> left" "k < 2 ^ 31" "conn w1" "inp w1 = drop k (inp w)"
      "SocketStream_read_ba conn recv w ba left = Inr (int k, ba1, w1)" "wrote ba (take k (inp w)) ba1"
      using SocketStream_read_ba_step [OF assms less.prems(1,2) _ less.prems(3)] by blast
    have sz: "to_size (int k) = k" using k(3) by (intro to_size_int) simp
    obtain ba2 w2 where "readFixSize_ba_loop conn recv len w1 ba1 (left - k) =
        Some (Inr (int_of_size len, ba2, w2))" and b2: "wrote ba1 (take (left - k) (inp w1)) ba2"
      and w2: "conn w2" "inp w2 = drop (left - k) (inp w1)"
      using less.IH [of "left - k" ba1 w1] k wrote_inv [OF k(7)] diff_le_mono [OF less.prems(3), of k]
      by auto
    then have "readFixSize_ba_loop conn recv len w ba left = Some (Inr (int_of_size len, ba2, w2))"
      using False k sz by (subst readFixSize_ba_loop.simps) simp
    moreover have "take k (inp w) @ take (left - k) (inp w1) = take left (inp w)"
      using k(2,5) by (metis le_add_diff_inverse take_add)
    ultimately show ?thesis
      using wrote_trans [OF k(7) b2] w2 k(2,5) by auto
  qed
qed

lemma readFixSize_loop_reads:
  assumes "recv_delivers conn recv inp"
  shows "conn w \<Longrightarrow> left \<le> length (inp w) \<Longrightarrow> off + left = length buf \<Longrightarrow> length buf < 2 ^ 64 \<Longrightarrow>
    \<exists>w'. readFixSize_loop conn recv len w buf off left =
        Some (Inr (int_of_size len, take off buf @ take left (inp w), w')) \<and>
      conn w' \<and> inp w' = drop left (inp w)"
proof (induction left arbitrary: buf off w rule: less_induct)
  case (less left)
  show ?case
  proof (cases "left = 0")
    case True
    then show ?thesis using less.prems by (simp add: readFixSize_loop.simps [of _ _ _ _ _ _ 0])
  next
    case False
    then obtain k w1 where k: "0 < k" "k \<le> left" "k < 2 ^ 31" "conn w1"
      "recv w left = (int k, take k (inp w), w1)" "inp w1 = drop k (inp w)"
      using recv_deliversD [OF assms less.prems(1) _ less.prems(2)] by blast
    have sz: "to_size (int k) = k" using k(3) by (intro to_size_int) simp
    let ?buf = "overwrite off (take k (inp w)) buf"
    have len: "length (take k (inp w)) = k" using k(2) less.prems(2) by simp
    then have buf: "length ?buf = length buf" "take (off + k) ?buf = take off buf @ take k (inp w)"
      using less.prems(3) k(2) take_overwrite [of off buf "take k (inp w)"] by simp_all
    obtain w2 where "readFixSize_loop conn recv len w1 ?buf (off + k) (left - k) =
        Some (Inr (int_of_size len, take (off + k) ?buf @ take (left - k) (inp w1), w2))"
      "conn w2" "inp w2 = drop (left - k) (inp w1)"
      using less.IH [of "left - k" w1 "off + k" ?buf] k less.prems buf(1)
        diff_le_mono [OF less.prems(2), of k] by auto
    moreover have "readFixSize_loop conn recv len w buf off left =
        readFixSize_loop conn recv len w1 ?buf (off + k) (left - k)"
      using False k sz len less.prems
      by (subst readFixSize_loop.simps) (simp add: SocketStream_read_def Let_def)
    moreover have "take k (inp w) @ take (left - k) (inp w1) = take left (inp w)"
      using k(2,6) by (metis le_add_diff_inverse take_add)
    ultimately show ?thesis using buf(2) k(2,6) by auto
  qed
qed

lemma writeFixSize_ba_loop_writes:
  assumes "send_accepts conn send out"
  shows "ba_inv ba \<Longrightarrow> conn w \<Longrightarrow> left = length (ahead ba) \<Longrightarrow>
    \<exists>ba' w'. writeFixSize_ba_loop conn send len w ba left = Some (Inr (int_of_size len, ba', w')) \<and>
      conn w' \<and> out w' = out w @ ahead ba"
proof (induction left arbitrary: ba w rule: less_induct)
  case (less left)
  show ?case
  proof (cases "left = 0")
    case True
    then show ?thesis
      using less.prems by (simp add: writeFixSize_ba_loop.simps [of _ _ _ _ _ 0] del: length_ahead)
  next
    case False
    then have ne: "ahead ba \<noteq> []" using less.prems(3) by auto
    obtain iov where iov: "getReadBuffers ba left = Inr (left, iov)" "gather (ba_nodes ba) iov = ahead ba"
      using getReadBuffers_view [OF less.prems(1), of left] less.prems(3)
      by (auto simp del: length_ahead)
    obtain k w1 where k: "0 < k" "k \<le> left" "k < 2 ^ 31" "conn w1" "send w (ahead ba) = (int k, w1)"
      "out w1 = out w @ take k (ahead ba)"
      using send_acceptsD [OF assms less.prems(2) ne] less.prems(3) by metis
    have sz: "to_size (int k) = k" using k(3) by (intro to_size_int) simp
    have "ba_pos ba + k \<le> length (ba_content ba)"
      using less.prems(1,3) k(2) by (simp add: ba_content_def)
    then obtain ba1 where ba1: "ByteArray_setPosition ba (ba_pos ba + k) = Inr ba1" "ba_inv ba1"
      "ahead ba1 = drop k (ahead ba)"
      using ByteArray_setPosition_view [OF less.prems(1), of "ba_pos ba + k"] less.prems(1)
      by (auto simp: ba_content_def simp flip: drop_drop)
    have "SocketStream_write_ba conn send w ba left = Inr (int k, ba1, w1)"
      using iov k ba1(1) less.prems(2) by (simp add: SocketStream_write_ba_def)
    then have step: "writeFixSize_ba_loop conn send len w ba left =
        writeFixSize_ba_loop conn send len w1 ba1 (left - k)"
      using False k sz by (subst writeFixSize_ba_loop.simps) simp
    have left: "left - k < left" "left - k = length (ahead ba1)"
      using k False ba1(3) less.prems(3) by (simp_all del: length_ahead)
    obtain ba2 w2 where "writeFixSize_ba_loop conn send len w1 ba1 (left - k) =
        Some (Inr (int_of_size len, ba2, w2))" "conn w2" "out w2 = out w1 @ ahead ba1"
      using less.IH [OF left(1) ba1(2) k(4) left(2)] by blast
    then show ?thesis using step k(6) ba1(3) by simp
  qed
qed

text \<open>A socket that delivers three bytes and accepts two bytes at a time.\<close>

definition recv3 :: "bytes recv_fun" where
  "recv3 w n = (let k = min (min n 3) (length w) in (int k, take k w, drop k w))"

definition send2 :: "bytes send_fun" where
  "send2 w bs = (int (min 2 (length bs)), w @ take 2 bs)"

lemma recv3_delivers: "recv_delivers (\<lambda>_. True) recv3 (\<lambda>w. w)"
  unfolding recv_delivers_def
proof (intro allI impI)
  fix w :: bytes and n :: nat
  assume "True \<and> 0 < n \<and> w \<noteq> []"
  then show "\<exists>k w'. 0 < k \<and> k \<le> n \<and> k \<le> length w \<and> k < 2 ^ 31 \<and> True \<and>
      recv3 w n = (int k, take k w, w') \<and> w' = drop k w"
    by (intro exI [of _ "min (min n 3) (length w)"]) (auto simp: recv3_def Let_def)
qed

lemma send2_accepts: "send_accepts (\<lambda>_. True) send2 (\<lambda>w. w)"
  unfolding send_accepts_def
proof (intro allI impI)
  fix w bs :: bytes
  assume "True \<and> bs \<noteq> []"
  then show "\<exists>k w'. 0 < k \<and> k \<le> length bs \<and> k < 2 ^ 31 \<and> True \<and>
      send2 w bs = (int k, w') \<and> w' = w @ take k bs"
    by (intro exI [of _ "min 2 (length bs)"]) (auto simp: send2_def min_def)
qed

section \<open>Properties\<close>

text \<open>
  C9. A session receives exactly the frame that was sent, however the network fragments it: on a
  connected socket on which the bytes of an encoded frame with the right magic are to arrive,
  followed by anything, \<open>recvRequest\<close> terminates and returns that frame, and what follows the frame
  is left for the next call. Contents from \<open>2 ^ 31\<close> bytes on are excluded.
\<close>

theorem session_receives_frame:
  assumes "recv_delivers conn recv inp" "conn w" "inp w = header_bytes p @ p_content p @ rest"
    "p_magic p = MAGIC" "length (p_content p) < 2 ^ 31"
  shows "\<exists>q w'. recvRequest fill conn recv w = Some (Inr (Some q, w')) \<and>
    q = p\<lparr>p_content_length := of_nat (length (p_content p))\<rparr> \<and> conn w' \<and> inp w' = rest"
proof -
  let ?new = "new_ByteArray fill default_base" and ?n = "length (p_content p)"
  have inv0: "ba_inv ?new" by (simp add: ba_inv_new_ByteArray default_base_def)
  have len0: "BASE_LENGTH \<le> length (inp w)" by (simp add: assms(3))
  obtain ba1 w1 where r1: "readFixSize_ba conn recv w ?new BASE_LENGTH =
      Some (Inr (int_of_size BASE_LENGTH, ba1, w1))"
    "wrote ?new (header_bytes p) ba1" "conn w1" "inp w1 = p_content p @ rest"
    using readFixSize_ba_loop_reads [OF assms(1) inv0 assms(2) len0, of BASE_LENGTH]
    by (auto simp: readFixSize_ba_def assms(3))
  obtain ba2 where ba2: "ByteArray_setPosition ba1 0 = Inr ba2" "ba_inv ba2"
    "ahead ba2 = header_bytes p @ []"
    using rewind_new [OF r1(2)] by auto
  define q where "q = p\<lparr>p_content := [], p_content_length := of_nat ?n\<rparr>"
  obtain ba3 where dm: "decodeMeta new_Protocol ba2 = Inr (q, ba3)"
    using decodeMeta_view [OF ba2(2,3), of new_Protocol] by (auto simp: q_def new_Protocol_def)
  have n: "unat (p_content_length q) = ?n" using assms(5) by (simp add: q_def unat_of_nat)
  have q: "p_magic q = MAGIC" "p_content_length q = 0 \<longleftrightarrow> ?n = 0"
    using assms(4) n by (auto simp: q_def unat_eq_0 [symmetric] simp del: unat_eq_0)
  have base: "\<not> int_of_size BASE_LENGTH \<le> 0" by (simp add: int_of_size_small BASE_LENGTH_def)
  show ?thesis
  proof (cases "?n = 0")
    case True
    then have "recvRequest fill conn recv w = Some (Inr (Some q, w1))"
      using r1(1) ba2(1) dm q base by (simp add: recvRequest_def)
    then show ?thesis using True r1(3,4) by (simp add: q_def)
  next
    case False
    have buf: "?n \<le> length (inp w1)" "0 + ?n = length (replicate ?n (0 :: u8))"
      "length (replicate ?n (0 :: u8)) < 2 ^ 64"
      using r1(4) assms(5) by simp_all
    obtain w2 where "readFixSize conn recv w1 (replicate ?n 0) ?n =
        Some (Inr (int ?n, p_content p, w2))" "conn w2" "inp w2 = rest"
      using readFixSize_loop_reads [OF assms(1) r1(3) buf, of ?n] assms(5)
      by (auto simp: readFixSize_def int_of_size_small r1(4))
    then show ?thesis
      using r1(1) ba2(1) dm q base n False by (simp add: recvRequest_def Let_def) (simp add: q_def)
  qed
qed

theorem session_receives_frame_witness:
  "\<exists>q w'. recvRequest (\<lambda>_ _. 7) (\<lambda>_. True) recv3
      (header_bytes (Create RPC_METHOD_REQUEST [1, 2, 3, 4, 5] 9) @ [1, 2, 3, 4, 5] @ [0xaa]) =
      Some (Inr (Some q, w')) \<and> p_content q = [1, 2, 3, 4, 5] \<and> p_sequence_id q = 9 \<and> w' = [0xaa]"
  using session_receives_frame [OF recv3_delivers TrueI, of
      "header_bytes (Create RPC_METHOD_REQUEST [1, 2, 3, 4, 5] 9) @ [1, 2, 3, 4, 5] @ [0xaa]"
      "Create RPC_METHOD_REQUEST [1, 2, 3, 4, 5] 9" "[0xaa]" "\<lambda>_ _. 7"]
  by (simp add: Create_def new_Protocol_def)

text \<open>
  C24. \<open>sendResponse\<close> puts exactly the encoded frame on the wire, however many sends that takes, and
  returns its length.
\<close>

theorem session_sends_frame:
  assumes "send_accepts conn send out" "conn w" "length (p_content p) < 2 ^ 31 - 11"
  shows "\<exists>w'. sendResponse fill conn send w p = Some (Inr (int (11 + length (p_content p)), w')) \<and>
    conn w' \<and> out w' = out w @ header_bytes p @ p_content p"
proof -
  have "f32.fits (p_content p)" using assms(3) by (simp add: f32_fits)
  then obtain ba where ba: "encode fill p = Inr ba" "ba_inv ba" "behind ba = []"
    "ahead ba = header_bytes p @ p_content p"
    using encode_view by blast
  have "ba_pos ba = 0" using length_behind [OF ba(2)] ba(3) by simp
  then have size: "ba_size ba = length (ahead ba)" "length (ahead ba) = 11 + length (p_content p)"
    using length_ahead [OF ba(2)] ba(4) by (simp_all add: BASE_LENGTH_def del: length_ahead)
  obtain ba' w' where "writeFixSize_ba conn send w ba (ba_size ba) =
      Some (Inr (int_of_size (ba_size ba), ba', w'))" "conn w'" "out w' = out w @ ahead ba"
    using writeFixSize_ba_loop_writes [OF assms(1) ba(2) assms(2) refl, of "ba_size ba"] size(1)
    by (auto simp: writeFixSize_ba_def simp del: length_ahead)
  then show ?thesis
    using ba(1,4) size assms(3) by (simp add: sendResponse_def int_of_size_small del: length_ahead)
qed

theorem session_sends_frame_witness:
  "\<exists>w'. sendResponse (\<lambda>_ _. 7) (\<lambda>_. True) send2 [] (Create RPC_RESPONSE [1, 2, 3] 9) =
      Some (Inr (14, w')) \<and> w' = header_bytes (Create RPC_RESPONSE [1, 2, 3] 9) @ [1, 2, 3]"
proof -
  have "p_content (Create RPC_RESPONSE [1, 2, 3] 9) = [1, 2, 3]" by (simp add: Create_def)
  then show ?thesis
    using session_sends_frame [OF send2_accepts TrueI, of "Create RPC_RESPONSE [1, 2, 3] 9" "\<lambda>_ _. 7" "[]"]
    by simp
qed

text \<open>
  An error return of the receive is not seen: \<open>size_t l = read(...)\<close> turns -1 into the largest
  \<open>size_t\<close>, which is not \<open>\<le> 0\<close>. On a socket that is not connected \<open>readFixSize\<close> does not report the
  error: it asks again, \<open>2 ^ 64 - len\<close> times, and then returns \<open>len\<close> as if all bytes had been read,
  with the buffer untouched.
\<close>

theorem disconnected_read_reports_success:
  assumes "\<not> conn w" "0 < len" "len < 2 ^ 31"
  shows "readFixSize_ba conn recv w ba len = Some (Inr (int len, ba, w))"
proof -
  have "left < 2 ^ 64 \<Longrightarrow> 0 < left \<Longrightarrow>
    readFixSize_ba_loop conn recv len w ba left = Some (Inr (int_of_size len, ba, w))" for left
  proof (induction "2 ^ 64 - left" arbitrary: left rule: less_induct)
    case less
    have step: "readFixSize_ba_loop conn recv len w ba left =
        readFixSize_ba_loop conn recv len w ba (sz_sub left (2 ^ 64 - 1))"
      using less.prems assms(1)
      by (subst readFixSize_ba_loop.simps) (simp add: SocketStream_read_ba_def)
    show ?case
    proof (cases "left = 2 ^ 64 - 1")
      case True
      then show ?thesis using step by (simp add: readFixSize_ba_loop.simps [of _ _ _ _ _ 0])
    next
      case False
      then have "sz_sub left (2 ^ 64 - 1) = Suc left" using less.prems by (simp add: sz_sub_def)
      then show ?thesis using step less.hyps [of "Suc left"] less.prems False by simp
    qed
  qed
  then show ?thesis using assms by (simp add: readFixSize_ba_def int_of_size_small)
qed

theorem disconnected_read_reports_success_witness:
  "readFixSize_ba (\<lambda>_. False) recv3 [] (new_ByteArray (\<lambda>_ _. 7) 4) 11 =
   Some (Inr (11, new_ByteArray (\<lambda>_ _. 7) 4, []))"
  using disconnected_read_reports_success [of "\<lambda>_. False" "[]" 11 recv3 "new_ByteArray (\<lambda>_ _. 7) 4"]
  by simp

end
