(* ===== verification/Server_Life.thy ===== *)
theory Server_Life
  imports Registry Tcp_Server Stream_Session
begin

text \<open>
  The life of an RPC server (\<open>src/rpc/rpc_server.cc\<close>): construction, \<open>bind\<close>, \<open>connectRegistry\<close>, \<open>start\<close>, the
  heartbeat to the registry, the clean-up fiber and the destructor; and the connection loops
  \<open>handleClient\<close> of the server and of the registry (\<open>src/rpc/rpc_service_registry.cc\<close>) over the requests that arrive.

  The byte stream to the registry is the world \<open>v\<close> of the stream functions \<open>conn\<close>, \<open>send\<close> and \<open>recv\<close>, as in
  \<open>Stream_Session\<close>; the sockets live in the world \<open>w\<close> of \<open>Socket\<close>. \<open>fill\<close> and \<open>code0\<close> are uninitialised memory, \<open>a\<close> is the
  address of a new timer, \<open>now\<close> the clock.
\<close>

section \<open>State\<close>

record rpc_host =
  rh_srv :: rpc_server
  rh_tcp :: tcp_server
  rh_registry :: "socket_obj option"
  rh_port :: u32
  rh_timers :: timer_manager
  rh_heart :: "nat option"
  rh_stop_clean :: bool
  rh_cleaners :: nat

text \<open>\<open>port_\<close> has no initialiser. \<open>rh_cleaners\<close> counts the clean-up fibers that were submitted.\<close>

definition new_RPCServer :: "u32 \<Rightarrow> timer_manager \<Rightarrow> rpc_host" where
  "new_RPCServer port0 tm =
     \<lparr>rh_srv = \<lparr>rs_services = Map.empty, rs_subscribes = Map.empty\<rparr>, rh_tcp = new_TCPServer, rh_registry = None,
      rh_port = port0, rh_timers = tm, rh_heart = None, rh_stop_clean = False, rh_cleaners = 0\<rparr>"

definition s_heartbeat_timeout :: u64 where "s_heartbeat_timeout = 40000"

section \<open>Binding\<close>

text \<open>The cast to \<open>IPv4Address\<close> gives a null pointer for every other class, and its result is used unchecked.\<close>

definition RPCServer_bind :: "bool \<Rightarrow> bool \<Rightarrow> sock_address \<Rightarrow> kernel \<Rightarrow> rpc_host \<Rightarrow> net_world \<Rightarrow>
    (bool \<times> rpc_host \<times> net_world) res" where
  "RPCServer_bind en iom address k h w =
     (case address of
        NetAddress (IPv4Address a) \<Rightarrow>
          let h = h\<lparr>rh_port := IPv4_getPort a\<rparr> in
          bindE (tcp_bind_addr en iom address k (rh_tcp h) w) (\<lambda>(ok, tcp, w). Inr (ok, h\<lparr>rh_tcp := tcp\<rparr>, w))
      | _ \<Rightarrow> Inl NullDeref)"

section \<open>The registry\<close>

text \<open>The destructor of \<open>SocketStream\<close>, on a session that owns its socket; and \<open>close\<close>.\<close>

definition SocketStream_delete :: "bool \<Rightarrow> bool \<Rightarrow> bool \<Rightarrow> socket_obj option \<Rightarrow> net_world \<Rightarrow> net_world res" where
  "SocketStream_delete en iom owner socket w =
     (case socket of
        None \<Rightarrow> Inr w
      | Some s \<Rightarrow> if owner then bindE (sock_close en iom s w) (\<lambda>(_, w). Inr w) else Inr w)"

definition SocketStream_close :: "bool \<Rightarrow> bool \<Rightarrow> socket_obj option \<Rightarrow> net_world \<Rightarrow> (socket_obj option \<times> net_world) res" where
  "SocketStream_close en iom socket w =
     (case socket of None \<Rightarrow> Inr (None, w) | Some s \<Rightarrow> bindE (sock_close en iom s w) (\<lambda>(s, w). Inr (Some s, w)))"

text \<open>
  \<open>connectRegistry\<close>. A session that is replaced or reset is destroyed, and so is the socket of a failed attempt.
\<close>

definition connectRegistry :: "bool \<Rightarrow> bool \<Rightarrow> kernel \<Rightarrow> (nat \<Rightarrow> nat \<Rightarrow> u8) \<Rightarrow> ('v \<Rightarrow> bool) \<Rightarrow> 'v send_fun \<Rightarrow> sock_address \<Rightarrow>
    rpc_host \<Rightarrow> net_world \<Rightarrow> 'v \<Rightarrow> (bool \<times> rpc_host \<times> net_world \<times> 'v) res option" where
  "connectRegistry en iom k fill conn send addr h w v =
     opt_bind (Some (sock_connect en iom k addr (- 1) (CreateTCP addr) w)) (\<lambda>(ok, sock, w).
     opt_bind (Some (SocketStream_delete en iom True (rh_registry h) w)) (\<lambda>w.
     if \<not> ok
     then opt_bind (Some (sock_close en iom sock w)) (\<lambda>(_, w). Some (Inr (False, h\<lparr>rh_registry := None\<rparr>, w, v)))
     else let h = h\<lparr>rh_registry := Some sock\<rparr> in
       opt_bind (Some (connectRegistry_message fill (rh_port h))) (\<lambda>response.
       opt_bind (sendResponse fill conn send v response) (\<lambda>(_, v).
       Some (Inr (True, h, w, v))))))"

definition registerService :: "(nat \<Rightarrow> nat \<Rightarrow> u8) \<Rightarrow> u16 \<Rightarrow> ('v \<Rightarrow> bool) \<Rightarrow> 'v send_fun \<Rightarrow> 'v recv_fun \<Rightarrow> bytes \<Rightarrow> 'v \<Rightarrow>
    (rpc_result option \<times> 'v) res option" where
  "registerService fill code0 conn send recv name v =
     opt_bind (sendResponse fill conn send v (registerService_request name)) (\<lambda>(_, v).
     opt_bind (recvRequest fill conn recv v) (\<lambda>(response, v).
     opt_bind (Some (registerService_result fill code0 response)) (\<lambda>r. Some (Inr (r, v)))))"

fun register_all :: "(nat \<Rightarrow> nat \<Rightarrow> u8) \<Rightarrow> u16 \<Rightarrow> ('v \<Rightarrow> bool) \<Rightarrow> 'v send_fun \<Rightarrow> 'v recv_fun \<Rightarrow> bytes list \<Rightarrow> 'v \<Rightarrow>
    (rpc_result option list \<times> 'v) res option" where
  "register_all fill code0 conn send recv [] v = Some (Inr ([], v))"
| "register_all fill code0 conn send recv (name # names) v =
     opt_bind (registerService fill code0 conn send recv name v) (\<lambda>(r, v).
     opt_bind (register_all fill code0 conn send recv names v) (\<lambda>(rs, v). Some (Inr (r # rs, v))))"

section \<open>Starting\<close>

text \<open>
  \<open>start\<close>. \<open>names\<close> are the keys of \<open>services_\<close> in the order of the map, \<open>iom\<close> whether the thread has an IO manager,
  \<open>heartbeat\<close> the callback of the registry's timer.
\<close>

definition RPCServer_start :: "bool \<Rightarrow> bool \<Rightarrow> kernel \<Rightarrow> (nat \<Rightarrow> nat \<Rightarrow> u8) \<Rightarrow> u16 \<Rightarrow> ('v \<Rightarrow> bool) \<Rightarrow> 'v send_fun \<Rightarrow> 'v recv_fun \<Rightarrow>
    nat \<Rightarrow> u64 \<Rightarrow> nat \<Rightarrow> bytes list \<Rightarrow> rpc_host \<Rightarrow> net_world \<Rightarrow> 'v \<Rightarrow> (bool \<times> rpc_host \<times> net_world \<times> 'v) res option" where
  "RPCServer_start en iom k fill code0 conn send recv a now heartbeat names h w v =
     opt_bind (case rh_registry h of
         None \<Rightarrow> Some (Inr (h, w, v))
       | Some sock \<Rightarrow>
           opt_bind (register_all fill code0 conn send recv names v) (\<lambda>(_, v).
           opt_bind (Some (setRecvTimeout en k 30000 sock w)) (\<lambda>w.
           Some (Inr (h\<lparr>rh_timers := fst (addTimer (rh_timers h) a now 30000 (Some (Plain heartbeat)) True),
             rh_heart := Some a\<rparr>, w, v))))) (\<lambda>(h, w, v).
     if \<not> iom then Some (Inl NullDeref)
     else case tcp_start (rh_tcp h) of (ok, tcp) \<Rightarrow>
       Some (Inr (ok, h\<lparr>rh_cleaners := Suc (rh_cleaners h), rh_tcp := tcp\<rparr>, w, v)))"

text \<open>The callback of the timer: without an answer the registry counts as gone.\<close>

definition registry_heartbeat :: "(nat \<Rightarrow> nat \<Rightarrow> u8) \<Rightarrow> ('v \<Rightarrow> bool) \<Rightarrow> 'v send_fun \<Rightarrow> 'v recv_fun \<Rightarrow> rpc_host \<Rightarrow> 'v \<Rightarrow>
    (rpc_host \<times> 'v) res option" where
  "registry_heartbeat fill conn send recv h v =
     opt_bind (sendResponse fill conn send v HeartBeat) (\<lambda>(_, v).
     opt_bind (recvRequest fill conn recv v) (\<lambda>(response, v).
     case response of
       Some _ \<Rightarrow> Some (Inr (h, v))
     | None \<Rightarrow> (case rh_heart h of
           None \<Rightarrow> Some (Inl NullDeref)
         | Some t \<Rightarrow> opt_bind (Some (cancel (rh_timers h) t)) (\<lambda>(_, tm). Some (Inr (h\<lparr>rh_timers := tm\<rparr>, v))))))"

section \<open>Serving a connection\<close>

text \<open>
  \<open>RPCServer::handleClient\<close> over the requests that arrive, each with the time of its arrival; the answers are those
  sent, in order. A list that ends without \<open>None\<close> is a connection that is still open.
\<close>

fun server_serve :: "(nat \<Rightarrow> nat \<Rightarrow> u8) \<Rightarrow> u8 \<Rightarrow> nat \<Rightarrow> u64 \<Rightarrow> nat \<Rightarrow> (u64 \<times> protocol option) list \<Rightarrow>
    rpc_server \<times> timer_manager \<times> nat option \<Rightarrow> (protocol list \<times> rpc_server \<times> timer_manager \<times> nat option) res" where
  "server_serve fill val0 a alive_time session [] st = Inr ([], st)"
| "server_serve fill val0 a alive_time session ((now, request) # rs) st =
     bindE (handleClient_round fill val0 a now alive_time session st request) (\<lambda>(r, st).
     case r of
       Stop \<Rightarrow> Inr ([], st)
     | Reply response \<Rightarrow>
         bindE (server_serve fill val0 a alive_time session rs st) (\<lambda>(out, st).
         Inr ((case response of None \<Rightarrow> [] | Some p \<Rightarrow> [p]) @ out, st)))"

definition server_handleClient :: "(nat \<Rightarrow> nat \<Rightarrow> u8) \<Rightarrow> u8 \<Rightarrow> nat \<Rightarrow> u64 \<Rightarrow> u64 \<Rightarrow> nat \<Rightarrow> (u64 \<times> protocol option) list \<Rightarrow>
    rpc_server \<Rightarrow> timer_manager \<Rightarrow> (protocol list \<times> rpc_server \<times> timer_manager \<times> nat option) res" where
  "server_handleClient fill val0 a now alive_time session rs srv tm =
     bindE (update tm a now alive_time None session) (\<lambda>(heartTimer, tm).
     server_serve fill val0 a alive_time session rs (srv, tm, heartTimer))"

text \<open>\<open>RPCServiceRegistry::handleClient\<close>, likewise; \<open>remote\<close> is the address of the peer.\<close>

fun registry_serve :: "(nat \<Rightarrow> nat \<Rightarrow> u8) \<Rightarrow> u8 \<Rightarrow> (nat \<Rightarrow> bool) \<Rightarrow> nat \<Rightarrow> u64 \<Rightarrow> sockaddr_in \<Rightarrow> nat \<Rightarrow>
    (u64 \<times> protocol option) list \<Rightarrow> rg_state \<Rightarrow> (protocol list \<times> rg_state) res" where
  "registry_serve fill val0 alive a aliveTime remote session [] st = Inr ([], st)"
| "registry_serve fill val0 alive a aliveTime remote session ((now, request) # rs) st =
     bindE (registry_round fill val0 alive a now aliveTime remote session st request) (\<lambda>(r, st).
     case r of
       Inl _ \<Rightarrow> Inr ([], st)
     | Inr (response, _) \<Rightarrow>
         bindE (registry_serve fill val0 alive a aliveTime remote session rs st) (\<lambda>(out, st).
         Inr ((case response of None \<Rightarrow> [] | Some p \<Rightarrow> [p]) @ out, st)))"

definition registry_handleClient :: "(nat \<Rightarrow> nat \<Rightarrow> u8) \<Rightarrow> u8 \<Rightarrow> (nat \<Rightarrow> bool) \<Rightarrow> nat \<Rightarrow> u64 \<Rightarrow> u64 \<Rightarrow> sockaddr_in \<Rightarrow> nat \<Rightarrow>
    (u64 \<times> protocol option) list \<Rightarrow> registry \<Rightarrow> timer_manager \<Rightarrow> (protocol list \<times> rg_state) res" where
  "registry_handleClient fill val0 alive a now aliveTime remote session rs rg tm =
     bindE (update tm a now aliveTime None session) (\<lambda>(ht, tm).
     registry_serve fill val0 alive a aliveTime remote session rs (rg, None, tm, ht))"

section \<open>Clean-up and destruction\<close>

text \<open>
  The hosts that can be there after \<open>n\<close> calls of \<open>start\<close> that returned; in between the server is bound, connected to the registry, loses
  it, is stopped and serves.
\<close>

inductive host_starts :: "('v \<Rightarrow> bool) \<Rightarrow> 'v send_fun \<Rightarrow> 'v recv_fun \<Rightarrow> nat \<Rightarrow> rpc_host \<Rightarrow> bool" for conn send recv where
  host_new: "host_starts conn send recv 0 (new_RPCServer port0 tm)"
| host_bind: "host_starts conn send recv n h \<Longrightarrow> RPCServer_bind en iom addr k h w = Inr (ok, h', w') \<Longrightarrow> host_starts conn send recv n h'"
| host_connect: "host_starts conn send recv n h \<Longrightarrow>
    connectRegistry en iom k fill conn send addr h w v = Some (Inr (ok, h', w', v')) \<Longrightarrow> host_starts conn send recv n h'"
| host_heart: "host_starts conn send recv n h \<Longrightarrow>
    registry_heartbeat fill conn send recv h v = Some (Inr (h', v')) \<Longrightarrow> host_starts conn send recv n h'"
| host_serve: "host_starts conn send recv n h \<Longrightarrow> host_starts conn send recv n (h\<lparr>rh_tcp := tcp, rh_srv := srv\<rparr>)"
| host_start: "host_starts conn send recv n h \<Longrightarrow>
    RPCServer_start en iom k fill code0 conn send recv a now heartbeat names h w v = Some (Inr (ok, h', w', v')) \<Longrightarrow>
    host_starts conn send recv (Suc n) h'"

text \<open>
  The clean-up fibers and the destructor interleave. The fiber (lines 52 to 64) tests the flag, sleeps and cleans, and at
  the end pushes into the channel of capacity one: it takes the channel's mutex and queues the message; in \<open>CoMutex::unlock\<close> it takes the
  guard and lets go of the mutex; it lets go of the guard, and touches neither the channel nor the server afterwards. The destructor
  (lines 15 to 20), which a fiber runs, sets the flag; takes the mutex when there is a message and takes it out; takes the guard to
  let go of the mutex, and returns: the server and the channel are gone. A fiber that goes on then works on freed memory. \<open>None\<close> is a
  step that has to wait.
\<close>

datatype clean_pc = CleanTest | CleanSleep | CleanPush | CleanPushed | CleanUnlock | CleanDone
datatype dtor_pc = DtorNot | DtorWaits | DtorPopped | Destroyed

record life =
  lf_stop :: bool
  lf_cleaners :: "clean_pc list"
  lf_channel :: nat
  lf_mutex :: bool
  lf_guard :: bool
  lf_dtor :: dtor_pc
  lf_srv :: rpc_server

definition life_of :: "rpc_host \<Rightarrow> life" where
  "life_of h = \<lparr>lf_stop = rh_stop_clean h, lf_cleaners = replicate (rh_cleaners h) CleanTest, lf_channel = 0,
     lf_mutex = False, lf_guard = False, lf_dtor = DtorNot, lf_srv = rh_srv h\<rparr>"

definition clean_step :: "(nat \<Rightarrow> bool) \<Rightarrow> nat \<Rightarrow> life \<Rightarrow> life res option" where
  "clean_step alive i s =
     (if length (lf_cleaners s) \<le> i \<or> lf_cleaners s ! i = CleanDone then None
      else if lf_dtor s = Destroyed then Some (Inl WildPointer)
      else let goto = (\<lambda>p. s\<lparr>lf_cleaners := (lf_cleaners s)[i := p]\<rparr>) in
        case lf_cleaners s ! i of
          CleanTest \<Rightarrow> Some (Inr (goto (if lf_stop s then CleanPush else CleanSleep)))
        | CleanSleep \<Rightarrow> Some (Inr ((goto CleanTest)\<lparr>lf_srv := clean_subscribes alive (lf_srv s)\<rparr>))
        | CleanPush \<Rightarrow> if lf_mutex s \<or> 1 \<le> lf_channel s then None
            else Some (Inr ((goto CleanPushed)\<lparr>lf_mutex := True, lf_channel := Suc (lf_channel s)\<rparr>))
        | CleanPushed \<Rightarrow> if lf_guard s then None
            else Some (Inr ((goto CleanUnlock)\<lparr>lf_guard := True, lf_mutex := False\<rparr>))
        | CleanUnlock \<Rightarrow> Some (Inr ((goto CleanDone)\<lparr>lf_guard := False\<rparr>))
        | CleanDone \<Rightarrow> None)"

definition RPCServer_dtor :: "life \<Rightarrow> life option" where
  "RPCServer_dtor s =
     (case lf_dtor s of
        DtorNot \<Rightarrow> Some (s\<lparr>lf_stop := True, lf_dtor := DtorWaits\<rparr>)
      | DtorWaits \<Rightarrow> if lf_mutex s \<or> lf_channel s = 0 then None
          else Some (s\<lparr>lf_mutex := True, lf_channel := lf_channel s - 1, lf_dtor := DtorPopped\<rparr>)
      | DtorPopped \<Rightarrow> if lf_guard s then None else Some (s\<lparr>lf_mutex := False, lf_dtor := Destroyed\<rparr>)
      | Destroyed \<Rightarrow> None)"

inductive life_reach :: "rpc_host \<Rightarrow> life \<Rightarrow> bool" for h where
  life_init: "life_reach h (life_of h)"
| life_clean: "life_reach h s \<Longrightarrow> clean_step alive i s = Some (Inr s') \<Longrightarrow> life_reach h s'"
| life_dtor: "life_reach h s \<Longrightarrow> RPCServer_dtor s = Some s' \<Longrightarrow> life_reach h s'"

section \<open>Properties\<close>

subsection \<open>Binding\<close>

text \<open>
  Binding an IPv4 address binds it as the TCP server does and remembers the port, which is the one announced to the registry;
  binding any other address dereferences a null pointer.
\<close>

theorem RPCServer_bind_ipv4:
  "RPCServer_bind en iom address k h w =
     (case address of
        NetAddress (IPv4Address a) \<Rightarrow>
          (case tcp_bind_addr en iom address k (rh_tcp h) w of
             Inl f \<Rightarrow> Inl f
           | Inr (ok, tcp, w') \<Rightarrow> Inr (ok, h\<lparr>rh_port := IPv4_getPort a, rh_tcp := tcp\<rparr>, w'))
      | _ \<Rightarrow> Inl NullDeref)"
  by (auto simp: RPCServer_bind_def split: sock_address.split address.split sum.split)

subsection \<open>Destruction\<close>

lemma opt_bind_Some: "opt_bind m f = Some (Inr r) \<longleftrightarrow> (\<exists>x. m = Some (Inr x) \<and> f x = Some (Inr r))"
  by (cases "(m, f)" rule: opt_bind.cases) auto

lemma host_starts_cleaners: "host_starts conn send recv n h \<Longrightarrow> rh_cleaners h = n \<and> \<not> rh_stop_clean h"
proof (induction rule: host_starts.induct)
  case (host_bind n h en iom addr k w ok h' w')
  then show ?case by (auto simp: RPCServer_bind_def Let_def split: sock_address.splits address.splits)
next
  case (host_connect n h en iom k fill addr w v ok h' w' v')
  then show ?case by (auto simp: connectRegistry_def opt_bind_Some Let_def split: if_splits)
next
  case (host_heart n h fill v h' v')
  then show ?case by (auto simp: registry_heartbeat_def opt_bind_Some split: option.splits)
next
  case (host_start n h en iom k fill code0 a now heartbeat names w v ok h' w' v')
  then show ?case by (auto simp: RPCServer_start_def opt_bind_Some split: option.splits if_splits prod.splits)
qed (simp_all add: new_RPCServer_def)

text \<open>With at most one clean-up fiber, \<open>cs\<close> being the list of them.\<close>

definition life_inv :: "life \<Rightarrow> bool" where
  "life_inv s \<longleftrightarrow> (let cs = lf_cleaners s in
     lf_channel s + of_bool (lf_dtor s = DtorPopped \<or> lf_dtor s = Destroyed) =
       of_bool (cs = [CleanPushed] \<or> cs = [CleanUnlock] \<or> cs = [CleanDone]) \<and>
     (lf_guard s \<longleftrightarrow> cs = [CleanUnlock]) \<and> (lf_mutex s \<longleftrightarrow> cs = [CleanPushed] \<or> lf_dtor s = DtorPopped) \<and>
     (lf_dtor s = DtorPopped \<longrightarrow> cs \<noteq> [CleanPushed]) \<and> (lf_dtor s = Destroyed \<longrightarrow> cs = [CleanDone]))"

lemma life_reach_inv:
  "life_reach h s \<Longrightarrow> rh_cleaners h \<le> 1 \<Longrightarrow> length (lf_cleaners s) = rh_cleaners h \<and> life_inv s"
proof (induction rule: life_reach.induct)
  case life_init
  then show ?case by (auto simp: life_of_def life_inv_def le_Suc_eq)
next
  case (life_clean s alive i s')
  have i: "i < length (lf_cleaners s)" "lf_cleaners s ! i \<noteq> CleanDone" "lf_dtor s \<noteq> Destroyed"
    using life_clean(2) unfolding clean_step_def by (metis not_le option.distinct(1) option.inject sum.distinct(1))+
  have "length (lf_cleaners s) = 1" "i = 0" using i(1) life_clean(3,4) by auto
  then obtain p where p: "lf_cleaners s = [p]" "i = 0" "p \<noteq> CleanDone" "lf_dtor s \<noteq> Destroyed"
    using i(2,3) by (auto simp: length_Suc_conv)
  then show ?case using life_clean
    by (cases p) (auto simp: clean_step_def life_inv_def Let_def split: if_splits)
next
  case (life_dtor s s')
  then show ?case by (cases "lf_dtor s") (auto simp: RPCServer_dtor_def life_inv_def Let_def of_bool_def split: if_splits)
qed

text \<open>One fiber runs to its end, and the destructor returns.\<close>

lemma destroyed_reached:
  assumes "rh_cleaners h = Suc m" "\<not> rh_stop_clean h"
  shows "\<exists>s. life_reach h s \<and> lf_dtor s = Destroyed \<and> lf_cleaners s = CleanDone # replicate m CleanTest"
proof -
  let ?s1 = "(life_of h)\<lparr>lf_stop := True, lf_dtor := DtorWaits\<rparr>" and ?c = "replicate m CleanTest"
  let ?s2 = "?s1\<lparr>lf_cleaners := CleanPush # ?c\<rparr>"
  let ?s3 = "?s2\<lparr>lf_cleaners := CleanPushed # ?c, lf_mutex := True, lf_channel := 1\<rparr>"
  let ?s4 = "?s3\<lparr>lf_cleaners := CleanUnlock # ?c, lf_guard := True, lf_mutex := False\<rparr>"
  let ?s5 = "?s4\<lparr>lf_cleaners := CleanDone # ?c, lf_guard := False\<rparr>"
  let ?s6 = "?s5\<lparr>lf_mutex := True, lf_channel := 0, lf_dtor := DtorPopped\<rparr>"
  let ?s7 = "?s6\<lparr>lf_mutex := False, lf_dtor := Destroyed\<rparr>"
  note defs = clean_step_def RPCServer_dtor_def life_of_def assms Let_def
  have "life_reach h ?s1" by (rule life_dtor [OF life_init]) (simp add: defs)
  then have "life_reach h ?s2" by (rule life_clean [of _ _ _ 0]) (simp add: defs)
  then have "life_reach h ?s3" by (rule life_clean [of _ _ _ 0]) (simp add: defs)
  then have "life_reach h ?s4" by (rule life_clean [of _ _ _ 0]) (simp add: defs)
  then have "life_reach h ?s5" by (rule life_clean [of _ _ _ 0]) (simp add: defs)
  then have "life_reach h ?s6" by (rule life_dtor) (simp add: defs)
  then have "life_reach h ?s7" by (rule life_dtor) (simp add: defs)
  then show ?thesis by (intro exI [of _ ?s7]) simp
qed

text \<open>
  C38. The destructor of a server, run by a fiber, is right only for one that was started exactly once. Never started, it never gets past the
  channel. Started once, it can return, and no execution touches freed memory: the fiber's last access to the channel is giving back
  the guard of the mutex, which the destructor needs. Started again, for
  instance after \<open>stop\<close>, \<open>start\<close> has submitted another clean-up fiber, and there is an execution in which this one works on the destroyed server.
\<close>

theorem server_destruction:
  assumes "host_starts conn send recv n h"
  shows "(n = 0 \<longrightarrow> (\<forall>s. life_reach h s \<longrightarrow> lf_dtor s \<noteq> Destroyed)) \<and>
    (n = 1 \<longrightarrow> (\<exists>s. life_reach h s \<and> lf_dtor s = Destroyed) \<and>
       (\<forall>s alive i. life_reach h s \<longrightarrow> clean_step alive i s \<noteq> Some (Inl WildPointer))) \<and>
    (2 \<le> n \<longrightarrow> (\<exists>s i. life_reach h s \<and> clean_step alive i s = Some (Inl WildPointer)))"
proof (intro conjI impI allI)
  note n = host_starts_cleaners [OF assms]
  fix s
  assume "n = 0" "life_reach h s"
  with life_reach_inv [OF this(2)] n show "lf_dtor s \<noteq> Destroyed" by (auto simp: life_inv_def)
next
  assume "n = 1"
  with destroyed_reached [of h 0] host_starts_cleaners [OF assms]
  show "\<exists>s. life_reach h s \<and> lf_dtor s = Destroyed" by auto
next
  fix s i and alive :: "nat \<Rightarrow> bool"
  assume "n = 1" "life_reach h s"
  with life_reach_inv [OF this(2)] host_starts_cleaners [OF assms]
  have "length (lf_cleaners s) = 1" "lf_dtor s = Destroyed \<longrightarrow> lf_cleaners s = [CleanDone]" by (auto simp: life_inv_def Let_def)
  then show "clean_step alive i s \<noteq> Some (Inl WildPointer)"
    by (cases "lf_dtor s = Destroyed"; cases i) (auto simp: clean_step_def Let_def split: clean_pc.splits)
next
  assume "2 \<le> n"
  then obtain m where "rh_cleaners h = Suc (Suc m)" "\<not> rh_stop_clean h"
    using host_starts_cleaners [OF assms] that [of "n - 2"] by simp
  from destroyed_reached [OF this] obtain s where "life_reach h s" "lf_dtor s = Destroyed" "lf_cleaners s = CleanDone # replicate (Suc m) CleanTest"
    by blast
  then show "\<exists>s i. life_reach h s \<and> clean_step alive i s = Some (Inl WildPointer)"
    by (intro exI [of _ s] exI [of _ 1]) (simp add: clean_step_def)
qed

theorem server_destruction_witness:
  "\<exists>h s i. RPCServer_start True True granting_kernel (\<lambda>_ _. 7) 0 (\<lambda>_ :: nat. True) (\<lambda>v bs. (0, v)) (\<lambda>v n. (0, [], v)) 4 10 1 []
      ((new_RPCServer 0 new_TimerManager)\<lparr>rh_cleaners := 1, rh_tcp := snd (tcp_start new_TCPServer)\<rparr>) empty_world 0 = Some (Inr (True, h, empty_world, 0)) \<and>
    life_reach h s \<and> clean_step (\<lambda>_. True) i s = Some (Inl WildPointer)"
proof -
  let ?start = "\<lambda>h. RPCServer_start True True granting_kernel (\<lambda>_ _. 7) 0 (\<lambda>_ :: nat. True) (\<lambda>v bs. (0, v)) (\<lambda>v n. (0, [], v)) 4 10 1 [] h empty_world 0"
  let ?starts = "host_starts (\<lambda>_ :: nat. True) (\<lambda>v bs. (0, v)) (\<lambda>v n. (0, [], v))"
  let ?h0 = "new_RPCServer 0 new_TimerManager"
  let ?h1 = "?h0\<lparr>rh_cleaners := 1, rh_tcp := snd (tcp_start new_TCPServer)\<rparr>"
  have h1: "?start ?h0 = Some (Inr (True, ?h1, empty_world, 0))"
    by (simp add: RPCServer_start_def new_RPCServer_def tcp_start_def new_TCPServer_def)
  obtain h2 where h2: "?start ?h1 = Some (Inr (True, h2, empty_world, 0))"
    by (simp add: RPCServer_start_def new_RPCServer_def tcp_start_def new_TCPServer_def)
  have "?starts (Suc 0) ?h1" by (rule host_start [OF host_new h1])
  then have "?starts (Suc (Suc 0)) h2" by (rule host_start [OF _ h2])
  from server_destruction [OF this, of "\<lambda>_. True"] h2 show ?thesis by auto
qed

subsection \<open>Going online\<close>

text \<open>The answers to the registrations of the services \<open>names\<close> from the address \<open>pa\<close>.\<close>

definition register_reply :: "bytes \<Rightarrow> protocol" where
  "register_reply name = Create RPC_SERVICE_DISCOVER_RESPONSE (vint.enc_string (lit ''success'') @ vint.enc_string name) 0"

lemma registry_serve_register:
  assumes "\<forall>n \<in> set names. length n < 1000" "length clocks = length names" "tm_obj tm a \<noteq> None"
  shows "\<exists>rg' tm'. registry_serve fill val0 alive a aliveTime remote session
      (zip clocks (map (\<lambda>n. Some (registerService_request n)) names)) (rg, Some pa, tm, Some a) =
      Inr (map register_reply names, rg', Some pa, tm', Some a) \<and>
    (\<forall>n. services_of rg' n = services_of rg n @ replicate (count_list names n) (IPv4_insert pa))"
  using assms
proof (induction names arbitrary: clocks rg tm)
  case Nil
  then show ?case by simp
next
  case (Cons name names)
  obtain now ts where t: "clocks = now # ts" "length ts = length names" using Cons.prems(2) by (cases clocks) auto
  obtain tm1 where u: "update tm a now aliveTime (Some a) session = Inr (Some a, tm1)" "tm_obj tm1 a \<noteq> None"
    using update_kept [OF Cons.prems(3)] by blast
  let ?rg = "rg_add rg name (IPv4_insert pa)"
  have content: "p_content (registerService_request name) = name" by (simp add: registerService_request_def)
  have r: "\<exists>sends. registry_round fill val0 alive a now aliveTime remote session (rg, Some pa, tm, Some a)
      (Some (registerService_request name)) = Inr (Inr (Some (register_reply name), sends), ?rg, Some pa, tm1, Some a)"
    using u(1) handleServiceRegister_eq [of "registerService_request name" pa fill alive rg, unfolded content,
        OF register_lengths(1) register_lengths(2)] Cons.prems(1)
    by (simp add: registry_round_def register_reply_def) (simp add: registerService_request_def)
  obtain rg' tm' where "registry_serve fill val0 alive a aliveTime remote session
      (zip ts (map (\<lambda>n. Some (registerService_request n)) names)) (?rg, Some pa, tm1, Some a) =
      Inr (map register_reply names, rg', Some pa, tm', Some a)"
    "\<forall>n. services_of rg' n = services_of ?rg n @ replicate (count_list names n) (IPv4_insert pa)"
    using Cons.IH [OF _ t(2) u(2), of ?rg] Cons.prems(1) by auto
  then show ?case using r t(1) by (fastforce simp: services_of_add)
qed

lemma IPv4_getPort_u16: "ucast (ucast (IPv4_getPort a) :: u16) = IPv4_getPort a"
  unfolding IPv4_getPort_def by (rule bit_word_eqI) (auto simp: bit_simps dest: bit_imp_le_length)

text \<open>
  A server goes online: after it was bound to an IPv4 address, the messages that \<open>connectRegistry\<close> and the registrations of
  its services send are handled by the registry's loop without a fault. Each registration is answered with success and
  the name of the service, and afterwards each service of the server, and no other, has one more provider, with the server's
  host as the registry sees it and the port the server was bound to.
\<close>

lemma service_online:
  assumes "RPCServer_bind en iom (NetAddress (IPv4Address la)) k h w = Inr (True, h', w')"
    "distinct names" "\<forall>n \<in> set names. length n < 1000" "length clocks = Suc (length names)"
  shows "\<exists>msg addr rg' tm'. connectRegistry_message fill (rh_port h') = Inr msg \<and>
    registry_handleClient fill' val0 alive a now aliveTime remote session
      (zip clocks (Some msg # map (\<lambda>n. Some (registerService_request n)) names)) rg tm =
      Inr (map register_reply names, rg', Some addr, tm', Some a) \<and>
    sin_addr addr = sin_addr remote \<and> IPv4_getPort addr = IPv4_getPort la \<and>
    (\<forall>n. services_of rg' n = services_of rg n @ (if n \<in> set names then [IPv4_insert addr] else [])) \<and>
    (\<forall>n \<in> set names. registerService_result fill'' code0 (Some (register_reply n)) =
      Inr (Some \<lparr>r_code = code0, r_msg = lit ''success'', r_val = VString n\<rparr>))"
proof -
  have port: "rh_port h' = IPv4_getPort la" using assms(1) by (auto simp: RPCServer_bind_def)
  obtain msg addr where msg: "connectRegistry_message fill (rh_port h') = Inr msg" "getMsgType msg = Some RPC_PROVIDER"
    "handleProvider fill' msg remote = Inr addr" "sin_addr addr = sin_addr remote" "IPv4_getPort addr = IPv4_getPort la"
    using provider_port [of fill "rh_port h'" fill' remote] by (auto simp: port IPv4_getPort_u16)
  obtain t ts where ts: "clocks = t # ts" "length ts = length names" using assms(4) by (cases clocks) auto
  obtain tm1 where u1: "update tm a now aliveTime None session = Inr (Some a, tm1)" "tm_obj tm1 a \<noteq> None"
    using update_first by blast
  obtain tm2 where u2: "update tm1 a t aliveTime (Some a) session = Inr (Some a, tm2)" "tm_obj tm2 a \<noteq> None"
    using update_kept [OF u1(2)] by blast
  obtain rg' tm' where serve: "registry_serve fill' val0 alive a aliveTime remote session
      (zip ts (map (\<lambda>n. Some (registerService_request n)) names)) (rg, Some addr, tm2, Some a) =
      Inr (map register_reply names, rg', Some addr, tm', Some a)"
    "\<forall>n. services_of rg' n = services_of rg n @ replicate (count_list names n) (IPv4_insert addr)"
    using registry_serve_register [OF assms(3) ts(2) u2(2)] by blast
  have "registry_handleClient fill' val0 alive a now aliveTime remote session
      (zip clocks (Some msg # map (\<lambda>n. Some (registerService_request n)) names)) rg tm =
      Inr (map register_reply names, rg', Some addr, tm', Some a)"
    using u1(1) u2(1) msg(2,3) serve(1) ts(1) by (simp add: registry_handleClient_def registry_round_def)
  moreover have "replicate (count_list names n) x = (if n \<in> set names then [x] else [])" for n and x :: bytes
    using assms(2) by (induction names) auto
  moreover have "\<forall>n \<in> set names. registerService_result fill'' code0 (Some (register_reply n)) =
      Inr (Some \<lparr>r_code = code0, r_msg = lit ''success'', r_val = VString n\<rparr>)"
    using assms(3) by (auto simp: register_reply_def registerService_result_eq string_max_size_def)
  ultimately show ?thesis using msg serve(2) by (intro exI conjI) (assumption | simp)+
qed

end
