(* ===== verification/Log.thy ===== *)
theory Log
  imports Prelude
begin

text \<open>
  Logging (\<open>include/log.h\<close>, \<open>src/log.cc\<close>): levels, the pattern language of the formatter, appenders, loggers
  and their manager.

  Text is of type \<open>string\<close>. \<open>strftime\<close> is a parameter, a function of the pattern and the time
  stamp whose results fit the buffer of 64 bytes. Standard output and the files are part of the state
  that the calls return.
\<close>

section \<open>Levels\<close>

datatype level = DEBUG | INFO | WARN | ERROR | FATAL | UNKNOW

fun level_num :: "level \<Rightarrow> nat" where
  "level_num DEBUG = 0"
| "level_num INFO = 1"
| "level_num WARN = 2"
| "level_num ERROR = 3"
| "level_num FATAL = 4"
| "level_num UNKNOW = 5"

lemma level_num_inj: "level_num a = level_num b \<longleftrightarrow> a = b"
  by (cases a; cases b) simp_all

instantiation level :: linorder
begin

definition less_eq_level :: "level \<Rightarrow> level \<Rightarrow> bool" where
  "less_eq_level a b \<longleftrightarrow> level_num a \<le> level_num b"

definition less_level :: "level \<Rightarrow> level \<Rightarrow> bool" where
  "less_level a b \<longleftrightarrow> level_num a < level_num b"

instance
  by standard (auto simp: less_eq_level_def less_level_def level_num_inj)

end

fun LevelToString :: "level \<Rightarrow> string" where
  "LevelToString DEBUG = ''DEBUG''"
| "LevelToString INFO = ''INFO''"
| "LevelToString WARN = ''WARN''"
| "LevelToString ERROR = ''ERROR''"
| "LevelToString FATAL = ''FATAL''"
| "LevelToString UNKNOW = ''UNKOWN''"

definition StringToLevel :: "string \<Rightarrow> level" where
  "StringToLevel s =
     (if s = ''DEBUG'' \<or> s = ''debug'' then DEBUG
      else if s = ''INFO'' \<or> s = ''info'' then INFO
      else if s = ''WARN'' \<or> s = ''warn'' then WARN
      else if s = ''ERROR'' \<or> s = ''error'' then ERROR
      else if s = ''FATAL'' \<or> s = ''fatal'' then FATAL
      else UNKNOW)"

section \<open>Events\<close>

text \<open>\<open>le_logger\<close> is a shared pointer to a logger, which may be null.\<close>

record log_event =
  le_logger :: "nat option"
  le_level :: level
  le_file :: string
  le_line :: u32
  le_timestamp :: u32
  le_thread_id :: u32
  le_fiber_id :: u32
  le_thread_name :: string
  le_content :: string

definition new_LogEvent :: "nat option \<Rightarrow> level \<Rightarrow> string \<Rightarrow> u32 \<Rightarrow> u32 \<Rightarrow> u32 \<Rightarrow> u32 \<Rightarrow> string \<Rightarrow> log_event" where
  "new_LogEvent logger level file line timestamp thread_id fiber_id thread_name =
     \<lparr>le_logger = logger, le_level = level, le_file = file, le_line = line, le_timestamp = timestamp,
      le_thread_id = thread_id, le_fiber_id = fiber_id, le_thread_name = thread_name, le_content = []\<rparr>"

text \<open>\<open>format\<close>: the text that \<open>vasprintf\<close> gives, if it does not fail, is appended.\<close>

definition LogEvent_format :: "string option \<Rightarrow> log_event \<Rightarrow> log_event" where
  "LogEvent_format printed ev =
     (case printed of None \<Rightarrow> ev | Some s \<Rightarrow> ev\<lparr>le_content := le_content ev @ s\<rparr>)"

section \<open>Format items\<close>

datatype format_item = DateTimeItem string | StringItem string | LevelItem | TabItem | LogNameItem
  | ThreadIdItem | ThreadNameItem | FileNameItem | LineItem | MessageItem | NewLineItem | FiberIdItem

definition default_time :: string where
  "default_time = ''%Y-%m-%d %H:%M:%S''"

definition DataTimeFormatItem :: "string \<Rightarrow> format_item" where
  "DataTimeFormatItem pattern = DateTimeItem (if pattern = [] then default_time else pattern)"

definition dec_string :: "u32 \<Rightarrow> string" where
  "dec_string n = map (\<lambda>b. char_of (unat b)) (dec (unat n))"

definition tab :: string where "tab = [CHR 0x09]"
definition newline :: string where "newline = [CHR 0x0A]"

text \<open>
  What each item writes. The level is the one the appender was called with; \<open>nm\<close> is \<open>getName\<close> of what a pointer to a logger leads
  to, and faults on a null pointer.
\<close>

fun item_format :: "(string \<Rightarrow> u32 \<Rightarrow> string) \<Rightarrow> (nat option \<Rightarrow> string res) \<Rightarrow> level \<Rightarrow> log_event \<Rightarrow> format_item \<Rightarrow> string res" where
  "item_format strftime nm level ev (DateTimeItem p) = Inr (strftime p (le_timestamp ev))"
| "item_format strftime nm level ev (StringItem s) = Inr s"
| "item_format strftime nm level ev LevelItem = Inr (LevelToString level)"
| "item_format strftime nm level ev TabItem = Inr tab"
| "item_format strftime nm level ev LogNameItem = nm (le_logger ev)"
| "item_format strftime nm level ev ThreadIdItem = Inr (dec_string (le_thread_id ev))"
| "item_format strftime nm level ev ThreadNameItem = Inr (le_thread_name ev)"
| "item_format strftime nm level ev FileNameItem = Inr (le_file ev)"
| "item_format strftime nm level ev LineItem = Inr (dec_string (le_line ev))"
| "item_format strftime nm level ev MessageItem = Inr (le_content ev)"
| "item_format strftime nm level ev NewLineItem = Inr newline"
| "item_format strftime nm level ev FiberIdItem = Inr (dec_string (le_fiber_id ev))"

text \<open>The texts one after the other, up to a fault.\<close>

fun concatE :: "string res list \<Rightarrow> string res" where
  "concatE [] = Inr []"
| "concatE (t # ts) = bindE t (\<lambda>s. bindE (concatE ts) (\<lambda>s'. Inr (s @ s')))"

definition LogFormatter_format ::
  "(string \<Rightarrow> u32 \<Rightarrow> string) \<Rightarrow> (nat option \<Rightarrow> string res) \<Rightarrow> format_item list \<Rightarrow> level \<Rightarrow> log_event \<Rightarrow> string res" where
  "LogFormatter_format strftime nm items level ev = concatE (map (item_format strftime nm level ev) items)"

section \<open>Patterns\<close>

definition itemMap :: "char \<Rightarrow> format_item option" where
  "itemMap = [CHR ''d'' \<mapsto> DataTimeFormatItem [], CHR ''T'' \<mapsto> TabItem, CHR ''p'' \<mapsto> LevelItem, CHR ''c'' \<mapsto> LogNameItem,
     CHR ''t'' \<mapsto> ThreadIdItem, CHR ''N'' \<mapsto> ThreadNameItem, CHR ''f'' \<mapsto> FileNameItem, CHR ''l'' \<mapsto> LineItem,
     CHR ''m'' \<mapsto> MessageItem, CHR ''n'' \<mapsto> NewLineItem, CHR ''F'' \<mapsto> FiberIdItem]"

text \<open>
  The loop of \<open>LogFormatter::init\<close>, on the rest of the pattern; the characters outside of items are collected in a
  local string that nothing reads. After an unclosed brace the loop goes on behind the character that
  follows the brace.
\<close>

function (sequential) init_loop :: "string \<Rightarrow> format_item list" where
  "init_loop [] = []"
| "init_loop (c # cs) =
     (if c \<noteq> CHR ''%'' then init_loop cs
      else case cs of
        [] \<Rightarrow> [StringItem ''<error format %>'']
      | x # cs' \<Rightarrow>
          if x \<noteq> CHR ''d'' then
            (case itemMap x of
               Some item \<Rightarrow> item
             | None \<Rightarrow> StringItem (''<error format %'' @ [x] @ ''>'')) # init_loop cs'
          else (case cs' of
              [] \<Rightarrow> []
            | y # ds \<Rightarrow>
                if y \<noteq> CHR ''{'' then DataTimeFormatItem [] # init_loop (y # ds)
                else (case ds of
                    [] \<Rightarrow> [StringItem ''<error format %>'']
                  | _ # ds' \<Rightarrow>
                      if CHR ''}'' \<in> set ds
                      then DataTimeFormatItem (takeWhile (\<lambda>z. z \<noteq> CHR ''}'') ds) #
                        init_loop (tl (dropWhile (\<lambda>z. z \<noteq> CHR ''}'') ds))
                      else StringItem (''<error format %d{'' @ ds @ '' >'') # init_loop ds')))"
  by pat_completeness auto
termination
proof (relation "measure length")
  have shorter: "length (dropWhile P xs) \<le> k" if "length xs \<le> k" for P :: "char \<Rightarrow> bool" and xs k
    using that length_dropWhile_le [of P xs] by linarith
  show "(tl (dropWhile (\<lambda>z. z \<noteq> CHR ''}'') ds), c # cs) \<in> measure length"
    if "\<not> c \<noteq> CHR ''%''" "cs = x # cs'" "\<not> x \<noteq> CHR ''d''" "cs' = y # ds" for c cs x cs' y ds
    using that shorter [of ds "Suc (Suc (length ds))"] by (auto simp: less_Suc_eq_le intro: le_trans [OF diff_le_self] shorter)
qed auto

declare init_loop.simps [simp del]

definition new_LogFormatter :: "string \<Rightarrow> format_item list" where
  "new_LogFormatter pattern = init_loop pattern"

definition default_pattern :: string where
  "default_pattern = ''%d{%Y-%m-%d:%H:%M:%S}%T[ %p%T]%T[%c]%T%t%T%N%T%F%T%T%f:%l%T%m%n''"

section \<open>Appenders\<close>

text \<open>
  An appender of either class; the stream of a file appender is open or not and good or failed, and \<open>last_time_\<close> has
  no initialiser. Environment: \<open>strftime\<close>, which files can be opened, and \<open>time(0)\<close>.
\<close>

record ofstream =
  of_open :: bool
  of_good :: bool

datatype appender_class = StdOutLogAppender | FileLogAppender (fa_filename: string) (fa_stream: ofstream) (fa_last_time: u64)

record appender =
  ap_class :: appender_class
  ap_level :: level
  ap_formater :: "format_item list option"

record log_env =
  env_strftime :: "string \<Rightarrow> u32 \<Rightarrow> string"
  env_openable :: "string \<Rightarrow> bool"
  env_time :: u64

definition new_StdOutLogAppender :: appender where
  "new_StdOutLogAppender = \<lparr>ap_class = StdOutLogAppender, ap_level = DEBUG, ap_formater = None\<rparr>"

definition new_FileLogAppender :: "u64 \<Rightarrow> string \<Rightarrow> appender" where
  "new_FileLogAppender garbage filename =
     \<lparr>ap_class = FileLogAppender filename \<lparr>of_open = False, of_good = True\<rparr> garbage, ap_level = DEBUG, ap_formater = None\<rparr>"

definition setFormatter :: "format_item list option \<Rightarrow> appender \<Rightarrow> appender" where
  "setFormatter formater a = a\<lparr>ap_formater := formater\<rparr>"

definition esc :: "string \<Rightarrow> string" where
  "esc s = CHR 0x1B # ''['' @ s"

fun log_color :: "level \<Rightarrow> string" where
  "log_color DEBUG = esc ''34m''"
| "log_color WARN = esc ''33m''"
| "log_color ERROR = esc ''31m''"
| "log_color FATAL = esc ''31m''"
| "log_color INFO = []"
| "log_color UNKNOW = []"

definition StdOutLogAppender_Log ::
  "log_env \<Rightarrow> (nat option \<Rightarrow> string res) \<Rightarrow> level \<Rightarrow> log_event \<Rightarrow> appender \<Rightarrow> string \<Rightarrow> string res" where
  "StdOutLogAppender_Log env nm level ev a out =
     (if level < ap_level a then Inr out
      else case ap_formater a of
        None \<Rightarrow> Inl NullDeref
      | Some items \<Rightarrow>
          bindE (LogFormatter_format (env_strftime env) nm items level ev) (\<lambda>formatted.
          Inr (out @ log_color level @ formatted @ esc ''0m'' @ newline)))"

text \<open>
  \<open>FileLogAppender::reopen\<close>: a good stream is closed; opening fails on a stream that is still open, and otherwise
  truncates the file.
\<close>

definition reopen :: "log_env \<Rightarrow> string \<Rightarrow> ofstream \<Rightarrow> (string \<rightharpoonup> string) \<Rightarrow> bool \<times> ofstream \<times> (string \<rightharpoonup> string)" where
  "reopen env filename stream files =
     (if of_open stream \<and> \<not> of_good stream \<or> \<not> env_openable env filename
      then (False, \<lparr>of_open = of_open stream \<and> \<not> of_good stream, of_good = False\<rparr>, files)
      else (True, \<lparr>of_open = True, of_good = True\<rparr>, files(filename \<mapsto> [])))"

text \<open>The formatted line of a file appender is discarded.\<close>

definition FileLogAppender_Log ::
  "log_env \<Rightarrow> (nat option \<Rightarrow> string res) \<Rightarrow> level \<Rightarrow> log_event \<Rightarrow> appender \<Rightarrow> (string \<rightharpoonup> string) \<Rightarrow> (appender \<times> (string \<rightharpoonup> string)) res" where
  "FileLogAppender_Log env nm level ev a files =
     (case ap_class a of
        StdOutLogAppender \<Rightarrow> Inr (a, files)
      | FileLogAppender filename stream last_time \<Rightarrow>
          if level < ap_level a then Inr (a, files)
          else
            let (a', files') =
              (if last_time + 3 < env_time env
               then let (ok, stream', files') = reopen env filename stream files
                    in (a\<lparr>ap_class := FileLogAppender filename stream' (env_time env)\<rparr>, files')
               else (a, files))
            in case ap_formater a of
                 None \<Rightarrow> Inl NullDeref
               | Some items \<Rightarrow>
                   bindE (LogFormatter_format (env_strftime env) nm items level ev) (\<lambda>formatted. Inr (a', files')))"

section \<open>Loggers\<close>

text \<open>
  Loggers and appenders are shared objects, addressed by their position in the lists of the world.
\<close>

record logger =
  lg_name :: string
  lg_level :: level
  lg_appenders :: "nat list"
  lg_root :: "nat option"
  lg_formater :: "format_item list"

record log_world =
  lw_loggers :: "logger list"
  lw_appenders :: "appender list"
  lw_stdout :: string
  lw_files :: "string \<rightharpoonup> string"

definition new_Logger :: "string \<Rightarrow> logger" where
  "new_Logger logger_name = \<lparr>lg_name = logger_name, lg_level = DEBUG, lg_appenders = [], lg_root = None,
     lg_formater = new_LogFormatter default_pattern\<rparr>"

definition getName :: "log_world \<Rightarrow> nat option \<Rightarrow> string res" where
  "getName w p =
     (case p of None \<Rightarrow> Inl NullDeref
      | Some p \<Rightarrow> if p < length (lw_loggers w) then Inr (lg_name (lw_loggers w ! p)) else Inl WildPointer)"

definition appender_Log :: "log_env \<Rightarrow> level \<Rightarrow> log_event \<Rightarrow> nat \<Rightarrow> log_world \<Rightarrow> log_world res" where
  "appender_Log env level ev a w =
     (if length (lw_appenders w) \<le> a then Inl WildPointer
      else case ap_class (lw_appenders w ! a) of
        StdOutLogAppender \<Rightarrow>
          bindE (StdOutLogAppender_Log env (getName w) level ev (lw_appenders w ! a) (lw_stdout w))
            (\<lambda>out. Inr (w\<lparr>lw_stdout := out\<rparr>))
      | FileLogAppender f s t \<Rightarrow>
          bindE (FileLogAppender_Log env (getName w) level ev (lw_appenders w ! a) (lw_files w))
            (\<lambda>(ap, files). Inr (w\<lparr>lw_appenders := (lw_appenders w)[a := ap], lw_files := files\<rparr>)))"

fun appender_loop :: "log_env \<Rightarrow> level \<Rightarrow> log_event \<Rightarrow> nat list \<Rightarrow> log_world \<Rightarrow> log_world res" where
  "appender_loop env level ev [] w = Inr w"
| "appender_loop env level ev (a # as) w =
     bindE (appender_Log env level ev a w) (appender_loop env level ev as)"

text \<open>
  \<open>Logger::Log\<close>. A logger without appenders calls its root with its own mutex held, so a call that comes back to a logger of the
  chain never returns (\<open>None\<close>).
\<close>

partial_function (option) Logger_Log :: "log_env \<Rightarrow> nat \<Rightarrow> level \<Rightarrow> log_event \<Rightarrow> log_world \<Rightarrow> log_world res option" where
  "Logger_Log env p level ev w =
     (if length (lw_loggers w) \<le> p then Some (Inl WildPointer)
      else if level < lg_level (lw_loggers w ! p) then Some (Inr w)
      else if lg_appenders (lw_loggers w ! p) = []
      then (case lg_root (lw_loggers w ! p) of
          None \<Rightarrow> Some (Inl NullDeref)
        | Some r \<Rightarrow> Logger_Log env r level ev w)
      else Some (appender_loop env level ev (lg_appenders (lw_loggers w ! p)) w))"

definition Logger_Info :: "log_env \<Rightarrow> nat \<Rightarrow> log_event \<Rightarrow> log_world \<Rightarrow> log_world res option" where
  "Logger_Info env p ev w = Logger_Log env p INFO ev w"

definition Logger_Debug :: "log_env \<Rightarrow> nat \<Rightarrow> log_event \<Rightarrow> log_world \<Rightarrow> log_world res option" where
  "Logger_Debug env p ev w = Logger_Log env p DEBUG ev w"

definition Logger_Warn :: "log_env \<Rightarrow> nat \<Rightarrow> log_event \<Rightarrow> log_world \<Rightarrow> log_world res option" where
  "Logger_Warn env p ev w = Logger_Log env p WARN ev w"

definition Logger_Error :: "log_env \<Rightarrow> nat \<Rightarrow> log_event \<Rightarrow> log_world \<Rightarrow> log_world res option" where
  "Logger_Error env p ev w = Logger_Log env p ERROR ev w"

definition Logger_Fatal :: "log_env \<Rightarrow> nat \<Rightarrow> log_event \<Rightarrow> log_world \<Rightarrow> log_world res option" where
  "Logger_Fatal env p ev w = Logger_Log env p FATAL ev w"

definition AddAppender :: "nat option \<Rightarrow> logger \<Rightarrow> logger" where
  "AddAppender a lg = (case a of None \<Rightarrow> lg | Some a \<Rightarrow> lg\<lparr>lg_appenders := lg_appenders lg @ [a]\<rparr>)"

text \<open>
  The destructor of \<open>LogEventWrap\<close> logs the event through its logger; the flag says that the process exits.
\<close>

definition LogEventWrap_dtor :: "log_env \<Rightarrow> log_event \<Rightarrow> log_world \<Rightarrow> (bool \<times> log_world) res option" where
  "LogEventWrap_dtor env ev w =
     (case le_logger ev of
        None \<Rightarrow> Some (Inl NullDeref)
      | Some p \<Rightarrow> map_option (\<lambda>r. bindE r (\<lambda>w'. Inr (le_level ev = FATAL, w'))) (Logger_Log env p (le_level ev) ev w))"

text \<open>
  The macro \<open>RPC_LOG_LEVEL\<close>, with the text that its caller streams into the event; \<open>t\<close>, \<open>tid\<close>, \<open>fid\<close> and \<open>tname\<close> are what the
  calls in the macro give.
\<close>

definition RPC_LOG_LEVEL ::
  "log_env \<Rightarrow> nat \<Rightarrow> level \<Rightarrow> string \<Rightarrow> u32 \<Rightarrow> u32 \<Rightarrow> u32 \<Rightarrow> u32 \<Rightarrow> string \<Rightarrow> string \<Rightarrow> log_world \<Rightarrow> (bool \<times> log_world) res option" where
  "RPC_LOG_LEVEL env p level file line t tid fid tname streamed w =
     (if length (lw_loggers w) \<le> p then Some (Inl WildPointer)
      else if lg_level (lw_loggers w ! p) \<le> level
      then LogEventWrap_dtor env ((new_LogEvent (Some p) level file line t tid fid tname)\<lparr>le_content := streamed\<rparr>) w
      else Some (Inr (False, w)))"

section \<open>The manager\<close>

record log_manager =
  mg_map :: "string \<rightharpoonup> nat"
  mg_root :: nat

definition new_LoggerManager :: "log_world \<Rightarrow> log_manager \<times> log_world" where
  "new_LoggerManager w =
     (let root = length (lw_loggers w);
          appender = length (lw_appenders w);
          ap = setFormatter (Some (new_LogFormatter default_pattern)) new_StdOutLogAppender
      in (\<lparr>mg_map = [''root'' \<mapsto> root], mg_root = root\<rparr>,
          w\<lparr>lw_loggers := lw_loggers w @ [AddAppender (Some appender) (new_Logger ''root'')],
            lw_appenders := lw_appenders w @ [ap]\<rparr>))"

definition LoggerManager_GetInstance :: "string \<Rightarrow> log_manager \<Rightarrow> log_world \<Rightarrow> nat \<times> log_manager \<times> log_world" where
  "LoggerManager_GetInstance name m w =
     (case mg_map m name of
        Some p \<Rightarrow> (p, m, w)
      | None \<Rightarrow>
          let p = length (lw_loggers w)
          in (p, m\<lparr>mg_map := (mg_map m)(name \<mapsto> p)\<rparr>,
              w\<lparr>lw_loggers := lw_loggers w @ [(new_Logger name)\<lparr>lg_root := Some (mg_root m)\<rparr>]\<rparr>))"

section \<open>Levels and patterns\<close>

text \<open>
  Level names round trip for every level (the name of \<open>UNKNOW\<close>, which is spelled \<open>UNKOWN\<close>, is one of the
  strings that parse to it), and printing keeps the levels apart.
\<close>

theorem level_roundtrip:
  "StringToLevel (LevelToString l) = l \<and> (LevelToString l = LevelToString l' \<longleftrightarrow> l = l')"
  by (cases l; cases l') (simp_all add: StringToLevel_def)

text \<open>
  The pattern language as the header of \<open>log.h\<close> describes it: literal text, one-letter fields, and dates with a
  format. \<open>pattern_of\<close> prints such a description, \<open>piece_items\<close> are the items it stands for.
\<close>

datatype piece = Lit string | Field char | Date string

fun piece_string :: "piece \<Rightarrow> string" where
  "piece_string (Lit s) = s"
| "piece_string (Field c) = [CHR ''%'', c]"
| "piece_string (Date p) = ''%d{'' @ p @ ''}''"

definition pattern_of :: "piece list \<Rightarrow> string" where
  "pattern_of ps = concat (map piece_string ps)"

fun wf_piece :: "piece \<Rightarrow> bool" where
  "wf_piece (Lit s) \<longleftrightarrow> CHR ''%'' \<notin> set s"
| "wf_piece (Field c) \<longleftrightarrow> c \<noteq> CHR ''d'' \<and> itemMap c \<noteq> None"
| "wf_piece (Date p) \<longleftrightarrow> CHR ''}'' \<notin> set p"

fun piece_items :: "piece \<Rightarrow> format_item list" where
  "piece_items (Lit s) = []"
| "piece_items (Field c) = [the (itemMap c)]"
| "piece_items (Date p) = [DataTimeFormatItem p]"

lemma concatE_Nil: "bindE t (\<lambda>s. Inr s) = t"
  by (cases t) simp_all

lemma init_loop_Nil [simp]: "init_loop [] = []"
  by (simp add: init_loop.simps)

lemma init_loop_lit: "CHR ''%'' \<notin> set s \<Longrightarrow> init_loop (s @ rest) = init_loop rest"
  by (induction s) (auto simp: init_loop.simps)

lemma init_loop_field:
  assumes "c \<noteq> CHR ''d''" "itemMap c = Some item"
  shows "init_loop (CHR ''%'' # c # rest) = item # init_loop rest"
  using assms by (simp add: init_loop.simps)

lemma init_loop_date:
  assumes "CHR ''}'' \<notin> set p"
  shows "init_loop (''%d{'' @ p @ CHR ''}'' # rest) = DataTimeFormatItem p # init_loop rest"
proof -
  have stop: "takeWhile (\<lambda>z. z \<noteq> CHR ''}'') (p @ CHR ''}'' # rest) = p"
    "dropWhile (\<lambda>z. z \<noteq> CHR ''}'') (p @ CHR ''}'' # rest) = CHR ''}'' # rest"
    using assms by (auto simp: takeWhile_append dropWhile_append)
  obtain z zs where z: "p @ CHR ''}'' # rest = z # zs" by (cases "p @ CHR ''}'' # rest") auto
  have "CHR ''}'' \<in> set (z # zs)" unfolding z [symmetric] by simp
  then show ?thesis using stop unfolding z by (simp add: init_loop.simps(2) [of "CHR ''%''"] z)
qed

lemma init_loop_piece:
  assumes "wf_piece p"
  shows "init_loop (piece_string p @ rest) = piece_items p @ init_loop rest"
  using assms init_loop_date by (cases p) (auto simp: init_loop_lit init_loop_field)

lemma init_loop_pattern:
  "list_all wf_piece ps \<Longrightarrow> init_loop (pattern_of ps) = concat (map piece_items ps)"
  by (induction ps) (simp_all add: pattern_of_def init_loop_piece)

lemma default_pattern_pieces:
  "default_pattern = pattern_of [Date ''%Y-%m-%d:%H:%M:%S'', Field CHR ''T'', Lit ''[ '', Field CHR ''p'', Field CHR ''T'',
     Lit '']'', Field CHR ''T'', Lit ''['', Field CHR ''c'', Lit '']'', Field CHR ''T'', Field CHR ''t'', Field CHR ''T'',
     Field CHR ''N'', Field CHR ''T'', Field CHR ''F'', Field CHR ''T'', Field CHR ''T'', Field CHR ''f'', Lit '':'',
     Field CHR ''l'', Field CHR ''T'', Field CHR ''m'', Field CHR ''n'']"
  by (simp add: default_pattern_def pattern_of_def)

lemma default_items:
  "new_LogFormatter default_pattern = [DateTimeItem ''%Y-%m-%d:%H:%M:%S'', TabItem, LevelItem, TabItem, TabItem, LogNameItem,
     TabItem, ThreadIdItem, TabItem, ThreadNameItem, TabItem, FiberIdItem, TabItem, TabItem, FileNameItem, LineItem, TabItem,
     MessageItem, NewLineItem]"
  unfolding new_LogFormatter_def default_pattern_pieces
  by (subst init_loop_pattern) (simp_all add: itemMap_def DataTimeFormatItem_def)

text \<open>
  C31. A formatter built from a pattern of literal text, fields and dates prints the fields and the dates in the order of the pattern,
  each with the value of its item, and none of the literal text.
\<close>

theorem formatter_output:
  assumes "list_all wf_piece ps"
  shows "LogFormatter_format strftime nm (new_LogFormatter (pattern_of ps)) level ev =
    concatE (map (\<lambda>p. case p of
        Lit s \<Rightarrow> Inr []
      | Field c \<Rightarrow> item_format strftime nm level ev (the (itemMap c))
      | Date d \<Rightarrow> Inr (strftime (if d = [] then default_time else d) (le_timestamp ev))) ps)"
proof -
  have "concatE (map (item_format strftime nm level ev) (concat (map piece_items ps))) =
    concatE (map (\<lambda>p. case p of
        Lit s \<Rightarrow> Inr []
      | Field c \<Rightarrow> item_format strftime nm level ev (the (itemMap c))
      | Date d \<Rightarrow> Inr (strftime (if d = [] then default_time else d) (le_timestamp ev))) ps)"
    by (induction ps) (auto simp: DataTimeFormatItem_def concatE_Nil split: piece.split)
  then show ?thesis using assms by (simp add: LogFormatter_format_def new_LogFormatter_def init_loop_pattern)
qed

theorem formatter_output_witness:
  "LogFormatter_format (\<lambda>p t. p) (\<lambda>_. Inr ''root'') (new_LogFormatter ''[%p] %d{}: %m'') WARN
     ((new_LogEvent (Some 0) WARN ''a.cc'' 1 2 3 4 ''main'')\<lparr>le_content := ''hi''\<rparr>) = Inr ''WARN%Y-%m-%d %H:%M:%Shi''"
  using formatter_output [of "[Lit ''['', Field CHR ''p'', Lit ''] '', Date [], Lit '': '', Field CHR ''m'']" "\<lambda>p t. p"
      "\<lambda>_. Inr ''root''" WARN "(new_LogEvent (Some 0) WARN ''a.cc'' 1 2 3 4 ''main'')\<lparr>le_content := ''hi''\<rparr>"]
  by (simp add: pattern_of_def itemMap_def default_time_def)

text \<open>
  Malformed patterns: a final percent sign, an unknown field, an opening brace at the end and an unclosed brace give a marker; a
  pattern that ends in \<open>%d\<close> prints no date at all.
\<close>

theorem malformed_patterns:
  "new_LogFormatter ''%'' = [StringItem ''<error format %>'']"
  "itemMap c = None \<Longrightarrow> new_LogFormatter [CHR ''%'', c] = [StringItem (''<error format %'' @ [c] @ ''>'')]"
  "new_LogFormatter ''%d{'' = [StringItem ''<error format %>'']"
  "new_LogFormatter ''%d'' = []"
  by (auto simp: new_LogFormatter_def init_loop.simps itemMap_def)

section \<open>Logging through the manager\<close>

text \<open>One call of an appender: the objects keep their number, their formatters, levels and classes; standard output only grows.\<close>

definition keeps :: "log_world \<Rightarrow> log_world \<Rightarrow> bool" where
  "keeps w w' \<longleftrightarrow> lw_loggers w' = lw_loggers w \<and> length (lw_appenders w') = length (lw_appenders w) \<and>
     map ap_formater (lw_appenders w') = map ap_formater (lw_appenders w) \<and>
     map ap_level (lw_appenders w') = map ap_level (lw_appenders w) \<and>
     (\<exists>more. lw_stdout w' = lw_stdout w @ more) \<and>
     (\<forall>f. lw_files w' f = lw_files w f \<or> lw_files w' f = Some [])"

lemma keeps_refl [simp]: "keeps w w"
  by (simp add: keeps_def)

lemma keeps_trans:
  assumes "keeps u v" "keeps v w"
  shows "keeps u w"
proof -
  have "lw_files w f = lw_files u f \<or> lw_files w f = Some []" for f
    using assms unfolding keeps_def by metis
  then show ?thesis using assms unfolding keeps_def by fastforce
qed

lemma reopen_files:
  "reopen env f s files = (ok, s', files') \<Longrightarrow> files' g = files g \<or> files' g = Some []"
  by (auto simp: reopen_def split: if_splits)

lemma FileLog_keeps:
  assumes "FileLogAppender_Log env nm level ev a files = Inr (a', files')"
  shows "ap_formater a' = ap_formater a \<and> ap_level a' = ap_level a \<and> (files' f = files f \<or> files' f = Some [])"
  using assms
  by (auto simp: FileLogAppender_Log_def Let_def reopen_def split: appender_class.splits option.splits if_splits prod.splits)

lemma appender_Log_keeps:
  assumes "appender_Log env level ev a w = Inr w'"
  shows "keeps w w'"
proof (cases "ap_class (lw_appenders w ! a)")
  case StdOutLogAppender
  then show ?thesis using assms
    by (auto simp: appender_Log_def keeps_def StdOutLogAppender_Log_def split: if_splits option.splits)
next
  case (FileLogAppender f s t)
  then obtain ap files where ap: "FileLogAppender_Log env (getName w) level ev (lw_appenders w ! a) (lw_files w) = Inr (ap, files)"
    "w' = w\<lparr>lw_appenders := (lw_appenders w)[a := ap], lw_files := files\<rparr>"
    using assms by (auto simp: appender_Log_def split: if_splits)
  have same: "map g ((lw_appenders w)[a := ap]) = map g (lw_appenders w)" if "g ap = g (lw_appenders w ! a)"
    for g :: "appender \<Rightarrow> 'a"
    using that by (metis list_update_id map_update)
  show ?thesis using FileLog_keeps [OF ap(1)] ap(2) by (simp add: keeps_def same)
qed

lemma appender_loop_keeps: "appender_loop env level ev as w = Inr w' \<Longrightarrow> keeps w w'"
proof (induction as arbitrary: w)
  case (Cons a as)
  then obtain v where "appender_Log env level ev a w = Inr v" "appender_loop env level ev as v = Inr w'" by auto
  then show ?case using Cons.IH keeps_trans appender_Log_keeps by blast
qed simp

lemma Logger_Log_keeps:
  assumes "Logger_Log env p level ev w = Some (Inr w')"
  shows "keeps w w'"
proof -
  have "(Inr w' :: log_world res) = Inr v \<longrightarrow> keeps w v" for v
  proof (rule Logger_Log.raw_induct [where P = "\<lambda>env p level ev w r. r = Inr v \<longrightarrow> keeps w v"])
    fix log env p level ev w r
    assume "\<And>env p level ev w r. log env p level ev w = Some r \<Longrightarrow> r = Inr v \<longrightarrow> keeps w v"
      and "(if length (lw_loggers w) \<le> p then Some (Inl WildPointer)
        else if level < lg_level (lw_loggers w ! p) then Some (Inr w)
        else if lg_appenders (lw_loggers w ! p) = []
        then (case lg_root (lw_loggers w ! p) of None \<Rightarrow> Some (Inl NullDeref) | Some x \<Rightarrow> log env x level ev w)
        else Some (appender_loop env level ev (lg_appenders (lw_loggers w ! p)) w)) = Some r"
    then show "r = Inr v \<longrightarrow> keeps w v"
      by (auto split: if_splits option.splits intro: appender_loop_keeps)
  qed (rule assms)
  then show ?thesis by simp
qed

text \<open>
  What a program does with a manager and its loggers: it asks for loggers, creates appenders, sets their formatters, adds them and
  logs, in any order.
\<close>

definition add_appender :: "nat \<Rightarrow> nat option \<Rightarrow> log_world \<Rightarrow> log_world" where
  "add_appender p a w = w\<lparr>lw_loggers := (lw_loggers w)[p := AddAppender a (lw_loggers w ! p)]\<rparr>"

inductive log_reach :: "log_manager \<Rightarrow> log_world \<Rightarrow> bool" where
  start: "new_LoggerManager \<lparr>lw_loggers = [], lw_appenders = [], lw_stdout = [], lw_files = files\<rparr> = (m, w) \<Longrightarrow> log_reach m w"
| get: "log_reach m w \<Longrightarrow> LoggerManager_GetInstance name m w = (p, m', w') \<Longrightarrow> log_reach m' w'"
| appender: "log_reach m w \<Longrightarrow> a = new_StdOutLogAppender \<or> a = new_FileLogAppender garbage filename \<Longrightarrow>
    log_reach m (w\<lparr>lw_appenders := lw_appenders w @ [a]\<rparr>)"
| formatter: "log_reach m w \<Longrightarrow> a < length (lw_appenders w) \<Longrightarrow>
    log_reach m (w\<lparr>lw_appenders := (lw_appenders w)[a := setFormatter f (lw_appenders w ! a)]\<rparr>)"
| add: "log_reach m w \<Longrightarrow> p < length (lw_loggers w) \<Longrightarrow> (\<And>b. a = Some b \<Longrightarrow> b < length (lw_appenders w)) \<Longrightarrow>
    log_reach m (add_appender p a w)"
| log: "log_reach m w \<Longrightarrow> Logger_Log env p level ev w = Some (Inr w') \<Longrightarrow> log_reach m w'"

definition wf_logger :: "nat \<Rightarrow> nat \<Rightarrow> logger \<Rightarrow> bool" where
  "wf_logger root n lg \<longleftrightarrow> lg_level lg = DEBUG \<and> (lg_appenders lg = [] \<longrightarrow> lg_root lg = Some root) \<and>
     (\<forall>a \<in> set (lg_appenders lg). a < n)"

definition log_inv :: "log_manager \<Rightarrow> log_world \<Rightarrow> bool" where
  "log_inv m w \<longleftrightarrow> mg_root m < length (lw_loggers w) \<and> lg_appenders (lw_loggers w ! mg_root m) \<noteq> [] \<and>
     list_all (wf_logger (mg_root m) (length (lw_appenders w))) (lw_loggers w) \<and>
     list_all (\<lambda>l. l = DEBUG) (map ap_level (lw_appenders w)) \<and>
     (\<forall>p \<in> ran (mg_map m). p < length (lw_loggers w)) \<and> mg_map m ''root'' = Some (mg_root m)"

lemma wf_logger_mono: "wf_logger r n lg \<Longrightarrow> n \<le> k \<Longrightarrow> wf_logger r k lg"
  by (auto simp: wf_logger_def)

lemma log_inv_get:
  assumes "log_inv m w" "LoggerManager_GetInstance name m w = (p, m', w')"
  shows "log_inv m' w'"
  using assms
  by (auto simp: log_inv_def LoggerManager_GetInstance_def Let_def nth_append wf_logger_def new_Logger_def
      less_Suc_eq split: option.splits)

lemma log_inv_add:
  assumes "log_inv m w" "p < length (lw_loggers w)" "\<And>b. a = Some b \<Longrightarrow> b < length (lw_appenders w)"
  shows "log_inv m (add_appender p a w)"
proof -
  have "wf_logger (mg_root m) (length (lw_appenders w)) (lw_loggers w ! p)"
    using assms by (simp add: log_inv_def list_all_length)
  then have "wf_logger (mg_root m) (length (lw_appenders w)) (AddAppender a (lw_loggers w ! p))"
    using assms(3) by (auto simp: wf_logger_def AddAppender_def split: option.splits)
  then show ?thesis using assms(1,2)
    by (auto simp: log_inv_def add_appender_def list_all_length nth_list_update AddAppender_def split: option.splits)
qed

lemma log_reach_inv: "log_reach m w \<Longrightarrow> log_inv m w"
proof (induction rule: log_reach.induct)
  case (start files m w)
  then show ?case
    by (auto simp: new_LoggerManager_def Let_def log_inv_def wf_logger_def AddAppender_def new_Logger_def
        setFormatter_def new_StdOutLogAppender_def)
next
  case (appender m w a garbage filename)
  then have "ap_level a = DEBUG" by (auto simp: new_StdOutLogAppender_def new_FileLogAppender_def)
  then show ?case using appender.IH
    by (auto simp: log_inv_def list_all_iff intro: wf_logger_mono)
next
  case (formatter m w a f)
  have "map ap_level ((lw_appenders w)[a := setFormatter f (lw_appenders w ! a)]) = map ap_level (lw_appenders w)"
    by (simp add: map_update setFormatter_def list_update_same_conv formatter.hyps(2))
  then show ?case using formatter.IH by (simp add: log_inv_def)
next
  case (log m w env p level ev w')
  show ?case using log.IH Logger_Log_keeps [OF log.hyps(2)] by (simp add: log_inv_def keeps_def)
qed (auto intro: log_inv_get log_inv_add)

lemma DEBUG_least [simp]: "\<not> level < DEBUG" "DEBUG \<le> level"
  by (simp_all add: less_level_def less_eq_level_def)

text \<open>With a valid event, formatting does not fault, and an appender faults exactly if it has no formatter.\<close>

lemma format_ok:
  assumes "nm (le_logger ev) = Inr name"
  shows "\<exists>s. LogFormatter_format strftime nm items level ev = Inr s"
  unfolding LogFormatter_format_def
proof (induction items)
  case (Cons item items)
  have "\<exists>s. item_format strftime nm level ev item = Inr s" using assms by (cases item) simp_all
  then show ?case using Cons.IH by auto
qed simp

lemma appender_Log_outcome:
  assumes "ap_level (lw_appenders w ! a) = DEBUG" "a < length (lw_appenders w)" "getName w (le_logger ev) = Inr name"
  shows "if ap_formater (lw_appenders w ! a) = None then appender_Log env level ev a w = Inl NullDeref
    else \<exists>w'. appender_Log env level ev a w = Inr w'"
proof (cases "ap_formater (lw_appenders w ! a)")
  case None
  then show ?thesis using assms(1,2)
    by (auto simp: appender_Log_def StdOutLogAppender_Log_def FileLogAppender_Log_def Let_def split: appender_class.split prod.split)
next
  case (Some items)
  obtain s where "LogFormatter_format (env_strftime env) (getName w) items level ev = Inr s"
    using format_ok [of "getName w", OF assms(3)] by blast
  then show ?thesis using assms(1,2) Some
    by (auto simp: appender_Log_def StdOutLogAppender_Log_def FileLogAppender_Log_def Let_def split: appender_class.split prod.split)
qed

lemma appender_loop_outcome:
  assumes "list_all (\<lambda>l. l = DEBUG) (map ap_level (lw_appenders w))" "\<forall>a \<in> set as. a < length (lw_appenders w)"
    "getName w (le_logger ev) = Inr name"
  shows "if \<exists>a \<in> set as. map ap_formater (lw_appenders w) ! a = None then appender_loop env level ev as w = Inl NullDeref
    else \<exists>w'. appender_loop env level ev as w = Inr w'"
  using assms
proof (induction as arbitrary: w)
  case (Cons a as)
  have a: "a < length (lw_appenders w)" "ap_level (lw_appenders w ! a) = DEBUG"
    using Cons.prems by (auto simp: list_all_length)
  note out = appender_Log_outcome [OF a(2,1) Cons.prems(3), of env level]
  show ?case
  proof (cases "ap_formater (lw_appenders w ! a) = None")
    case True
    then show ?thesis using out a(1) by auto
  next
    case False
    then obtain v where v: "appender_Log env level ev a w = Inr v" using out by auto
    note keep = appender_Log_keeps [OF v]
    then have "lw_loggers v = lw_loggers w" by (simp add: keeps_def)
    then have "getName v (le_logger ev) = getName w (le_logger ev)" by (simp only: getName_def)
    then have "getName v (le_logger ev) = Inr name" using Cons.prems(3) by simp
    then have "if \<exists>a \<in> set as. map ap_formater (lw_appenders v) ! a = None then appender_loop env level ev as v = Inl NullDeref
        else \<exists>w'. appender_loop env level ev as v = Inr w'"
      using Cons.prems keep by (intro Cons.IH) (auto simp: keeps_def)
    then show ?thesis using v keep False a(1) by (auto simp: keeps_def)
  qed
qed simp

text \<open>The appenders that an event on a logger goes to.\<close>

definition log_sinks :: "log_manager \<Rightarrow> log_world \<Rightarrow> nat \<Rightarrow> nat list" where
  "log_sinks m w p = lg_appenders (lw_loggers w ! (if lg_appenders (lw_loggers w ! p) = [] then mg_root m else p))"

lemma Logger_Log_unroll:
  assumes "log_inv m w" "p < length (lw_loggers w)"
  shows "Logger_Log env p level ev w = Some (appender_loop env level ev (log_sinks m w p) w)"
proof -
  have "wf_logger (mg_root m) (length (lw_appenders w)) (lw_loggers w ! q)" if "q < length (lw_loggers w)" for q
    using assms(1) that by (simp add: log_inv_def list_all_length)
  then show ?thesis using assms
    by (simp add: Logger_Log.simps [of env p] Logger_Log.simps [of env "mg_root m"] log_inv_def wf_logger_def log_sinks_def)
qed

text \<open>
  C22. Logging through a manager: in every world that a program reaches with a manager, take a logger that the manager gives out, any level,
  and an event whose own logger exists. The call of \<open>Log\<close> always returns. If the appenders of the logger (those of the root if it has
  none, and the root always has one) have formatters, it returns without a fault, no object is lost, and standard output
  only grows; if one of them has no formatter, as after construction, the call dereferences a null pointer.
\<close>

theorem managed_logging_safe:
  assumes "log_reach m w" "LoggerManager_GetInstance name m w = (p, m', w')"
    "le_logger ev = Some q" "q < length (lw_loggers w')"
  shows "log_sinks m' w' p \<noteq> [] \<and>
    (if \<exists>a \<in> set (log_sinks m' w' p). ap_formater (lw_appenders w' ! a) = None
     then Logger_Log env p level ev w' = Some (Inl NullDeref)
     else \<exists>v. Logger_Log env p level ev w' = Some (Inr v) \<and> log_inv m' v \<and> lw_loggers v = lw_loggers w' \<and>
       (\<exists>more. lw_stdout v = lw_stdout w @ more))"
proof -
  have reach: "log_reach m' w'" using log_reach.get [OF assms(1,2)] .
  have inv: "log_inv m' w'" using log_reach_inv [OF reach] .
  have p: "p < length (lw_loggers w')" and out: "lw_stdout w' = lw_stdout w"
    using assms(2) log_reach_inv [OF assms(1)]
    by (auto simp: LoggerManager_GetInstance_def Let_def log_inv_def ran_def split: option.splits)
  have sinks: "log_sinks m' w' p \<noteq> []" "\<forall>a \<in> set (log_sinks m' w' p). a < length (lw_appenders w')"
    using inv p by (auto simp: log_inv_def list_all_length wf_logger_def log_sinks_def)
  have "getName w' (le_logger ev) = Inr (lg_name (lw_loggers w' ! q))" using assms(3,4) by (simp add: getName_def)
  from appender_loop_outcome [OF _ sinks(2) this, of env level] have
    "if \<exists>a \<in> set (log_sinks m' w' p). ap_formater (lw_appenders w' ! a) = None
     then Logger_Log env p level ev w' = Some (Inl NullDeref) else \<exists>v. Logger_Log env p level ev w' = Some (Inr v)"
    using inv Logger_Log_unroll [OF inv p, of env level ev] sinks(2) by (simp add: log_inv_def)
  moreover have "log_inv m' v \<and> lw_loggers v = lw_loggers w' \<and> (\<exists>more. lw_stdout v = lw_stdout w @ more)"
    if v: "Logger_Log env p level ev w' = Some (Inr v)" for v
    using Logger_Log_keeps [OF v] log_reach_inv [OF log_reach.log [OF reach v]] out by (auto simp: keeps_def)
  ultimately show ?thesis using sinks(1) by (auto split: if_splits)
qed

theorem managed_logging_safe_witness:
  "\<exists>m w p m' w' v. new_LoggerManager \<lparr>lw_loggers = [], lw_appenders = [], lw_stdout = [], lw_files = Map.empty\<rparr> = (m, w) \<and>
     LoggerManager_GetInstance ''rpc'' m w = (p, m', w') \<and>
     Logger_Log \<lparr>env_strftime = (\<lambda>p t. p), env_openable = (\<lambda>_. True), env_time = 0\<rparr> p INFO
        (new_LogEvent (Some p) INFO ''a.cc'' 1 2 3 4 ''main'') w' = Some (Inr v) \<and> log_inv m' v"
proof -
  let ?w = "\<lparr>lw_loggers = [], lw_appenders = [], lw_stdout = [], lw_files = Map.empty\<rparr>"
  obtain m w where m: "new_LoggerManager ?w = (m, w)" by fastforce
  obtain p m' w' where g: "LoggerManager_GetInstance ''rpc'' m w = (p, m', w')" by (metis prod_cases3)
  have "p < length (lw_loggers w')" "\<forall>a \<in> set (log_sinks m' w' p). ap_formater (lw_appenders w' ! a) \<noteq> None"
    using m g by (auto simp: new_LoggerManager_def LoggerManager_GetInstance_def Let_def log_sinks_def AddAppender_def
        new_Logger_def setFormatter_def)
  moreover have "le_logger (new_LogEvent (Some p) INFO ''a.cc'' 1 2 3 4 ''main'') = Some p" by (simp add: new_LogEvent_def)
  ultimately obtain v where "Logger_Log \<lparr>env_strftime = (\<lambda>p t. p), env_openable = (\<lambda>_. True), env_time = 0\<rparr> p INFO
      (new_LogEvent (Some p) INFO ''a.cc'' 1 2 3 4 ''main'') w' = Some (Inr v)" "log_inv m' v"
    using managed_logging_safe [OF log_reach.start [OF m] g, of "new_LogEvent (Some p) INFO ''a.cc'' 1 2 3 4 ''main''" p
        "\<lparr>env_strftime = (\<lambda>p t. p), env_openable = (\<lambda>_. True), env_time = 0\<rparr>" INFO]
    by (auto split: if_splits simp: Bex_def)
  then show ?thesis using m g by blast
qed

text \<open>
  What a logger that was asked for by a new name writes: the event goes to the appender of the root and is one coloured
  line with the fields of the default pattern, in order, without the brackets and the colon of the pattern.
\<close>

definition default_line :: "(string \<Rightarrow> u32 \<Rightarrow> string) \<Rightarrow> string \<Rightarrow> level \<Rightarrow> log_event \<Rightarrow> string" where
  "default_line strftime name level ev =
     strftime ''%Y-%m-%d:%H:%M:%S'' (le_timestamp ev) @ tab @ LevelToString level @ tab @ tab @ name @ tab @
     dec_string (le_thread_id ev) @ tab @ le_thread_name ev @ tab @ dec_string (le_fiber_id ev) @ tab @ tab @
     le_file ev @ dec_string (le_line ev) @ tab @ le_content ev @ newline"

lemma default_format:
  "LogFormatter_format strftime nm (new_LogFormatter default_pattern) level ev =
   bindE (nm (le_logger ev)) (\<lambda>name. Inr (default_line strftime name level ev))"
  by (cases "nm (le_logger ev)") (simp_all add: LogFormatter_format_def default_items default_line_def)

theorem new_logger_line:
  assumes "name \<noteq> ''root''" "new_LoggerManager w = (m, w1)" "LoggerManager_GetInstance name m w1 = (p, m', w2)"
    "le_logger ev = Some p" "le_level ev = level"
  shows "LogEventWrap_dtor env ev w2 = Some (Inr (level = FATAL,
    w2\<lparr>lw_stdout := lw_stdout w @ log_color level @ default_line (env_strftime env) name level ev @ esc ''0m'' @ newline\<rparr>))"
proof -
  let ?r = "length (lw_loggers w)" and ?a = "length (lw_appenders w)"
  have w2: "p = Suc ?r" "lw_loggers w2 = lw_loggers w @ [AddAppender (Some ?a) (new_Logger ''root''),
      (new_Logger name)\<lparr>lg_root := Some ?r\<rparr>]" "lw_stdout w2 = lw_stdout w"
    "lw_appenders w2 = lw_appenders w @ [setFormatter (Some (new_LogFormatter default_pattern)) new_StdOutLogAppender]"
    using assms by (auto simp: new_LoggerManager_def LoggerManager_GetInstance_def Let_def)
  have name: "getName w2 (Some p) = Inr name" by (simp add: getName_def w2 nth_append new_Logger_def)
  have line: "LogFormatter_format (env_strftime env) (getName w2) (new_LogFormatter default_pattern) level ev =
      Inr (default_line (env_strftime env) name level ev)"
    using assms(4) name by (simp add: default_format)
  have "Logger_Log env p level ev w2 = Logger_Log env ?r level ev w2"
    by (subst Logger_Log.simps) (simp add: w2 nth_append new_Logger_def)
  also have "\<dots> = Some (appender_loop env level ev [?a] w2)"
    by (simp add: Logger_Log.simps [of env ?r] w2 nth_append new_Logger_def AddAppender_def)
  also have "\<dots> = Some (Inr (w2\<lparr>lw_stdout := lw_stdout w @ log_color level @ default_line (env_strftime env) name level ev @ esc ''0m'' @ newline\<rparr>))"
    by (simp add: appender_Log_def w2 setFormatter_def new_StdOutLogAppender_def StdOutLogAppender_Log_def line)
  finally show ?thesis using assms(4,5) by (simp add: LogEventWrap_dtor_def)
qed

lemma new_logger_line_witness:
  "let env = \<lparr>env_strftime = (\<lambda>p t. ''now''), env_openable = (\<lambda>_. True), env_time = 0\<rparr>;
       w = \<lparr>lw_loggers = [], lw_appenders = [], lw_stdout = [], lw_files = Map.empty\<rparr>;
       (m, w1) = new_LoggerManager w; (p, m', w2) = LoggerManager_GetInstance ''rpc'' m w1
   in map_option (\<lambda>r. bindE r (\<lambda>(exits, v). Inr (exits, lw_stdout v)))
        (LogEventWrap_dtor env ((new_LogEvent (Some 1) FATAL ''a.cc'' 1 2 3 4 ''main'')\<lparr>le_content := ''no''\<rparr>) w2) =
      Some (Inr (True, esc ''31m'' @ ''now'' @ tab @ ''FATAL'' @ tab @ tab @ ''rpc'' @ tab @ ''3'' @ tab @ ''main'' @ tab @ ''4'' @
        tab @ tab @ ''a.cc1'' @ tab @ ''no'' @ newline @ esc ''0m'' @ newline))"
proof -
  let ?env = "\<lparr>env_strftime = (\<lambda>p t. ''now''), env_openable = (\<lambda>_. True), env_time = 0\<rparr>"
  let ?w = "\<lparr>lw_loggers = [], lw_appenders = [], lw_stdout = [], lw_files = Map.empty\<rparr>"
  let ?ev = "(new_LogEvent (Some 1) FATAL ''a.cc'' 1 2 3 4 ''main'')\<lparr>le_content := ''no''\<rparr>"
  obtain m w1 where m: "new_LoggerManager ?w = (m, w1)" by fastforce
  obtain p m' w2 where g: "LoggerManager_GetInstance ''rpc'' m w1 = (p, m', w2)" by (metis prod_cases3)
  have p: "le_logger ?ev = Some p"
    using m g by (auto simp: new_LoggerManager_def LoggerManager_GetInstance_def new_LogEvent_def Let_def)
  have digits: "dec_string 3 = ''3''" "dec_string 4 = ''4''" "dec_string 1 = ''1''" by code_simp+
  show ?thesis using new_logger_line [OF _ m g p refl, of ?env]
    by (simp add: m g new_LogEvent_def default_line_def digits del: bindE_eq_Inr)
qed

text \<open>
  No log call ever adds a character to a file: whatever the appenders, after a call that returns every file is as it
  was or has been truncated.
\<close>

theorem files_never_written:
  assumes "Logger_Log env p level ev w = Some (Inr w')"
  shows "lw_files w' f = lw_files w f \<or> lw_files w' f = Some []"
  using Logger_Log_keeps [OF assms] by (simp add: keeps_def)

lemma files_never_written_witness:
  "let env = \<lparr>env_strftime = (\<lambda>p t. p), env_openable = (\<lambda>_. True), env_time = 100\<rparr>;
       ap = setFormatter (Some (new_LogFormatter default_pattern)) (new_FileLogAppender 0 ''f'');
       w = \<lparr>lw_loggers = [AddAppender (Some 0) (new_Logger ''rpc'')], lw_appenders = [ap], lw_stdout = [],
         lw_files = [''f'' \<mapsto> ''old'']\<rparr>
   in \<exists>w'. Logger_Log env 0 INFO (new_LogEvent (Some 0) INFO ''a.cc'' 1 2 3 4 ''main'') w = Some (Inr w') \<and> lw_files w' ''f'' \<noteq> Some ''old''
        \<and> (lw_files w' ''f'' = lw_files w ''f'' \<or> lw_files w' ''f'' = Some [])"
proof -
  let ?env = "\<lparr>env_strftime = (\<lambda>p t. p), env_openable = (\<lambda>_. True), env_time = 100\<rparr>"
  let ?ap = "setFormatter (Some (new_LogFormatter default_pattern)) (new_FileLogAppender 0 ''f'')"
  let ?w = "\<lparr>lw_loggers = [AddAppender (Some 0) (new_Logger ''rpc'')], lw_appenders = [?ap], lw_stdout = [],
    lw_files = [''f'' \<mapsto> ''old'']\<rparr>"
  let ?w' = "?w\<lparr>lw_appenders := [?ap\<lparr>ap_class := FileLogAppender ''f'' \<lparr>of_open = True, of_good = True\<rparr> 100\<rparr>],
    lw_files := [''f'' \<mapsto> []]\<rparr>"
  have "Logger_Log ?env 0 INFO (new_LogEvent (Some 0) INFO ''a.cc'' 1 2 3 4 ''main'') ?w = Some (Inr ?w')"
    by (subst Logger_Log.simps)
      (simp add: new_Logger_def AddAppender_def appender_Log_def setFormatter_def new_FileLogAppender_def FileLogAppender_Log_def
        reopen_def default_format getName_def new_LogEvent_def del: bindE_eq_Inr)
  from files_never_written [OF this, of "''f''"] this show ?thesis unfolding Let_def by (intro exI [of _ ?w']) simp
qed

text \<open>
  A logger made without the manager and not given an appender dereferences a null root on its first event; an appender
  without a formatter faults as well.
\<close>

theorem unmanaged_logger_faults:
  "Logger_Log env (length (lw_loggers w)) level ev (w\<lparr>lw_loggers := lw_loggers w @ [new_Logger name]\<rparr>) = Some (Inl NullDeref) \<and>
   StdOutLogAppender_Log env nm level ev new_StdOutLogAppender out = Inl NullDeref \<and>
   FileLogAppender_Log env nm level ev (new_FileLogAppender garbage name) files = Inl NullDeref"
  by (simp add: Logger_Log.simps new_Logger_def StdOutLogAppender_Log_def FileLogAppender_Log_def new_StdOutLogAppender_def
      new_FileLogAppender_def Let_def split: prod.split)

end
