(* ===== verification/Spec2Isabelle.thy ===== *)
theory Spec2Isabelle
  imports Rpc_Pool Sync Locks Threads Event_Loop Server_Life Log
begin

text \<open>
  \<^bold>\<open>A verification of AsyncRPC\<close>

  AsyncRPC is a remote procedure call framework in C++. Fibers run on the worker threads of a scheduler; an IO manager
  extends the scheduler by \<open>epoll\<close> and by timers; hooked system calls suspend the fiber that would block. On top of this lie sockets,
  streams and sessions, which exchange frames that hold serialized values; a server with a table of methods; a registry in which servers
  publish services; clients, and a pool of clients that finds providers through the registry. The paths below are
  relative to \<open>src/\<close>.

  \<^bold>\<open>Conventions\<close>

  \<^item> Integers keep their width: \<open>uint8_t\<close> to \<open>uint64_t\<close> are words and wrap, signed ones are the same bit patterns, read by \<open>sint\<close>.
    \<open>size_t\<close> is \<open>nat\<close> with the wrap-around of a subtraction written out (\<open>sz_sub\<close>). A \<open>std::string\<close> is a list of bytes; only the log
    uses \<open>string\<close>.
  \<^item> What C++ throws, asserts or leaves undefined is a value of the datatype \<open>fault\<close>, and an operation that can do so
    returns \<open>fault + 'a\<close>, sequenced by \<open>bindE\<close>. A theorem that an operation returns \<open>Inr\<close> thus also says that none of this happens.
  \<^item> Loops are recursive functions with a termination proof. Those that may run for ever (the fixed-size loops over a stream, loading
    a file into a buffer, the chain of loggers) are partial functions into \<open>option\<close>, where \<open>None\<close> means that the
    loop does not end. There is no fuel. In \<open>Hook\<close> and \<open>Locks\<close> the value \<open>None\<close> means that the caller still waits.
  \<^item> Objects that the code shares by pointer live in heaps indexed by addresses (timers, socket objects, channels, fibers, loggers);
    other state is a record that the operations return updated. \<open>std::set\<close> and \<open>std::map\<close> are lists in iteration order, an
    iterator is the identity of its entry, so that a stale one can be told.
  \<^item> What the operating system answers is an argument: the outcomes of the original calls in \<open>Hook\<close>, the record \<open>kernel\<close> in
    \<open>Socket\<close> with the hypothesis \<open>fresh_kernel\<close> (a descriptor that is opened was not in use), \<open>send\<close> and \<open>recv\<close> in
    \<open>Stream_Session\<close> with \<open>recv_delivers\<close> and \<open>send_accepts\<close>, the clock, the addresses that \<open>new\<close> returns, the resolver, \<open>strftime\<close>,
    and the content of uninitialised memory (\<open>fill\<close>, \<open>val0\<close>, \<open>code0\<close>, \<open>id0\<close>). A theorem holds whatever that memory holds, except where a
    hypothesis names it: \<open>comutex_exclusion\<close> needs a \<open>fiber_id_\<close> that is no fiber's id, \<open>published_service_found\<close> and \<open>pool_discovers\<close> a result code
    other than \<open>RPC_NO_METHOD\<close>.
  \<^item> Concurrency is explicit: sections that a lock protects are atomic and an execution is a sequence of them
    (timers, channels, clients, the pool). That a section runs means that its lock was obtained; the fiber mutex may keep a
    fiber waiting for ever (\<open>comutex_lost_wakeup\<close>). In \<open>Channel\<close> the steps of a woken fiber on its way back to the mutex are events of their
    own, because \<open>waitFor\<close> holds a spin lock meanwhile; where the code has races, a thread or fiber has a program counter and a step is one access to
    shared state (scheduler, fiber mutex, threads, worker pool, accept loops, the end of a server).

  \<^bold>\<open>The theories\<close>, from the bottom up

  \<^item> \<open>Prelude\<close>: machine types, faults, decimal and hexadecimal text, little-endian strings, lemmas on lists.
  \<^item> \<open>Byte_Order\<close> (\<open>include/utils.h\<close>) and \<open>Varint\<close> (\<open>src/byte_array.cc\<close>): byte swapping, zig-zag and variable-length encodings, with their
    inverses and lengths.
  \<^item> \<open>Byte_Array\<close>, \<open>Byte_Codec\<close>, \<open>Byte_Buffers\<close>, \<open>Byte_Cursor\<close> (\<open>src/byte_array.cc\<close>, \<open>include/byte_array.h\<close>): the chain of blocks with its
    cursor; the typed reads and writes; gather vectors, files and dumps; and the refinement of a flat byte
    cursor, which is the contract of the class.
  \<^item> \<open>Serializer\<close> (\<open>include/rpc/serializer.h\<close>), \<open>Protocol\<close> (\<open>include/rpc/protocol.h\<close>), \<open>Rpc_Result\<close> (\<open>include/rpc/rpc.h\<close>): values, tuples and
    containers over a byte array, the frame with its 11-byte header, the result of a call; their round trips.
  \<^item> \<open>Timer\<close> (\<open>src/timer.cc\<close>): the ordered set of timers; it stays ordered while deadlines change, and expiry takes exactly the
    timers that are due.
  \<^item> \<open>Locks\<close> and \<open>Sync\<close> (\<open>include/mutex.h\<close>, \<open>src/mutex.cc\<close>): thread locks, scoped locks and the fiber mutex; mutual exclusion.
    \<open>Channel\<close> (\<open>src/mutex.cc\<close>, \<open>include/channel.h\<close>): condition variables, semaphores and channels; order, capacity, and that
    no notification is lost as long as nothing times out.
  \<^item> \<open>Scheduler\<close> (\<open>src/fiber.cc\<close>, \<open>src/scheduler.cc\<close>): fiber states and the loop of \<open>Run\<close> on several threads; when a fiber can run twice and
    when not. \<open>Threads\<close> (\<open>src/thread.cc\<close>, \<open>include/my_semaphore.h\<close>): the hand-shake of a new thread; and the worker pool from
    \<open>Start\<close> to its destruction, where every worker is somewhere in the loop of \<open>Run\<close> or in the idle fiber.
  \<^item> \<open>IO_Manager\<close> (\<open>src/io_manager.cc\<close>): events per descriptor and the interest list. \<open>Event_Loop\<close>: a whole
    turn of \<open>IOManager::Wait\<close> over timers and events, and the current fiber of a thread.
  \<^item> \<open>Fd_Manager\<close> (\<open>src/fd_manager.cc\<close>), \<open>Hook\<close> (\<open>src/hook.cc\<close>), \<open>Socket\<close> (\<open>src/socket.cc\<close>), \<open>Tcp_Server\<close> (\<open>src/tcp_server.cc\<close>): descriptor
    contexts, the calls that suspend a fiber, socket objects and the server's tasks; that hooks look like blocking calls, and that
    descriptors are owned once and given back.
  \<^item> \<open>Address\<close> (\<open>src/address.cc\<close>): IPv4, IPv6 and Unix addresses, their text, order, networks, lookup.
  \<^item> \<open>Stream_Session\<close> (\<open>src/stream.cc\<close>, \<open>src/socket_stream.cc\<close>, \<open>src/rpc/rpc_session.cc\<close>): frames over partial reads and writes.
  \<^item> \<open>Rpc_Server\<close> and \<open>Server_Life\<close> (\<open>src/rpc/rpc_server.cc\<close>, \<open>include/rpc/rpc_server.h\<close>): methods and calls; construction, binding,
    the connection to the registry, heartbeats, the clean-up fiber and destruction.
  \<^item> \<open>Registry\<close> (\<open>src/rpc/rpc_service_registry.cc\<close>), \<open>Route_Strategy\<close> (\<open>include/rpc/route_strategy.h\<close>), \<open>Rpc_Client\<close>
    (\<open>src/rpc/rpc_client.cc\<close>) and \<open>Rpc_Pool\<close> (\<open>src/rpc/rpc_connection_pool.cc\<close>): registration, discovery and subscription; load
    balancing; pending calls and their sequence numbers; calls through cached clients.
  \<^item> \<open>Log\<close> (\<open>src/log.cc\<close>, \<open>include/log.h\<close>): levels, patterns, appenders, loggers and their manager.

  The theorem of this theory composes \<open>Server_Life\<close>, \<open>Registry\<close>, \<open>Rpc_Pool\<close> and \<open>Address\<close>; \<open>rpc_call_returns\<close> in \<open>Rpc_Client\<close> composes
  client and server, \<open>event_loop_turn\<close> timers and events, \<open>server_descriptors\<close> sockets, hooks and the server's tasks.

  \<^bold>\<open>Interfaces\<close>

  \<^item> \<open>codec\<close>: a write and a read that belong together. It is interpreted on every typed operation of the byte array and on the scalars of
    the serializer; \<open>pair_codec\<close> and \<open>length_codec\<close> build codecs from codecs, the latter all four string formats.
  \<^item> \<open>byte_cursor\<close>: writing, reading and seeking in a flat string, implemented by \<open>ByteArray\<close>.
  \<^item> \<open>ordered_set\<close>: what the timer set needs of \<open>Timer::Comparator\<close>.
  \<^item> \<open>mailbox\<close>: what clients and pool need of a channel of capacity one.
  \<^item> \<open>owned_op\<close>: what every operation of a socket keeps of the ownership of descriptors.

  \<^bold>\<open>Where the code does not do what it means to\<close>

  The theorems state the behaviour as it is. Several show a defect together with the condition under which it occurs:
  \<open>provider_disconnect\<close> (the registry reads through an erased iterator), \<open>call_id_reused\<close> (the sequence number of a response
  overwrites the counter), \<open>shutdown_hangs\<close> and \<open>server_destruction\<close> (destructors that wait for ever, or do not wait for all fibers),
  \<open>uninitialised_owner_enters\<close> and \<open>no_fiber_skips_lock\<close> (a fiber mutex entered without taking it), \<open>comutex_lost_wakeup\<close> and
  \<open>relock_under_spinlock\<close> (fibers that wait for ever), \<open>nested_scope_frees_lock\<close> (an ignored \<open>EDEADLK\<close>), \<open>ByteArray_read_past_data\<close> (reads are not
  checked against the data),
  \<open>cancel_ruins_descriptor\<close> (the user data of \<open>epoll\<close> is overwritten), \<open>announced_provider_removed\<close> (a new provider is removed from the
  pools that subscribed to it), \<open>malformed_patterns\<close>, \<open>files_never_written\<close> and \<open>unmanaged_logger_faults\<close> in \<open>Log\<close>.

  \<^bold>\<open>Not modelled\<close>

  \<^item> The machine contexts and stacks behind \<open>Fiber\<close> (\<open>ucontext\<close>): a switch is the change of the fiber states and of the current fiber.
  \<^item> \<open>include/singleton.h\<close>, \<open>include/noncopyable.h\<close>, \<open>include/macro.h\<close>, \<open>include/traits.h\<close>: compile-time helpers. The type lists that
    the traits compute appear as the declared argument types of a registered function.
  \<^item> \<open>async_call\<close> of client and pool, which only wraps \<open>call\<close> in a task; getters without logic.
  \<^item> What the components print to the log while they run, and the reclamation of memory that nothing refers to.
  \<^item> The bodies of registered functions and of scheduled tasks, which are parameters.
\<close>

section \<open>From a server to a pool\<close>

lemma length_enc_string: "length (vint.enc_string x) \<le> length x + 10"
  by (simp add: vint.enc_string_def length_varint64)

lemma length_discover_one:
  assumes "services_of rg name = [IPv4_insert addr]" "length name < 1000"
  shows "length (discover_enc rg name) \<le> string_max_size"
  using assms length_IPv4_insert [of addr] length_varint32 [of 1] length_enc_string [of name] length_enc_string [of "[]"]
    length_enc_string [of "IPv4_insert addr"]
  by (simp add: discover_enc_def discover_results_def result_enc_def string_max_size_def)

lemma length_subscribe_key:
  assumes "length name < 1000"
  shows "length (vint.enc_string (RPC_SERVICE_SUBSCRIBE @ name)) \<le> string_max_size"
  using assms length_enc_string [of "RPC_SERVICE_SUBSCRIBE @ name"]
  by (simp add: RPC_SERVICE_SUBSCRIBE_def string_max_size_def)

lemma IPv4_getPort_inj:
  assumes "IPv4_getPort a = IPv4_getPort b"
  shows "NetworkToHost 2 (sin_port a) = NetworkToHost 2 (sin_port b)"
proof -
  have "ucast (ucast x :: u32) = x" for x :: u16 by (rule bit_word_eqI) (simp add: bit_simps)
  then show ?thesis using assms unfolding IPv4_getPort_def by metis
qed

text \<open>
  C2. A published service is found. A server that was bound to an IPv4 address connects to the registry and registers its services,
  the registry's loop handles the messages, and every registration is answered with success. A pool that then discovers a
  service that had no provider gets, through its own receive loop, exactly one address; looking that text up passes the
  server's host, as the registry sees it, and the port the server was bound to on to the resolver.
\<close>

theorem published_service_found:
  assumes "RPCServer_bind en iom (NetAddress (IPv4Address la)) k h w = Inr (True, h', w')"
    "distinct names" "\<forall>n \<in> set names. length n < 1000" "length clocks = Suc (length names)"
    "name \<in> set names" "services_of rg name = []"
    "po_registry p" "po_connected p" "name \<notin> fst ` set (po_method_map p)"
    "po_subscribe_handle p (RPC_SERVICE_SUBSCRIBE @ name) = None" "code0 \<noteq> state_code RPC_NO_METHOD"
  shows "\<exists>msg addr rg' tm' it req p1 resp p2 p3.
    connectRegistry_message fill (rh_port h') = Inr msg \<and>
    registry_handleClient fill' val0 alive a now aliveTime remote session
      (zip clocks (Some msg # map (\<lambda>n. Some (registerService_request n)) names)) rg tm =
      Inr (map register_reply names, rg', Some addr, tm', Some a) \<and>
    (\<forall>n \<in> set names. registerService_result fill code0 (Some (register_reply n)) =
      Inr (Some \<lparr>r_code = code0, r_msg = lit ''success'', r_val = VString n\<rparr>)) \<and>
    discover_begin f ch name p = Some (it, req, p1) \<and> handleServiceDiscover fill' rg' req = Inr resp \<and>
    pool_recv_round fill'' g p1 (Some resp) = Inr (True, [], p2) \<and> fst (pop f (po_recv p2 ch)) = Popped (Some resp) \<and>
    discover_end fill'' code0 f name it (Some resp) p2 = Inr ([IPv4_insert addr], p3) \<and>
    split_host (IPv4_insert addr) =
      (dotted (NetworkToHost 4 (sin_addr remote)), Some (dec (unat (NetworkToHost 2 (sin_port la)))))"
proof -
  obtain msg addr rg' tm' where on: "connectRegistry_message fill (rh_port h') = Inr msg"
    "registry_handleClient fill' val0 alive a now aliveTime remote session
      (zip clocks (Some msg # map (\<lambda>n. Some (registerService_request n)) names)) rg tm =
      Inr (map register_reply names, rg', Some addr, tm', Some a)"
    "sin_addr addr = sin_addr remote" "IPv4_getPort addr = IPv4_getPort la"
    "\<forall>n. services_of rg' n = services_of rg n @ (if n \<in> set names then [IPv4_insert addr] else [])"
    "\<forall>n \<in> set names. registerService_result fill code0 (Some (register_reply n)) =
      Inr (Some \<lparr>r_code = code0, r_msg = lit ''success'', r_val = VString n\<rparr>)"
    using service_online [OF assms(1-4), of fill fill' val0 alive a now aliveTime remote session rg tm fill code0] by blast
  have one: "services_of rg' name = [IPv4_insert addr]" using on(5) assms(5,6) by simp
  have short: "length name < 1000" using assms(3,5) by blast
  obtain it req p1 resp p2 p3 where "discover_begin f ch name p = Some (it, req, p1)" "handleServiceDiscover fill' rg' req = Inr resp"
    "pool_recv_round fill'' g p1 (Some resp) = Inr (True, [], p2)" "fst (pop f (po_recv p2 ch)) = Popped (Some resp)"
    "discover_end fill'' code0 f name it (Some resp) p2 = Inr ([IPv4_insert addr], p3)"
    using discovery [OF assms(7-10), of rg' code0 f ch fill' fill'' g] one assms(11) length_discover_one [OF one short]
      length_subscribe_key [OF short] by auto
  moreover have "NetworkToHost 2 (sin_port addr) = NetworkToHost 2 (sin_port la)"
    using IPv4_getPort_inj [OF on(4)] .
  ultimately show ?thesis using on(1-3,6) lookup_of_printed [of addr] by auto
qed

theorem published_service_found_witness:
  "\<exists>h' w' msg rg' addr tm' it req p1 resp p2 p3.
    RPCServer_bind True True loopback granting_kernel (new_RPCServer 7 new_TimerManager) empty_world = Inr (True, h', w') \<and>
    connectRegistry_message (\<lambda>_ _. 1) (rh_port h') = Inr msg \<and>
    registry_handleClient (\<lambda>_ _. 7) 0 (\<lambda>_. True) 4 10 40000 (new_IPv4 0x7F000001 5000) 1
      [(11, Some msg), (12, Some (registerService_request [97]))] new_registry new_TimerManager =
      Inr ([register_reply [97]], rg', Some addr, tm', Some 4) \<and>
    discover_begin 1 5 [97] (sample_pool\<lparr>po_subscribe_handle := Map.empty\<rparr>) = Some (it, req, p1) \<and>
    handleServiceDiscover (\<lambda>_ _. 7) rg' req = Inr resp \<and> pool_recv_round (\<lambda>_ _. 9) 2 p1 (Some resp) = Inr (True, [], p2) \<and>
    discover_end (\<lambda>_ _. 9) 0 1 [97] it (Some resp) p2 = Inr ([IPv4_insert addr], p3)"
proof -
  let ?p = "sample_pool\<lparr>po_subscribe_handle := Map.empty\<rparr>"
  have p: "po_registry ?p" "po_connected ?p" "[97] \<notin> fst ` set (po_method_map ?p)"
    "po_subscribe_handle ?p (RPC_SERVICE_SUBSCRIBE @ [97]) = None"
    by (simp_all add: sample_pool_def pool_connect_def new_RPCConnectionPool_def Let_def)
  obtain la where la: "loopback = NetAddress (IPv4Address la)" by (auto simp: loopback_def)
  obtain srv s w where "tcp_bind True True [(loopback, granting_kernel)] [] new_TCPServer empty_world = Inr (True, [], srv, w)"
    by (rule bound_server)
  then obtain h' where h: "RPCServer_bind True True loopback granting_kernel (new_RPCServer 7 new_TimerManager) empty_world =
      Inr (True, h', w)"
    by (auto simp: la RPCServer_bind_def tcp_bind_addr_def new_RPCServer_def)
  have rg: "services_of new_registry [97] = []" by (simp add: services_of_def new_registry_def)
  have "\<exists>msg addr rg' tm' it req p1 resp p2 p3. connectRegistry_message (\<lambda>_ _. 1) (rh_port h') = Inr msg \<and>
    registry_handleClient (\<lambda>_ _. 7) 0 (\<lambda>_. True) 4 10 40000 (new_IPv4 0x7F000001 5000) 1
      (zip [11, 12] (Some msg # map (\<lambda>n. Some (registerService_request n)) [[97]])) new_registry new_TimerManager =
      Inr (map register_reply [[97]], rg', Some addr, tm', Some 4) \<and>
    discover_begin 1 5 [97] ?p = Some (it, req, p1) \<and>
    handleServiceDiscover (\<lambda>_ _. 7) rg' req = Inr resp \<and> pool_recv_round (\<lambda>_ _. 9) 2 p1 (Some resp) = Inr (True, [], p2) \<and>
    discover_end (\<lambda>_ _. 9) 0 1 [97] it (Some resp) p2 = Inr ([IPv4_insert addr], p3)"
    using published_service_found [OF h [unfolded la], of "[[97]]" "[11, 12]" "[97]" new_registry ?p 0 "\<lambda>_ _. 1" "\<lambda>_ _. 7" 0
        "\<lambda>_. True" 4 10 40000 "new_IPv4 0x7F000001 5000" 1 new_TimerManager 1 5 "\<lambda>_ _. 9" 2] p rg
    by (simp del: zip.simps zip_Cons_Cons list.map) metis
  then show ?thesis using h by fastforce
qed

end
